(* ===== verification/Ipc_Prelude.thy ===== *)
theory Ipc_Prelude
  imports Main "HOL-Library.Word"
begin

text \<open>
  Prelude of the development: the machine integers and pointers the model uses, the result of C
  code that may call \<^verbatim>\<open>abort()\<close>, and the generic lemmas on arrays (lists updated by index)
  that the component theories share.

  \<^item> \<open>u8\<close>, \<open>u32\<close>, \<open>u64\<close> are the fixed-width integers of \<^verbatim>\<open><stdint.h>\<close>: \<open>+\<close> and \<open>*\<close> wrap.
  \<^item> A pointer to a static object (an actor, a message descriptor, a function) is a number naming
    the object; a pointer that may be \<^verbatim>\<open>NULL\<close> is an \<open>option\<close> of it.
  \<^item> \<open>first_index\<close> is the \<^verbatim>\<open>for\<close> loop that returns the first table slot satisfying a test.
\<close>

unbundle bit_operations_syntax

section \<open>Machine integers and pointers\<close>

type_synonym u8 = "8 word"
type_synonym u32 = "32 word"
type_synonym u64 = "64 word"

type_synonym aptr = nat
type_synonym dptr = nat
type_synonym fnptr = nat

section \<open>Collections\<close>

named_theorems ipc_defs "definitions of operations, unfolded when an operation is analysed"
named_theorems frame_simps "fields an operation does not write"

section \<open>C code that may not come back\<close>

text \<open>
  \<open>Returns x\<close> is an ordinary return; \<open>Aborts\<close> stands for \<^verbatim>\<open>abort()\<close>, a failed \<^verbatim>\<open>assert()\<close> in a
  build with assertions, or the dereference of a \<^verbatim>\<open>NULL\<close> name.
\<close>

datatype 'a outcome = Returns 'a | Aborts

text \<open>
  Registration walks a linked list, so its model is \<open>'a outcome option\<close>: \<open>None\<close> is a walk that
  never ends. \<open>then_do\<close> sequences two such steps.
\<close>

fun then_do :: "'a outcome option \<Rightarrow> ('a \<Rightarrow> 'b outcome option) \<Rightarrow> 'b outcome option" where
  "then_do None f = None"
| "then_do (Some Aborts) f = Some Aborts"
| "then_do (Some (Returns x)) f = f x"

lemma then_do_Returns_iff:
  "then_do r f = Some (Returns y) \<longleftrightarrow> (\<exists>x. r = Some (Returns x) \<and> f x = Some (Returns y))"
  by (cases "(r, f)" rule: then_do.cases) auto

section \<open>Searching a table\<close>

fun first_index :: "('a \<Rightarrow> bool) \<Rightarrow> 'a list \<Rightarrow> nat option" where
  "first_index p [] = None"
| "first_index p (x # xs) = (if p x then Some 0 else map_option Suc (first_index p xs))"

lemma first_index_None_iff: "first_index p xs = None \<longleftrightarrow> (\<forall>x \<in> set xs. \<not> p x)"
  by (induction xs) auto

lemma first_index_SomeD:
  "first_index p xs = Some i \<Longrightarrow> i < length xs \<and> p (xs ! i) \<and> (\<forall>j < i. \<not> p (xs ! j))"
proof (induction xs arbitrary: i)
  case Nil
  then show ?case by simp
next
  case (Cons x xs)
  show ?case
  proof (cases "p x")
    case True
    with Cons.prems show ?thesis by simp
  next
    case False
    with Cons.prems obtain k where k: "first_index p xs = Some k" "i = Suc k" by auto
    with Cons.IH [OF k(1)] False show ?thesis
      by (auto simp: less_Suc_eq_0_disj)
  qed
qed

lemma first_index_Some_iff:
  "first_index p xs = Some i \<longleftrightarrow> i < length xs \<and> p (xs ! i) \<and> (\<forall>j < i. \<not> p (xs ! j))"
proof
  assume "first_index p xs = Some i"
  then show "i < length xs \<and> p (xs ! i) \<and> (\<forall>j < i. \<not> p (xs ! j))" by (rule first_index_SomeD)
next
  assume R: "i < length xs \<and> p (xs ! i) \<and> (\<forall>j < i. \<not> p (xs ! j))"
  then obtain k where k: "first_index p xs = Some k"
    by (cases "first_index p xs") (auto simp: first_index_None_iff)
  from first_index_SomeD [OF k] R have "k = i" by (metis linorder_neqE_nat)
  with k show "first_index p xs = Some i" by simp
qed

lemma first_index_unique:
  assumes "i < length xs" "p (xs ! i)" "\<And>j. j < length xs \<Longrightarrow> p (xs ! j) \<Longrightarrow> j = i"
  shows "first_index p xs = Some i"
  using assms by (metis first_index_Some_iff order.strict_trans less_not_refl)

lemma find_conv_first_index:
  "find p xs = map_option (\<lambda>i. xs ! i) (first_index p xs)"
  by (induction xs) (auto simp: option.map_comp comp_def)

lemma find_SomeD: "find p xs = Some x \<Longrightarrow> x \<in> set xs \<and> p x"
  by (induction xs) (auto split: if_splits)

section \<open>Tables with a fill count\<close>

lemma take_list_update_Suc:
  "n < length xs \<Longrightarrow> take (Suc n) (xs[n := x]) = take n xs @ [x]"
  by (simp add: take_Suc_conv_app_nth)

lemma set_list_update_cases: "x \<in> set (xs[i := v]) \<Longrightarrow> x \<in> set xs \<or> x = v"
  using set_update_subset_insert by fastforce

lemma filter_update_count:
  assumes "i < length xs"
  shows "length (filter p (xs[i := v])) + (if p (xs ! i) then 1 else 0)
       = length (filter p xs) + (if p v then 1 else 0)"
proof -
  have "filter p xs = filter p (take i xs) @ filter p (xs ! i # drop (Suc i) xs)"
    using assms by (metis filter_append id_take_nth_drop)
  then have "length (filter p xs)
      = length (filter p (take i xs)) + (if p (xs ! i) then 1 else 0)
        + length (filter p (drop (Suc i) xs))"
    by simp
  moreover have "xs[i := v] = take i xs @ v # drop (Suc i) xs"
    using assms by (rule upd_conv_take_nth_drop)
  ultimately show ?thesis by simp
qed

end
