(* ===== verification/Ipc_Types.thy ===== *)
theory Ipc_Types
  imports Ipc_Prelude
begin

text \<open>
  The data of \<^verbatim>\<open>include/ipc.h\<close> and the hash of \<^verbatim>\<open>src/ipc_internal.h\<close>: message kinds, descriptors,
  wire messages, actors, the slot-size arithmetic of the port queues, and the FNV-1a message ID.

  A C enum is a \<^verbatim>\<open>datatype\<close> with the source's constructors and one extra constructor for any other
  value of the underlying integer, because the code checks its enum arguments at run time.
  Return codes are \<open>int\<close>: 0 is success, \<open>- e\<close> the error \<open>e\<close> of \<^verbatim>\<open><errno.h>\<close> (the Linux numbers; the
  code only compares them with one another), and \<open>IPC_DELIVERY_DROPPED\<close> is 1.
\<close>

unbundle bit_operations_syntax

section \<open>Return codes\<close>

abbreviation (input) "EPERM \<equiv> (1::int)"
abbreviation (input) "ENOENT \<equiv> (2::int)"
abbreviation (input) "EIO \<equiv> (5::int)"
abbreviation (input) "EAGAIN \<equiv> (11::int)"
abbreviation (input) "ENOMEM \<equiv> (12::int)"
abbreviation (input) "EBUSY \<equiv> (16::int)"
abbreviation (input) "EEXIST \<equiv> (17::int)"
abbreviation (input) "ENODEV \<equiv> (19::int)"
abbreviation (input) "EINVAL \<equiv> (22::int)"
abbreviation (input) "ENOSYS \<equiv> (38::int)"
abbreviation (input) "EMSGSIZE \<equiv> (90::int)"
abbreviation (input) "ETIMEDOUT \<equiv> (110::int)"
abbreviation (input) "EALREADY \<equiv> (114::int)"

definition IPC_DELIVERY_DROPPED :: int where
  "IPC_DELIVERY_DROPPED = 1"

section \<open>Message kinds, descriptors and messages\<close>

datatype ipc_msg_kind_t = IPC_EVENT | IPC_CMD | Other_kind nat

record ipc_msg_desc_t =
  d_id :: u32
  d_kind :: ipc_msg_kind_t
  d_size :: nat
  d_name :: "string option"

text \<open>
  \<open>m_payload\<close> is the pointer to the payload: \<open>None\<close> is \<^verbatim>\<open>NULL\<close>, \<open>Some bs\<close> points at the readable
  bytes \<open>bs\<close>. A caller owes the port at least \<open>m_size\<close> readable bytes (\<open>msg_readable\<close>).
\<close>

record ipc_msg =
  m_id :: u32
  m_kind :: ipc_msg_kind_t
  m_size :: nat
  m_payload :: "u8 list option"
  m_ask_id :: u32
  m_reply_id :: u32
  m_result :: int

definition msg_readable :: "ipc_msg \<Rightarrow> bool" where
  "msg_readable m = (case m_payload m of None \<Rightarrow> True | Some bs \<Rightarrow> m_size m \<le> length bs)"

text \<open>The bytes a port copies for a message: \<open>m_size\<close> bytes of the payload, zeroes for \<^verbatim>\<open>NULL\<close>.\<close>

definition msg_bytes :: "ipc_msg \<Rightarrow> u8 list" where
  "msg_bytes m = (case m_payload m of None \<Rightarrow> replicate (m_size m) 0 | Some bs \<Rightarrow> take (m_size m) bs)"

lemma length_msg_bytes: "msg_readable m \<Longrightarrow> length (msg_bytes m) = m_size m"
  by (simp add: msg_readable_def msg_bytes_def split: option.splits)

section \<open>Actors\<close>

datatype ipc_mailbox_overflow_policy_t =
  IPC_MAILBOX_OVERFLOW_FAIL | IPC_MAILBOX_OVERFLOW_DROP | Other_policy nat

datatype ipc_supervision_strategy_t =
  IPC_SUPERVISE_NONE | IPC_SUPERVISE_STOP | IPC_SUPERVISE_RESTART | Other_strategy nat

record ipc_actor_cfg =
  stack_size :: nat
  priority :: int
  queue_depth :: nat
  max_payload_size :: nat

text \<open>
  \<open>a_handler\<close> is the raw entry point the port calls; \<^verbatim>\<open>IPC_ACTOR_DEFINE\<close> sets it to
  \<^verbatim>\<open>ipc_dispatch_actor_handlers\<close>. The field \<^verbatim>\<open>port\<close> is left out: it is the address of the port's own
  state of this actor, which the port models find by the actor's address.
\<close>

datatype ipc_actor_handler_t = Ipc_dispatch_actor_handlers | Raw_handler fnptr

record ipc_actor =
  a_name :: string
  a_handler :: ipc_actor_handler_t
  a_start_hook :: "fnptr option"
  a_stop_hook :: "fnptr option"
  a_unknown_handler :: "fnptr option"
  a_supervision :: ipc_supervision_strategy_t
  a_failure_hook :: "fnptr option"
  a_cfg :: ipc_actor_cfg
  a_mailbox_overflow_policy :: ipc_mailbox_overflow_policy_t
  a_dropped_messages :: u32
  a_next :: "aptr option"

text \<open>The static initialiser of \<^verbatim>\<open>IPC_ACTOR_DEFINE\<close>; its static assertions are \<open>actor_define_ok\<close>.\<close>

definition IPC_ACTOR_DEFINE :: "string \<Rightarrow> nat \<Rightarrow> int \<Rightarrow> nat \<Rightarrow> nat \<Rightarrow> ipc_actor" where
  "IPC_ACTOR_DEFINE actor_name stack_sz prio qdepth max_payload =
     \<lparr> a_name = actor_name, a_handler = Ipc_dispatch_actor_handlers, a_start_hook = None,
       a_stop_hook = None, a_unknown_handler = None, a_supervision = IPC_SUPERVISE_NONE,
       a_failure_hook = None,
       a_cfg = \<lparr> stack_size = stack_sz, priority = prio, queue_depth = qdepth,
                 max_payload_size = max_payload \<rparr>,
       a_mailbox_overflow_policy = IPC_MAILBOX_OVERFLOW_FAIL, a_dropped_messages = 0,
       a_next = None \<rparr>"

definition actor_define_ok :: "nat \<Rightarrow> nat \<Rightarrow> nat \<Rightarrow> bool" where
  "actor_define_ok stack_sz qdepth max_payload = (0 < stack_sz \<and> 0 < qdepth)"

text \<open>The descriptor macros: the ID starts at 0 and the name is the type's name.\<close>

definition IPC_CMD_DEFINE :: "string \<Rightarrow> nat \<Rightarrow> ipc_msg_desc_t" where
  "IPC_CMD_DEFINE type_name payload_size =
     \<lparr> d_id = 0, d_kind = IPC_CMD, d_size = payload_size, d_name = Some type_name \<rparr>"

definition IPC_EVENT_DEFINE :: "string \<Rightarrow> nat \<Rightarrow> ipc_msg_desc_t" where
  "IPC_EVENT_DEFINE type_name payload_size =
     \<lparr> d_id = 0, d_kind = IPC_EVENT, d_size = payload_size, d_name = Some type_name \<rparr>"

section \<open>Message sizing\<close>

text \<open>
  \<^verbatim>\<open>IPC_ALIGN_UP\<close> on \<^verbatim>\<open>size_t\<close> of 64 bits, with the mask and the wrap-around of the C expression.
  The header of a slot has 28 bytes of fields and is padded to 32; \<^verbatim>\<open>max_align_t\<close> is 16-aligned
  (LP64).
\<close>

definition IPC_ALIGN_UP :: "u64 \<Rightarrow> u64 \<Rightarrow> u64" where
  "IPC_ALIGN_UP v alignment = (v + alignment - 1) AND NOT (alignment - 1)"

definition alignof_max_align_t :: u64 where
  "alignof_max_align_t = 16"

definition sizeof_ipc_msg_slot_header_t :: u64 where
  "sizeof_ipc_msg_slot_header_t = 32"

definition IPC_MSG_SLOT_HEADER_SIZE :: u64 where
  "IPC_MSG_SLOT_HEADER_SIZE = IPC_ALIGN_UP sizeof_ipc_msg_slot_header_t alignof_max_align_t"

definition IPC_MSG_SLOT_SIZE :: "u64 \<Rightarrow> u64" where
  "IPC_MSG_SLOT_SIZE payload_size =
     IPC_ALIGN_UP (IPC_MSG_SLOT_HEADER_SIZE + payload_size) alignof_max_align_t"

text \<open>
  \<^verbatim>\<open>IPC_MESSAGE_MAX1\<close> .. \<^verbatim>\<open>IPC_MESSAGE_MAX8\<close>: each is the conditional of the one with an argument
  less and the last size.
\<close>

fun IPC_MESSAGE_MAX_from :: "nat \<Rightarrow> nat list \<Rightarrow> nat" where
  "IPC_MESSAGE_MAX_from m [] = m"
| "IPC_MESSAGE_MAX_from m (x # xs) = IPC_MESSAGE_MAX_from (if m > x then m else x) xs"

fun IPC_MESSAGE_MAX :: "nat list \<Rightarrow> nat" where
  "IPC_MESSAGE_MAX [] = 0"
| "IPC_MESSAGE_MAX (x # xs) = IPC_MESSAGE_MAX_from x xs"

section \<open>FNV-1a\<close>

definition fnv1a_step :: "u32 \<Rightarrow> char \<Rightarrow> u32" where
  "fnv1a_step h c = (h XOR ucast (of_char c :: u8)) * 0x01000193"

fun fnv1a_loop :: "u32 \<Rightarrow> string \<Rightarrow> u32" where
  "fnv1a_loop h [] = h"
| "fnv1a_loop h (c # s) = fnv1a_loop (fnv1a_step h c) s"

definition ipc_fnv1a :: "string \<Rightarrow> u32" where
  "ipc_fnv1a s = fnv1a_loop 0x811c9dc5 s"

section \<open>Lemmas on slot sizes\<close>

lemma and_not_mask_unat:
  "unat (x AND NOT (mask k) :: u64) = unat x - unat x mod 2 ^ k"
proof -
  have m: "unat (x AND mask k) = unat x mod 2 ^ k"
    by (simp flip: take_bit_eq_mask take_bit_eq_mod add: unsigned_take_bit_eq)
  have "x - (x AND mask k) = x AND NOT (x AND mask k)"
    by (rule disjunctive_diff) (simp add: bit_simps)
  also have "\<dots> = x AND NOT (mask k)"
    by (rule bit_eqI) (auto simp: bit_simps)
  finally have "x AND NOT (mask k) = x - (x AND mask k)" ..
  with m show ?thesis
    by (simp add: unat_sub word_and_le2)
qed

lemma unat_of_nat_u64: "n < 2 ^ 64 \<Longrightarrow> unat (of_nat n :: u64) = n"
  by (simp add: unsigned_of_nat take_bit_nat_eq_self)

lemma unat_2p_minus_1:
  assumes "k < 64" shows "unat (2 ^ k - 1 :: u64) = 2 ^ k - 1"
proof -
  have "(2::nat) ^ k < 2 ^ 64" using assms by (rule power_strict_increasing) simp
  then have "unat (of_nat (2 ^ k - 1) :: u64) = 2 ^ k - 1"
    by (intro unat_of_nat_u64) simp
  then show ?thesis by simp
qed

lemma ipc_align_up_unat:
  assumes k: "k < 64" and fits: "unat v + 2 ^ k \<le> 2 ^ 64"
  shows "unat (IPC_ALIGN_UP v (2 ^ k)) = (unat v + (2 ^ k - 1)) - (unat v + (2 ^ k - 1)) mod 2 ^ k"
proof -
  have "unat (v + (2 ^ k - 1)) = unat v + (2 ^ k - 1)"
  proof -
    have "(1::nat) \<le> 2 ^ k" by simp
    then have "unat v + unat (2 ^ k - 1 :: u64) < 2 ^ LENGTH(64)"
      using fits by (simp add: unat_2p_minus_1 [OF k])
    then show ?thesis
      by (simp add: unat_word_ariths unat_2p_minus_1 [OF k])
  qed
  moreover have "IPC_ALIGN_UP v (2 ^ k) = (v + (2 ^ k - 1)) AND NOT (mask k)"
    by (simp add: IPC_ALIGN_UP_def mask_eq_decr_exp algebra_simps)
  ultimately show ?thesis
    by (simp add: and_not_mask_unat)
qed

lemma round_up_bounds:
  fixes v a :: nat
  assumes "0 < a"
  defines "r \<equiv> (v + (a - 1)) - (v + (a - 1)) mod a"
  shows "a dvd r" "v \<le> r" "r < v + a"
proof -
  show "a dvd r" unfolding r_def by (rule dvd_minus_mod)
  have "(v + (a - 1)) mod a < a" using assms(1) by simp
  then show "v \<le> r" "r < v + a" unfolding r_def using assms(1) by linarith+
qed

lemma ipc_msg_slot_size_unat:
  assumes "n + 48 \<le> 2 ^ 64"
  shows "unat (IPC_MSG_SLOT_SIZE (of_nat n)) = (32 + n + 15) - (32 + n + 15) mod 16"
proof -
  have n: "unat (of_nat n :: u64) = n"
    using assms by (intro unat_of_nat_u64) simp
  have "IPC_MSG_SLOT_HEADER_SIZE = 32"
    by (simp add: IPC_MSG_SLOT_HEADER_SIZE_def IPC_ALIGN_UP_def alignof_max_align_t_def sizeof_ipc_msg_slot_header_t_def)
  moreover have "unat (32 + of_nat n :: u64) = 32 + n"
    using assms n by (simp add: unat_word_ariths)
  ultimately show ?thesis
    using ipc_align_up_unat [of 4 "32 + of_nat n"] assms
    by (simp add: IPC_MSG_SLOT_SIZE_def alignof_max_align_t_def)
qed

lemma IPC_MESSAGE_MAX_from_Max: "IPC_MESSAGE_MAX_from m xs = Max (insert m (set xs))"
proof (induction xs arbitrary: m)
  case Nil
  then show ?case by simp
next
  case (Cons x xs)
  have "(if m > x then m else x) = max m x" by simp
  then have "IPC_MESSAGE_MAX_from m (x # xs) = Max (insert (max m x) (set xs))"
    using Cons.IH by simp
  also have "\<dots> = Max (insert m (insert x (set xs)))"
    by (cases "set xs = {}") (simp_all add: max.assoc)
  finally show ?case by simp
qed

section \<open>Lemmas on the hash\<close>

text \<open>
  The prime is odd, so multiplication by it is injective modulo \<open>2 ^ 32\<close>; each step is therefore
  injective in the hash so far and in the character.
\<close>

lemma fnv_prime_cancel: "a * 0x01000193 = (b * 0x01000193 :: u32) \<longleftrightarrow> a = b"
proof
  have inv: "(0x01000193 :: u32) * 0x359c449b = 1" by simp
  assume "a * 0x01000193 = b * 0x01000193"
  then have "a * (0x01000193 * 0x359c449b) = b * (0x01000193 * 0x359c449b)"
    by (simp only: mult.assoc [symmetric])
  then show "a = b" by (simp only: inv mult_1_right)
qed simp

lemma xor_cancel_right: "(a XOR c) = (b XOR c :: u32) \<longleftrightarrow> a = b"
proof
  assume "(a XOR c) = (b XOR c)"
  then have "(a XOR c) XOR c = (b XOR c) XOR c" by (rule arg_cong)
  then show "a = b" by (simp only: xor.assoc xor_self_eq xor.right_neutral)
qed simp

lemma fnv1a_step_inj: "fnv1a_step h c = fnv1a_step h' c \<longleftrightarrow> h = h'"
  by (simp only: fnv1a_step_def fnv_prime_cancel xor_cancel_right)

lemma of_char_u8_inj: "(of_char c :: u8) = of_char c' \<longleftrightarrow> c = c'"
proof
  have u: "unat (of_char x :: u8) = of_char x" for x
  proof -
    have "(of_char x :: u8) = of_nat (of_char x)" by (rule of_nat_of_char [symmetric])
    moreover have "(of_char x :: nat) < 2 ^ 8" using nat_of_char_less_256 [of x] by simp
    ultimately show ?thesis by (simp add: unsigned_of_nat take_bit_nat_eq_self)
  qed
  assume "(of_char c :: u8) = of_char c'"
  then have "(of_char c :: nat) = of_char c'" by (metis u)
  then show "c = c'" by simp
qed simp

lemma ucast_u8_u32_inj: "ucast (a :: u8) = (ucast b :: u32) \<longleftrightarrow> a = b"
proof
  assume "ucast a = (ucast b :: u32)"
  then have "ucast (ucast a :: u32) = (ucast (ucast b :: u32) :: u8)" by simp
  then show "a = b" by (simp add: ucast_up_ucast_id is_up)
qed simp

lemma fnv1a_step_char_inj: "fnv1a_step h c = fnv1a_step h c' \<longleftrightarrow> c = c'"
  by (simp only: fnv1a_step_def fnv_prime_cancel xor.commute [of h] xor_cancel_right
      ucast_u8_u32_inj of_char_u8_inj)

lemma fnv1a_loop_inj: "fnv1a_loop h s = fnv1a_loop h' s \<longleftrightarrow> h = h'"
  by (induction s arbitrary: h h') (simp_all add: fnv1a_step_inj)

lemma fnv1a_loop_append: "fnv1a_loop h (s @ t) = fnv1a_loop (fnv1a_loop h s) t"
  by (induction s arbitrary: h) simp_all

section \<open>Properties\<close>

text \<open>
  C9: a queue slot holds the header and the largest payload and keeps the alignment. For every
  payload capacity for which the 64-bit size arithmetic does not wrap, \<^verbatim>\<open>IPC_MSG_SLOT_SIZE\<close> is a
  multiple of 16, is at least the 32 bytes of the header plus the capacity, and wastes fewer than
  16 bytes; without that bound it does wrap (the slot of a capacity of \<open>2 ^ 64 - 1\<close> has 32 bytes).
\<close>

theorem ipc_msg_slot_size_sound:
  assumes "n + 48 \<le> 2 ^ 64"
  shows "16 dvd unat (IPC_MSG_SLOT_SIZE (of_nat n))
    \<and> 32 + n \<le> unat (IPC_MSG_SLOT_SIZE (of_nat n))
    \<and> unat (IPC_MSG_SLOT_SIZE (of_nat n)) < 32 + n + 16
    \<and> IPC_MSG_SLOT_SIZE (- 1) = 32"
proof -
  have "IPC_MSG_SLOT_SIZE (- 1) = 32"
    by (simp add: IPC_MSG_SLOT_SIZE_def IPC_MSG_SLOT_HEADER_SIZE_def IPC_ALIGN_UP_def
        alignof_max_align_t_def sizeof_ipc_msg_slot_header_t_def)
  then show ?thesis
    unfolding ipc_msg_slot_size_unat [OF assms]
    using round_up_bounds [of 16 "32 + n"] by simp
qed

theorem ipc_msg_slot_size_sound_witness:
  "(5::nat) + 48 \<le> 2 ^ 64 \<and> 16 dvd unat (IPC_MSG_SLOT_SIZE (of_nat 5))
    \<and> 37 \<le> unat (IPC_MSG_SLOT_SIZE (of_nat 5))"
  using ipc_msg_slot_size_sound [of 5] by simp

text \<open>
  \<^verbatim>\<open>IPC_MESSAGE_MAX(...)\<close> of one to eight message types is the size of the largest, so an actor
  sized with it accepts each of them.
\<close>

theorem ipc_message_max_is_max:
  assumes "xs \<noteq> []"
  shows "IPC_MESSAGE_MAX xs = Max (set xs)"
  using assms by (cases xs) (simp_all add: IPC_MESSAGE_MAX_from_Max)

theorem ipc_message_max_is_max_witness:
  "IPC_MESSAGE_MAX [4, 9, 2] = Max (set [4, 9, 2]) \<and> IPC_MESSAGE_MAX [4, 9, 2] = 9"
  using ipc_message_max_is_max [of "[4, 9, 2]"] by simp

text \<open>
  C10: two message names of the same length that differ in exactly one character never share an ID,
  whatever the rest of the names: FNV-1a has no collision at Hamming distance one.
\<close>

theorem fnv1a_one_char_apart:
  assumes "c \<noteq> c'"
  shows "ipc_fnv1a (before @ c # after) \<noteq> ipc_fnv1a (before @ c' # after)"
  using assms by (simp add: ipc_fnv1a_def fnv1a_loop_append fnv1a_loop_inj fnv1a_step_char_inj)

theorem fnv1a_one_char_apart_witness:
  "ipc_fnv1a ''Led1On'' \<noteq> ipc_fnv1a ''Led2On''"
  using fnv1a_one_char_apart [of "CHR ''1''" "CHR ''2''" "''Led''" "''On''"] by simp

end
