(* ===== verification/Ipc_State.thy ===== *)
theory Ipc_State
  imports Ipc_Types
begin

text \<open>
  The state the core \<^verbatim>\<open>src/ipc.c\<close> works on, and the port interface of \<^verbatim>\<open>src/ipc_port.h\<close>.

  A state \<open>('p, 'u) sys\<close> holds the static variables of \<^verbatim>\<open>ipc.c\<close> (one field each), the actor and
  descriptor objects the application declares, the state \<open>'p\<close> of the linked port and the state \<open>'u\<close>
  of the application. The port is a record \<open>'p port_ops\<close> of its functions, chosen at link time; the
  application's hooks, handlers and callbacks are one function from a call (\<open>user_call\<close>) to a state
  transformer. Both are arguments of the operations that use them.
\<close>

section \<open>Build configuration\<close>

record ipc_config =
  IPC_CORE_MAX_REGISTRATIONS :: nat
  IPC_CORE_MAX_SUBSCRIPTIONS :: nat
  IPC_CORE_MAX_INFLIGHT_QUERIES :: nat
  IPC_CONFIG_ENABLE_ASK :: bool
  build_ndebug :: bool

text \<open>The default values, and the static assertions every build passes.\<close>

definition ipc_default_config :: ipc_config where
  "ipc_default_config =
     \<lparr> IPC_CORE_MAX_REGISTRATIONS = 32, IPC_CORE_MAX_SUBSCRIPTIONS = 32,
       IPC_CORE_MAX_INFLIGHT_QUERIES = 16, IPC_CONFIG_ENABLE_ASK = True, build_ndebug = False \<rparr>"

definition ipc_config_ok :: "ipc_config \<Rightarrow> bool" where
  "ipc_config_ok c =
     (0 < IPC_CORE_MAX_REGISTRATIONS c
      \<and> (IPC_CONFIG_ENABLE_ASK c \<longrightarrow> 0 < IPC_CORE_MAX_INFLIGHT_QUERIES c))"

section \<open>The tables\<close>

record ipc_registration_t =
  r_msg_id :: u32
  r_msg_name :: string
  r_actor :: aptr

record ipc_subscription_t =
  s_msg_id :: u32
  s_msg_name :: string
  s_actor :: aptr

record ipc_handler_binding_t =
  b_actor :: aptr
  b_msg_id :: u32
  b_handler :: fnptr

record ipc_pending_ask_t =
  q_used :: bool
  q_reply_sent :: bool
  q_timeout_queued :: bool
  q_ask_id :: u32
  q_reply_id :: u32
  q_deadline_ms :: u32
  q_actor :: aptr
  q_callback :: fnptr

datatype ipc_lifecycle_state_t =
  IPC_LIFECYCLE_STOPPED | IPC_LIFECYCLE_RUNNING | IPC_LIFECYCLE_STOPPING

text \<open>The entries \<^verbatim>\<open>memset(..., 0, ...)\<close> leaves.\<close>

definition zero_registration :: ipc_registration_t where
  "zero_registration = \<lparr> r_msg_id = 0, r_msg_name = [], r_actor = 0 \<rparr>"

definition zero_subscription :: ipc_subscription_t where
  "zero_subscription = \<lparr> s_msg_id = 0, s_msg_name = [], s_actor = 0 \<rparr>"

definition zero_binding :: ipc_handler_binding_t where
  "zero_binding = \<lparr> b_actor = 0, b_msg_id = 0, b_handler = 0 \<rparr>"

definition zero_pending_ask :: ipc_pending_ask_t where
  "zero_pending_ask =
     \<lparr> q_used = False, q_reply_sent = False, q_timeout_queued = False, q_ask_id = 0,
       q_reply_id = 0, q_deadline_ms = 0, q_actor = 0, q_callback = 0 \<rparr>"

lemma zero_pending_ask_sel [simp]:
  "q_used zero_pending_ask = False" "q_ask_id zero_pending_ask = 0"
  by (simp_all add: zero_pending_ask_def)

definition ipc_ask_timeout_msg_id :: u32 where
  "ipc_ask_timeout_msg_id = - 1"

section \<open>The state\<close>

record ('p, 'u) sys =
  conf :: ipc_config
  actors :: "aptr \<Rightarrow> ipc_actor"
  descs :: "dptr \<Rightarrow> ipc_msg_desc_t"
  ipc_actor_list :: "aptr option"
  reg_table :: "ipc_registration_t list"
  reg_count :: nat
  sub_table :: "ipc_subscription_t list"
  sub_count :: nat
  handler_table :: "ipc_handler_binding_t list"
  handler_count :: nat
  lifecycle_state :: ipc_lifecycle_state_t
  next_ask_id :: u32
  ask_table :: "ipc_pending_ask_t list"
  port_st :: 'p
  app_st :: 'u

text \<open>
  The used part of each table, which is all the code reads: the loops run up to the counts.
\<close>

abbreviation regs :: "('p, 'u) sys \<Rightarrow> ipc_registration_t list" where
  "regs s \<equiv> take (reg_count s) (reg_table s)"

abbreviation subs :: "('p, 'u) sys \<Rightarrow> ipc_subscription_t list" where
  "subs s \<equiv> take (sub_count s) (sub_table s)"

abbreviation bindings :: "('p, 'u) sys \<Rightarrow> ipc_handler_binding_t list" where
  "bindings s \<equiv> take (handler_count s) (handler_table s)"

text \<open>The program before any registration: zeroed tables of the configured sizes.\<close>

definition ipc_initial ::
    "ipc_config \<Rightarrow> (aptr \<Rightarrow> ipc_actor) \<Rightarrow> (dptr \<Rightarrow> ipc_msg_desc_t) \<Rightarrow> 'p \<Rightarrow> 'u \<Rightarrow> ('p, 'u) sys" where
  "ipc_initial c as ds p u =
     \<lparr> conf = c, actors = as, descs = ds, ipc_actor_list = None,
       reg_table = replicate (IPC_CORE_MAX_REGISTRATIONS c) zero_registration, reg_count = 0,
       sub_table = replicate (IPC_CORE_MAX_SUBSCRIPTIONS c) zero_subscription, sub_count = 0,
       handler_table = replicate (IPC_CORE_MAX_REGISTRATIONS c + IPC_CORE_MAX_SUBSCRIPTIONS c)
         zero_binding, handler_count = 0,
       lifecycle_state = IPC_LIFECYCLE_STOPPED, next_ask_id = 1,
       ask_table = replicate (IPC_CORE_MAX_INFLIGHT_QUERIES c) zero_pending_ask,
       port_st = p, app_st = u \<rparr>"

definition ipc_reset_for_testing :: "('p, 'u) sys \<Rightarrow> ('p, 'u) sys" where
  "ipc_reset_for_testing s =
     (let s1 = s\<lparr> reg_count := 0, sub_count := 0, handler_count := 0,
                  reg_table := replicate (length (reg_table s)) zero_registration,
                  sub_table := replicate (length (sub_table s)) zero_subscription,
                  handler_table := replicate (length (handler_table s)) zero_binding \<rparr>;
          s2 = (if IPC_CONFIG_ENABLE_ASK (conf s)
                then s1\<lparr> ask_table := replicate (length (ask_table s)) zero_pending_ask,
                         next_ask_id := 1 \<rparr>
                else s1)
      in s2\<lparr> lifecycle_state := IPC_LIFECYCLE_STOPPED, ipc_actor_list := None \<rparr>)"

definition ipc_set_next_ask_id_for_testing :: "u32 \<Rightarrow> ('p, 'u) sys \<Rightarrow> ('p, 'u) sys" where
  "ipc_set_next_ask_id_for_testing n s =
     (if IPC_CONFIG_ENABLE_ASK (conf s) then s\<lparr> next_ask_id := n \<rparr> else s)"

section \<open>Application code\<close>

text \<open>
  The calls the framework makes into the application: a typed handler (through its adapter), a
  raw actor handler, an ask callback, and the four hooks.
\<close>

datatype user_call =
    Call_handler fnptr aptr ipc_msg
  | Call_raw_handler fnptr aptr ipc_msg
  | Call_callback fnptr aptr int "u8 list option" nat ipc_msg
  | Call_start_hook fnptr aptr
  | Call_stop_hook fnptr aptr
  | Call_unknown fnptr aptr ipc_msg
  | Call_failure_hook fnptr aptr int

type_synonym ('p, 'u) user_code = "user_call \<Rightarrow> ('p, 'u) sys \<Rightarrow> ('p, 'u) sys"

text \<open>An application that only records the calls it receives, oldest first.\<close>

definition recording :: "('p, user_call list) user_code" where
  "recording c s = s\<lparr> app_st := app_st s @ [c] \<rparr>"

section \<open>The port interface\<close>

text \<open>
  One field per function of \<^verbatim>\<open>ipc_port.h\<close>. A port function gets the actor's address and the actor
  object (a port reads its configuration) and returns the port's new state and the return code.
  \<open>port_run_all\<close> gets the actors in list order; \<open>None\<close> is a call that blocks.
\<close>

record 'p port_ops =
  port_actor_init :: "aptr \<Rightarrow> ipc_actor \<Rightarrow> 'p \<Rightarrow> 'p \<times> int"
  port_start :: "aptr \<Rightarrow> ipc_actor \<Rightarrow> 'p \<Rightarrow> 'p \<times> int"
  port_stop_actor :: "aptr \<Rightarrow> ipc_actor \<Rightarrow> 'p \<Rightarrow> 'p"
  port_restart_actor :: "aptr \<Rightarrow> ipc_actor \<Rightarrow> 'p \<Rightarrow> 'p \<times> int"
  port_send :: "aptr \<Rightarrow> ipc_actor \<Rightarrow> ipc_msg \<Rightarrow> 'p \<Rightarrow> 'p \<times> int"
  port_send_isr :: "aptr \<Rightarrow> ipc_actor \<Rightarrow> ipc_msg \<Rightarrow> 'p \<Rightarrow> 'p \<times> int"
  port_send_after :: "aptr \<Rightarrow> ipc_actor \<Rightarrow> ipc_msg \<Rightarrow> u32 \<Rightarrow> 'p \<Rightarrow> 'p \<times> int"
  port_schedule_ask_timeout :: "aptr \<Rightarrow> ipc_actor \<Rightarrow> u32 \<Rightarrow> u32 \<Rightarrow> 'p \<Rightarrow> 'p \<times> int"
  port_run_all :: "aptr list \<Rightarrow> 'p \<Rightarrow> ('p \<times> int) option"
  port_now_ms :: "'p \<Rightarrow> u32"

text \<open>The core's calls into the port, on the whole state.\<close>

definition on_port :: "('p \<Rightarrow> 'p \<times> int) \<Rightarrow> ('p, 'u) sys \<Rightarrow> int \<times> ('p, 'u) sys" where
  "on_port f s = (case f (port_st s) of (p, rc) \<Rightarrow> (rc, s\<lparr> port_st := p \<rparr>))"

definition ipc_port_actor_init :: "'p port_ops \<Rightarrow> aptr \<Rightarrow> ('p, 'u) sys \<Rightarrow> int \<times> ('p, 'u) sys" where
  "ipc_port_actor_init P a s = on_port (port_actor_init P a (actors s a)) s"

definition ipc_port_start :: "'p port_ops \<Rightarrow> aptr \<Rightarrow> ('p, 'u) sys \<Rightarrow> int \<times> ('p, 'u) sys" where
  "ipc_port_start P a s = on_port (port_start P a (actors s a)) s"

definition ipc_port_stop_actor :: "'p port_ops \<Rightarrow> aptr \<Rightarrow> ('p, 'u) sys \<Rightarrow> ('p, 'u) sys" where
  "ipc_port_stop_actor P a s = s\<lparr> port_st := port_stop_actor P a (actors s a) (port_st s) \<rparr>"

definition ipc_port_restart_actor :: "'p port_ops \<Rightarrow> aptr \<Rightarrow> ('p, 'u) sys \<Rightarrow> int \<times> ('p, 'u) sys" where
  "ipc_port_restart_actor P a s = on_port (port_restart_actor P a (actors s a)) s"

definition ipc_port_send ::
    "'p port_ops \<Rightarrow> aptr \<Rightarrow> ipc_msg \<Rightarrow> ('p, 'u) sys \<Rightarrow> int \<times> ('p, 'u) sys" where
  "ipc_port_send P a m s = on_port (port_send P a (actors s a) m) s"

definition ipc_port_send_isr ::
    "'p port_ops \<Rightarrow> aptr \<Rightarrow> ipc_msg \<Rightarrow> ('p, 'u) sys \<Rightarrow> int \<times> ('p, 'u) sys" where
  "ipc_port_send_isr P a m s = on_port (port_send_isr P a (actors s a) m) s"

definition ipc_port_send_after ::
    "'p port_ops \<Rightarrow> aptr \<Rightarrow> ipc_msg \<Rightarrow> u32 \<Rightarrow> ('p, 'u) sys \<Rightarrow> int \<times> ('p, 'u) sys" where
  "ipc_port_send_after P a m ms s = on_port (port_send_after P a (actors s a) m ms) s"

definition ipc_port_schedule_ask_timeout ::
    "'p port_ops \<Rightarrow> aptr \<Rightarrow> u32 \<Rightarrow> u32 \<Rightarrow> ('p, 'u) sys \<Rightarrow> int \<times> ('p, 'u) sys" where
  "ipc_port_schedule_ask_timeout P a ask_id ms s =
     on_port (port_schedule_ask_timeout P a (actors s a) ask_id ms) s"

lemmas port_call_defs =
  ipc_port_actor_init_def ipc_port_start_def ipc_port_restart_actor_def ipc_port_send_def
  ipc_port_send_isr_def ipc_port_send_after_def ipc_port_schedule_ask_timeout_def

text \<open>A port call writes the port's state and nothing else.\<close>

definition same_core :: "('p, 'u) sys \<Rightarrow> ('p, 'u) sys \<Rightarrow> bool" where
  "same_core s t \<longleftrightarrow> t = s\<lparr> port_st := port_st t \<rparr>"

lemma on_port_same_core: "on_port f s = (rc, t) \<Longrightarrow> same_core s t"
  by (auto simp: on_port_def same_core_def split: prod.splits)

lemma same_coreD:
  assumes "same_core s t"
  shows "conf t = conf s" "actors t = actors s" "descs t = descs s"
    "ipc_actor_list t = ipc_actor_list s" "reg_table t = reg_table s" "reg_count t = reg_count s"
    "sub_table t = sub_table s" "sub_count t = sub_count s" "handler_table t = handler_table s"
    "handler_count t = handler_count s" "lifecycle_state t = lifecycle_state s"
    "next_ask_id t = next_ask_id s" "ask_table t = ask_table s" "app_st t = app_st s"
proof -
  from assms have eq: "t = s\<lparr> port_st := port_st t \<rparr>" by (simp add: same_core_def)
  show "conf t = conf s" by (subst eq) simp
  show "actors t = actors s" by (subst eq) simp
  show "descs t = descs s" by (subst eq) simp
  show "ipc_actor_list t = ipc_actor_list s" by (subst eq) simp
  show "reg_table t = reg_table s" by (subst eq) simp
  show "reg_count t = reg_count s" by (subst eq) simp
  show "sub_table t = sub_table s" by (subst eq) simp
  show "sub_count t = sub_count s" by (subst eq) simp
  show "handler_table t = handler_table s" by (subst eq) simp
  show "handler_count t = handler_count s" by (subst eq) simp
  show "lifecycle_state t = lifecycle_state s" by (subst eq) simp
  show "next_ask_id t = next_ask_id s" by (subst eq) simp
  show "ask_table t = ask_table s" by (subst eq) simp
  show "app_st t = app_st s" by (subst eq) simp
qed

lemma on_port_fields [frame_simps]:
  "conf (snd (on_port f s)) = conf s" "actors (snd (on_port f s)) = actors s"
  "descs (snd (on_port f s)) = descs s" "ipc_actor_list (snd (on_port f s)) = ipc_actor_list s"
  "reg_table (snd (on_port f s)) = reg_table s" "reg_count (snd (on_port f s)) = reg_count s"
  "sub_table (snd (on_port f s)) = sub_table s" "sub_count (snd (on_port f s)) = sub_count s"
  "handler_table (snd (on_port f s)) = handler_table s"
  "handler_count (snd (on_port f s)) = handler_count s"
  "lifecycle_state (snd (on_port f s)) = lifecycle_state s"
  "next_ask_id (snd (on_port f s)) = next_ask_id s" "ask_table (snd (on_port f s)) = ask_table s"
  "app_st (snd (on_port f s)) = app_st s"
  by (simp_all add: on_port_def split: prod.splits)

lemma on_port_result:
  "fst (on_port f s) = snd (f (port_st s))" "port_st (snd (on_port f s)) = fst (f (port_st s))"
  by (simp_all add: on_port_def split: prod.splits)

section \<open>A small program\<close>

text \<open>
  Two actors, one command and one event, in a build with tables of two entries. The concrete runs
  of the other theories start from it.
\<close>

definition ex_config :: ipc_config where
  "ex_config =
     \<lparr> IPC_CORE_MAX_REGISTRATIONS = 2, IPC_CORE_MAX_SUBSCRIPTIONS = 2,
       IPC_CORE_MAX_INFLIGHT_QUERIES = 2, IPC_CONFIG_ENABLE_ASK = True, build_ndebug = False \<rparr>"

definition ex_actors :: "aptr \<Rightarrow> ipc_actor" where
  "ex_actors a =
     (if a = 1 then (IPC_ACTOR_DEFINE ''led'' 1024 0 2 8)\<lparr> a_start_hook := Some 91, a_stop_hook := Some 92 \<rparr>
      else IPC_ACTOR_DEFINE ''app'' 1024 0 2 8)"

definition ex_descs :: "dptr \<Rightarrow> ipc_msg_desc_t" where
  "ex_descs d =
     (if d = 0 then IPC_CMD_DEFINE ''On'' 4 else if d = 1 then IPC_EVENT_DEFINE ''Ev'' 4
      else IPC_CMD_DEFINE ''Re'' 4)"

definition ex_initial :: "'p \<Rightarrow> 'u \<Rightarrow> ('p, 'u) sys" where
  "ex_initial p u = ipc_initial ex_config ex_actors ex_descs p u"

text \<open>
  The same program after registration and start: actor 1 owns the command, actors 1 and 2 subscribe
  to the event, and the IDs have been computed.
\<close>

definition ex_running :: "'p \<Rightarrow> 'u \<Rightarrow> ('p, 'u) sys" where
  "ex_running p u = (ex_initial p u)
     \<lparr> actors := ex_actors(1 := (ex_actors 1)\<lparr> a_next := Some 2 \<rparr>),
       descs := ex_descs(0 := (ex_descs 0)\<lparr> d_id := 10 \<rparr>, 1 := (ex_descs 1)\<lparr> d_id := 11 \<rparr>,
                         2 := (ex_descs 2)\<lparr> d_id := 12 \<rparr>),
       ipc_actor_list := Some 1,
       reg_table := [\<lparr> r_msg_id = 10, r_msg_name = ''On'', r_actor = 1 \<rparr>, zero_registration],
       reg_count := 1,
       sub_table := [\<lparr> s_msg_id = 11, s_msg_name = ''Ev'', s_actor = 1 \<rparr>,
                     \<lparr> s_msg_id = 11, s_msg_name = ''Ev'', s_actor = 2 \<rparr>],
       sub_count := 2,
       handler_table := [\<lparr> b_actor = 1, b_msg_id = 10, b_handler = 51 \<rparr>,
                         \<lparr> b_actor = 1, b_msg_id = 11, b_handler = 52 \<rparr>,
                         \<lparr> b_actor = 2, b_msg_id = 11, b_handler = 53 \<rparr>, zero_binding],
       handler_count := 3,
       lifecycle_state := IPC_LIFECYCLE_RUNNING \<rparr>"

text \<open>A port with no state that accepts everything; its run ends at once.\<close>

definition ex_port :: "unit port_ops" where
  "ex_port =
     \<lparr> port_actor_init = (\<lambda>a x p. (p, 0)), port_start = (\<lambda>a x p. (p, 0)),
       port_stop_actor = (\<lambda>a x p. p), port_restart_actor = (\<lambda>a x p. (p, 0)),
       port_send = (\<lambda>a x m p. (p, 0)), port_send_isr = (\<lambda>a x m p. (p, 0)),
       port_send_after = (\<lambda>a x m n p. (p, 0)), port_schedule_ask_timeout = (\<lambda>a x i n p. (p, 0)),
       port_run_all = (\<lambda>xs p. Some (p, 0)), port_now_ms = (\<lambda>p. 0) \<rparr>"

lemma replicate_two: "replicate 2 x = [x, x]"
  by (simp add: numeral_2_eq_2)

lemmas ex_defs = replicate_two
  ex_config_def ex_actors_def ex_descs_def ex_initial_def ex_running_def ipc_initial_def
  IPC_ACTOR_DEFINE_def IPC_CMD_DEFINE_def IPC_EVENT_DEFINE_def

end
