(* ===== verification/Ipc_Registry.thy ===== *)
theory Ipc_Registry
  imports Ipc_State "HOL-Library.Multiset"
begin

text \<open>
  Static registration in \<^verbatim>\<open>src/ipc.c\<close>: the lazy message ID, the actor list, the command route
  table, the event subscription table, the handler table and the hooks.

  The actor list is the linked list of the C code: a head pointer, the \<open>a_next\<close> field of each actor
  and a walk with a pointer to the link that is read and, at the end, written. \<open>actor_list\<close> says
  which sequence of actors a list of links holds; the registration refines "append if absent" on it.
\<close>

section \<open>Lazy ID initialisation\<close>

text \<open>
  The compare-and-exchange only succeeds on 0, so a second caller that computed the ID at the same
  time writes nothing; both computed the same value.
\<close>

definition ipc_ensure_id :: "dptr \<Rightarrow> ('p, 'u) sys \<Rightarrow> ('p, 'u) sys" where
  "ipc_ensure_id d s =
     (if d_id (descs s d) = 0 then
        (case d_name (descs s d) of
           None \<Rightarrow> s
         | Some n \<Rightarrow> s\<lparr> descs := (descs s)(d := (descs s d)\<lparr> d_id := ipc_fnv1a n \<rparr>) \<rparr>)
      else s)"

section \<open>Route and subscription tables\<close>

definition detect_id_collision :: "ipc_msg_desc_t \<Rightarrow> ('p, 'u) sys \<Rightarrow> int" where
  "detect_id_collision desc s =
     (if list_ex (\<lambda>r. r_msg_id r = d_id desc \<and> Some (r_msg_name r) \<noteq> d_name desc) (regs s)
      then - EEXIST
      else if list_ex (\<lambda>r. s_msg_id r = d_id desc \<and> Some (s_msg_name r) \<noteq> d_name desc) (subs s)
      then - EEXIST
      else 0)"

text \<open>A failed \<^verbatim>\<open>assert\<close> ends the program, unless the build defines \<^verbatim>\<open>NDEBUG\<close>.\<close>

definition failed_assert :: "ipc_config \<Rightarrow> 'a \<Rightarrow> 'a outcome" where
  "failed_assert c continue = (if build_ndebug c then Returns continue else Aborts)"

definition register_cmd_unlocked ::
    "aptr \<Rightarrow> dptr \<Rightarrow> ('p, 'u) sys \<Rightarrow> (int \<times> ('p, 'u) sys) outcome" where
  "register_cmd_unlocked actor d s0 =
     (if d_kind (descs s0 d) \<noteq> IPC_CMD \<and> \<not> build_ndebug (conf s0) then Aborts
      else
        (let s = ipc_ensure_id d s0; desc = descs s d; rc = detect_id_collision desc s
         in if rc \<noteq> 0 then Returns (rc, s)
            else if list_ex (\<lambda>r. r_msg_id r = d_id desc) (regs s) then
              failed_assert (conf s) (- EALREADY, s)
            else if reg_count s \<ge> IPC_CORE_MAX_REGISTRATIONS (conf s) then
              failed_assert (conf s) (- ENOMEM, s)
            else Returns (0, s\<lparr> reg_table := (reg_table s)[reg_count s :=
                                 \<lparr> r_msg_id = d_id desc, r_msg_name = the (d_name desc),
                                   r_actor = actor \<rparr>],
                               reg_count := reg_count s + 1 \<rparr>)))"

definition subscribe_event_unlocked ::
    "aptr \<Rightarrow> dptr \<Rightarrow> ('p, 'u) sys \<Rightarrow> (int \<times> ('p, 'u) sys) outcome" where
  "subscribe_event_unlocked actor d s0 =
     (if d_kind (descs s0 d) \<noteq> IPC_EVENT \<and> \<not> build_ndebug (conf s0) then Aborts
      else
        (let s = ipc_ensure_id d s0; desc = descs s d; rc = detect_id_collision desc s
         in if rc \<noteq> 0 then Returns (rc, s)
            else if list_ex (\<lambda>r. s_msg_id r = d_id desc \<and> s_actor r = actor) (subs s) then
              Returns (- EALREADY, s)
            else if sub_count s \<ge> IPC_CORE_MAX_SUBSCRIPTIONS (conf s) then Returns (- ENOMEM, s)
            else Returns (0, s\<lparr> sub_table := (sub_table s)[sub_count s :=
                                 \<lparr> s_msg_id = d_id desc, s_msg_name = the (d_name desc),
                                   s_actor = actor \<rparr>],
                               sub_count := sub_count s + 1 \<rparr>)))"

definition find_registered :: "u32 \<Rightarrow> ('p, 'u) sys \<Rightarrow> aptr option" where
  "find_registered msg_id s = map_option r_actor (find (\<lambda>r. r_msg_id r = msg_id) (regs s))"

section \<open>The actor list\<close>

definition registration_closed :: "('p, 'u) sys \<Rightarrow> bool outcome" where
  "registration_closed s =
     (if lifecycle_state s \<noteq> IPC_LIFECYCLE_STOPPED then failed_assert (conf s) True
      else Returns False)"

text \<open>The pointer \<^verbatim>\<open>pp\<close> of the walk points at the head variable or at an actor's \<^verbatim>\<open>_next\<close> field.\<close>

datatype link = Head_link | Next_link aptr

fun read_link :: "('p, 'u) sys \<Rightarrow> link \<Rightarrow> aptr option" where
  "read_link s Head_link = ipc_actor_list s"
| "read_link s (Next_link a) = a_next (actors s a)"

fun write_link :: "link \<Rightarrow> aptr option \<Rightarrow> ('p, 'u) sys \<Rightarrow> ('p, 'u) sys" where
  "write_link Head_link v s = s\<lparr> ipc_actor_list := v \<rparr>"
| "write_link (Next_link a) v s = s\<lparr> actors := (actors s)(a := (actors s a)\<lparr> a_next := v \<rparr>) \<rparr>"

text \<open>\<open>Some None\<close>: the actor is in the list; \<open>Some (Some pp)\<close>: \<open>pp\<close> is the link that ends it.\<close>

partial_function (option) find_last_link ::
    "('p, 'u) sys \<Rightarrow> aptr \<Rightarrow> link \<Rightarrow> link option option" where
  "find_last_link s actor pp =
     (case read_link s pp of
        None \<Rightarrow> Some (Some pp)
      | Some a \<Rightarrow> if a = actor then Some None else find_last_link s actor (Next_link a))"

definition ipc_actor_register_static ::
    "aptr \<Rightarrow> ('p, 'u) sys \<Rightarrow> ('p, 'u) sys outcome option" where
  "ipc_actor_register_static actor s =
     then_do (Some (registration_closed s)) (\<lambda>closed.
       if closed then Some (Returns s)
       else (case find_last_link s actor Head_link of
               None \<Rightarrow> None
             | Some None \<Rightarrow> Some (Returns s)
             | Some (Some pp) \<Rightarrow>
                 Some (Returns (write_link pp (Some actor)
                   (write_link (Next_link actor) None s)))))"

section \<open>Handlers and hooks\<close>

text \<open>
  The descriptor macros always set a name; a descriptor without one ends the program here, where
  the hash (or \<^verbatim>\<open>strcmp\<close>) would dereference \<^verbatim>\<open>NULL\<close>.
\<close>

definition add_handler_binding ::
    "aptr \<Rightarrow> dptr \<Rightarrow> fnptr \<Rightarrow> ('p, 'u) sys \<Rightarrow> ('p, 'u) sys outcome" where
  "add_handler_binding actor d handler s =
     (if handler_count s \<ge> IPC_CORE_MAX_REGISTRATIONS (conf s) + IPC_CORE_MAX_SUBSCRIPTIONS (conf s)
      then Aborts
      else Returns (s\<lparr> handler_table := (handler_table s)[handler_count s :=
                         \<lparr> b_actor = actor, b_msg_id = d_id (descs s d), b_handler = handler \<rparr>],
                       handler_count := handler_count s + 1 \<rparr>))"

definition ipc_actor_register_handler_static ::
    "aptr \<Rightarrow> dptr \<Rightarrow> fnptr \<Rightarrow> ('p, 'u) sys \<Rightarrow> ('p, 'u) sys outcome option" where
  "ipc_actor_register_handler_static actor d handler s =
     then_do (Some (registration_closed s)) (\<lambda>closed.
       if closed then Some (Returns s)
       else then_do (ipc_actor_register_static actor s) (\<lambda>s1.
         if d_name (descs s1 d) = None then Some Aborts
         else
           (let s2 = ipc_ensure_id d s1
            in then_do (Some (if d_kind (descs s2 d) = IPC_EVENT
                              then subscribe_event_unlocked actor d s2
                              else register_cmd_unlocked actor d s2))
                 (\<lambda>(rc, s3). Some (if rc \<noteq> 0 then Aborts
                                    else add_handler_binding actor d handler s3)))))"

definition register_actor_field ::
    "aptr \<Rightarrow> (ipc_actor \<Rightarrow> ipc_actor) \<Rightarrow> ('p, 'u) sys \<Rightarrow> ('p, 'u) sys outcome option" where
  "register_actor_field actor upd s =
     then_do (Some (registration_closed s)) (\<lambda>closed.
       if closed then Some (Returns s)
       else then_do (ipc_actor_register_static actor s) (\<lambda>s1.
         Some (Returns (s1\<lparr> actors := (actors s1)(actor := upd (actors s1 actor)) \<rparr>))))"

definition ipc_actor_register_start_hook_static ::
    "aptr \<Rightarrow> fnptr \<Rightarrow> ('p, 'u) sys \<Rightarrow> ('p, 'u) sys outcome option" where
  "ipc_actor_register_start_hook_static actor hook =
     register_actor_field actor (\<lambda>a. a\<lparr> a_start_hook := Some hook \<rparr>)"

definition ipc_actor_register_stop_hook_static ::
    "aptr \<Rightarrow> fnptr \<Rightarrow> ('p, 'u) sys \<Rightarrow> ('p, 'u) sys outcome option" where
  "ipc_actor_register_stop_hook_static actor hook =
     register_actor_field actor (\<lambda>a. a\<lparr> a_stop_hook := Some hook \<rparr>)"

definition ipc_actor_register_unknown_hook_static ::
    "aptr \<Rightarrow> fnptr \<Rightarrow> ('p, 'u) sys \<Rightarrow> ('p, 'u) sys outcome option" where
  "ipc_actor_register_unknown_hook_static actor hook =
     register_actor_field actor (\<lambda>a. a\<lparr> a_unknown_handler := Some hook \<rparr>)"

definition ipc_actor_register_supervision_static ::
    "aptr \<Rightarrow> ipc_supervision_strategy_t \<Rightarrow> ('p, 'u) sys \<Rightarrow> ('p, 'u) sys outcome option" where
  "ipc_actor_register_supervision_static actor strategy =
     register_actor_field actor (\<lambda>a. a\<lparr> a_supervision := strategy \<rparr>)"

definition ipc_actor_register_failure_hook_static ::
    "aptr \<Rightarrow> fnptr \<Rightarrow> ('p, 'u) sys \<Rightarrow> ('p, 'u) sys outcome option" where
  "ipc_actor_register_failure_hook_static actor hook =
     register_actor_field actor (\<lambda>a. a\<lparr> a_failure_hook := Some hook \<rparr>)"

section \<open>The actor list as a sequence\<close>

fun list_seg :: "(aptr \<Rightarrow> aptr option) \<Rightarrow> aptr option \<Rightarrow> aptr list \<Rightarrow> bool" where
  "list_seg nx p [] = (p = None)"
| "list_seg nx p (x # xs) = (p = Some x \<and> list_seg nx (nx x) xs)"

abbreviation next_of :: "('p, 'u) sys \<Rightarrow> aptr \<Rightarrow> aptr option" where
  "next_of s \<equiv> (\<lambda>a. a_next (actors s a))"

definition actor_list :: "('p, 'u) sys \<Rightarrow> aptr list \<Rightarrow> bool" where
  "actor_list s xs \<longleftrightarrow> list_seg (next_of s) (ipc_actor_list s) xs \<and> distinct xs"

lemma list_seg_unique: "list_seg nx p xs \<Longrightarrow> list_seg nx p ys \<Longrightarrow> xs = ys"
proof (induction xs arbitrary: p ys)
  case Nil
  then show ?case by (cases ys) auto
next
  case (Cons x xs)
  then show ?case by (cases ys) auto
qed

lemma actor_list_unique: "actor_list s xs \<Longrightarrow> actor_list s ys \<Longrightarrow> xs = ys"
  by (auto simp: actor_list_def dest: list_seg_unique)

lemma list_seg_cong:
  "(\<And>a. a \<in> set xs \<Longrightarrow> nx a = nx' a) \<Longrightarrow> list_seg nx p xs \<longleftrightarrow> list_seg nx' p xs"
  by (induction xs arbitrary: p) auto

lemma actor_list_cong:
  assumes "ipc_actor_list t = ipc_actor_list s" "\<And>a. a_next (actors t a) = a_next (actors s a)"
  shows "actor_list t xs \<longleftrightarrow> actor_list s xs"
  unfolding actor_list_def assms by simp

text \<open>The walk finds the actor or stops at the link that ends the list.\<close>

definition last_link :: "link \<Rightarrow> aptr list \<Rightarrow> link" where
  "last_link pp xs = (if xs = [] then pp else Next_link (last xs))"

lemma find_last_link_list_seg:
  assumes "list_seg (next_of s) (read_link s pp) xs"
  shows "find_last_link s actor pp
       = Some (if actor \<in> set xs then None else Some (last_link pp xs))"
  using assms
proof (induction xs arbitrary: pp)
  case Nil
  then show ?case
    by (subst find_last_link.simps) (simp add: last_link_def)
next
  case (Cons x xs)
  then have hd: "read_link s pp = Some x"
    and tl: "list_seg (next_of s) (read_link s (Next_link x)) xs" by auto
  show ?case
  proof (cases "x = actor")
    case True
    with hd show ?thesis by (subst find_last_link.simps) simp
  next
    case False
    with hd Cons.IH [OF tl] show ?thesis
      by (subst find_last_link.simps) (auto simp: last_link_def)
  qed
qed

lemma list_seg_snoc:
  assumes "list_seg nx p xs" "distinct xs" "a \<notin> set xs" "xs \<noteq> []"
  shows "list_seg ((nx(a := None))(last xs := Some a)) p (xs @ [a])"
  using assms
proof (induction xs arbitrary: p)
  case Nil
  then show ?case by simp
next
  case (Cons x xs)
  show ?case
  proof (cases xs)
    case Nil
    with Cons.prems show ?thesis by auto
  next
    case (Cons y ys)
    with Cons.prems Cons.IH [of "nx x"] show ?thesis by auto
  qed
qed

lemma next_of_write_link_Next:
  "next_of (write_link (Next_link b) v s) = (next_of s)(b := v)"
  by (simp add: fun_eq_iff)

lemma actor_list_append:
  assumes "actor_list s xs" "a \<notin> set xs"
  shows "actor_list (write_link (last_link Head_link xs) (Some a)
           (write_link (Next_link a) None s)) (xs @ [a])"
proof (cases "xs = []")
  case True
  then show ?thesis by (simp add: last_link_def actor_list_def)
next
  case False
  let ?s1 = "write_link (Next_link a) None s"
  have "next_of (write_link (Next_link (last xs)) (Some a) ?s1)
      = ((next_of s)(a := None))(last xs := Some a)"
    unfolding next_of_write_link_Next ..
  moreover have "list_seg (((next_of s)(a := None))(last xs := Some a)) (ipc_actor_list s) (xs @ [a])"
    using assms False by (intro list_seg_snoc) (auto simp: actor_list_def)
  ultimately show ?thesis
    using assms False by (simp add: last_link_def actor_list_def del: list_seg.simps fun_upd_apply)
qed

section \<open>Invariant of the tables\<close>

text \<open>
  The counts stay within the arrays; a command ID has one route and an actor one subscription per
  event ID; one ID never stands for two names; and the handler table holds exactly one binding for
  every route and every subscription.
\<close>

abbreviation route_key :: "ipc_registration_t \<Rightarrow> aptr \<times> u32" where
  "route_key r \<equiv> (r_actor r, r_msg_id r)"

abbreviation sub_key :: "ipc_subscription_t \<Rightarrow> aptr \<times> u32" where
  "sub_key r \<equiv> (s_actor r, s_msg_id r)"

abbreviation binding_key :: "ipc_handler_binding_t \<Rightarrow> aptr \<times> u32" where
  "binding_key b \<equiv> (b_actor b, b_msg_id b)"

definition named_ids :: "('p, 'u) sys \<Rightarrow> (u32 \<times> string) list" where
  "named_ids s = map (\<lambda>r. (r_msg_id r, r_msg_name r)) (regs s)
               @ map (\<lambda>r. (s_msg_id r, s_msg_name r)) (subs s)"

definition tables_inv :: "('p, 'u) sys \<Rightarrow> bool" where
  "tables_inv s \<longleftrightarrow>
     length (reg_table s) = IPC_CORE_MAX_REGISTRATIONS (conf s)
     \<and> length (sub_table s) = IPC_CORE_MAX_SUBSCRIPTIONS (conf s)
     \<and> length (handler_table s)
         = IPC_CORE_MAX_REGISTRATIONS (conf s) + IPC_CORE_MAX_SUBSCRIPTIONS (conf s)
     \<and> reg_count s \<le> IPC_CORE_MAX_REGISTRATIONS (conf s)
     \<and> sub_count s \<le> IPC_CORE_MAX_SUBSCRIPTIONS (conf s)
     \<and> handler_count s = reg_count s + sub_count s
     \<and> distinct (map r_msg_id (regs s)) \<and> distinct (map sub_key (subs s))
     \<and> mset (map binding_key (bindings s))
         = mset (map route_key (regs s)) + mset (map sub_key (subs s))
     \<and> (\<forall>i n m. (i, n) \<in> set (named_ids s) \<and> (i, m) \<in> set (named_ids s) \<longrightarrow> n = m)"

definition registration_inv :: "('p, 'u) sys \<Rightarrow> aptr list \<Rightarrow> bool" where
  "registration_inv s xs \<longleftrightarrow>
     actor_list s xs \<and> tables_inv s
     \<and> r_actor ` set (regs s) \<subseteq> set xs \<and> s_actor ` set (subs s) \<subseteq> set xs"

lemma tables_inv_bindings:
  "tables_inv s \<Longrightarrow> mset (map binding_key (bindings s))
     = mset (map route_key (regs s)) + mset (map sub_key (subs s))"
  unfolding tables_inv_def by blast

lemma tables_inv_unique_route:
  "tables_inv s \<Longrightarrow> distinct (map r_msg_id (regs s)) \<and> distinct (map sub_key (subs s))"
  unfolding tables_inv_def by blast

text \<open>Only the actor links, descriptors and lifecycle differ: the tables are the same.\<close>

definition same_tables :: "('p, 'u) sys \<Rightarrow> ('q, 'v) sys \<Rightarrow> bool" where
  "same_tables s t \<longleftrightarrow>
     conf t = conf s \<and> reg_table t = reg_table s \<and> reg_count t = reg_count s
     \<and> sub_table t = sub_table s \<and> sub_count t = sub_count s
     \<and> handler_table t = handler_table s \<and> handler_count t = handler_count s"

lemma tables_inv_cong: "same_tables s t \<Longrightarrow> tables_inv t \<longleftrightarrow> tables_inv s"
  by (simp add: same_tables_def tables_inv_def named_ids_def)

lemma registration_inv_initial:
  "registration_inv (ipc_initial c as ds p u) []"
  by (simp add: registration_inv_def actor_list_def tables_inv_def named_ids_def ipc_initial_def)

subsection \<open>Lazy IDs\<close>

definition eventual_id :: "ipc_msg_desc_t \<Rightarrow> u32" where
  "eventual_id desc =
     (if d_id desc = 0 then (case d_name desc of None \<Rightarrow> 0 | Some n \<Rightarrow> ipc_fnv1a n) else d_id desc)"

lemma ensure_id_frame [frame_simps]:
  "conf (ipc_ensure_id d s) = conf s" "actors (ipc_ensure_id d s) = actors s"
  "ipc_actor_list (ipc_ensure_id d s) = ipc_actor_list s"
  "reg_table (ipc_ensure_id d s) = reg_table s" "reg_count (ipc_ensure_id d s) = reg_count s"
  "sub_table (ipc_ensure_id d s) = sub_table s" "sub_count (ipc_ensure_id d s) = sub_count s"
  "handler_table (ipc_ensure_id d s) = handler_table s"
  "handler_count (ipc_ensure_id d s) = handler_count s"
  "lifecycle_state (ipc_ensure_id d s) = lifecycle_state s"
  "next_ask_id (ipc_ensure_id d s) = next_ask_id s" "ask_table (ipc_ensure_id d s) = ask_table s"
  "port_st (ipc_ensure_id d s) = port_st s" "app_st (ipc_ensure_id d s) = app_st s"
  by (simp_all add: ipc_ensure_id_def split: option.splits)

lemma ensure_id_desc:
  "d_id (descs (ipc_ensure_id d s) d) = eventual_id (descs s d)"
  "d_kind (descs (ipc_ensure_id d s) e) = d_kind (descs s e)"
  "d_size (descs (ipc_ensure_id d s) e) = d_size (descs s e)"
  "d_name (descs (ipc_ensure_id d s) e) = d_name (descs s e)"
  "e \<noteq> d \<Longrightarrow> descs (ipc_ensure_id d s) e = descs s e"
  by (simp_all add: ipc_ensure_id_def eventual_id_def split: option.splits)

lemma ensure_id_idem: "ipc_ensure_id d (ipc_ensure_id d s) = ipc_ensure_id d s"
  by (auto simp: ipc_ensure_id_def split: option.splits)

lemma eventual_id_ensured: "eventual_id (descs (ipc_ensure_id d s) d) = eventual_id (descs s d)"
  by (metis ensure_id_desc(1) ensure_id_idem)

lemma named_ids_iff:
  "(i, m) \<in> set (named_ids s) \<longleftrightarrow>
     (\<exists>r \<in> set (regs s). r_msg_id r = i \<and> r_msg_name r = m)
     \<or> (\<exists>r \<in> set (subs s). s_msg_id r = i \<and> s_msg_name r = m)"
  by (auto simp: named_ids_def image_iff)

lemma detect_id_collision_iff:
  assumes "d_name desc = Some n"
  shows "detect_id_collision desc s = 0 \<longleftrightarrow> (\<forall>m. (d_id desc, m) \<in> set (named_ids s) \<longrightarrow> m = n)"
  using assms by (simp add: detect_id_collision_def named_ids_iff list_ex_iff) blast

subsection \<open>Registering an actor\<close>

definition append_new :: "'a \<Rightarrow> 'a list \<Rightarrow> 'a list" where
  "append_new a xs = (if a \<in> set xs then xs else xs @ [a])"

text \<open>\<open>links_only s t\<close>: of the whole state, at most the list head and the \<open>a_next\<close> fields differ.\<close>

definition links_only :: "('p, 'u) sys \<Rightarrow> ('p, 'u) sys \<Rightarrow> bool" where
  "links_only s t \<longleftrightarrow>
     (\<exists>p as. t = s\<lparr> ipc_actor_list := p, actors := as \<rparr>
        \<and> (\<forall>b. (as b)\<lparr> a_next := None \<rparr> = (actors s b)\<lparr> a_next := None \<rparr>))"

lemma links_only_refl: "links_only s s"
  unfolding links_only_def by (rule exI [of _ "ipc_actor_list s"], rule exI [of _ "actors s"]) simp

lemma links_only_write_link: "links_only s (write_link l v s)"
proof (cases l)
  case Head_link
  then show ?thesis
    unfolding links_only_def by (intro exI [of _ v] exI [of _ "actors s"]) simp
next
  case (Next_link a)
  then show ?thesis
    unfolding links_only_def
    by (intro exI [of _ "ipc_actor_list s"] exI [of _ "(actors s)(a := (actors s a)\<lparr> a_next := v \<rparr>)"])
       simp
qed

lemma links_only_trans: "links_only s t \<Longrightarrow> links_only t u \<Longrightarrow> links_only s u"
  unfolding links_only_def by fastforce

lemma links_only_fields:
  assumes "links_only s t"
  shows "descs t = descs s" "lifecycle_state t = lifecycle_state s" "same_tables s t"
    "conf t = conf s" "next_ask_id t = next_ask_id s" "ask_table t = ask_table s"
    "port_st t = port_st s" "app_st t = app_st s"
  using assms by (auto simp: links_only_def same_tables_def)

lemma register_static_cases:
  assumes "actor_list s xs" "lifecycle_state s = IPC_LIFECYCLE_STOPPED"
  obtains t where "ipc_actor_register_static a s = Some (Returns t)"
    "actor_list t (append_new a xs)" "links_only s t" "a \<in> set xs \<Longrightarrow> t = s"
proof (cases "a \<in> set xs")
  case True
  with assms have "ipc_actor_register_static a s = Some (Returns s)"
    by (simp add: ipc_actor_register_static_def registration_closed_def actor_list_def
        find_last_link_list_seg [of s Head_link xs])
  with assms True show ?thesis
    by (intro that) (simp_all add: append_new_def links_only_refl)
next
  case False
  let ?t = "write_link (last_link Head_link xs) (Some a) (write_link (Next_link a) None s)"
  have "ipc_actor_register_static a s = Some (Returns ?t)"
    using assms False
    by (simp add: ipc_actor_register_static_def registration_closed_def actor_list_def
        find_last_link_list_seg [of s Head_link xs])
  moreover have "links_only s ?t"
    by (rule links_only_trans [OF links_only_write_link links_only_write_link])
  ultimately show ?thesis
    using assms False actor_list_append [OF assms(1) False]
    by (intro that) (simp_all add: append_new_def)
qed

subsection \<open>Registering a handler\<close>

definition handler_accepted :: "aptr \<Rightarrow> dptr \<Rightarrow> ('p, 'u) sys \<Rightarrow> bool" where
  "handler_accepted a d s =
     (let desc = descs s d; i = eventual_id desc in
        list_all (\<lambda>(j, m). j = i \<longrightarrow> Some m = d_name desc) (named_ids s)
        \<and> (if d_kind desc = IPC_EVENT
            then (a, i) \<notin> set (map sub_key (subs s))
                 \<and> sub_count s < IPC_CORE_MAX_SUBSCRIPTIONS (conf s)
            else (d_kind desc = IPC_CMD \<or> build_ndebug (conf s))
                 \<and> i \<notin> set (map r_msg_id (regs s))
                 \<and> reg_count s < IPC_CORE_MAX_REGISTRATIONS (conf s)))"

text \<open>What an accepted registration adds.\<close>

definition add_route :: "aptr \<Rightarrow> u32 \<Rightarrow> string \<Rightarrow> fnptr \<Rightarrow> ('p, 'u) sys \<Rightarrow> ('p, 'u) sys" where
  "add_route a i n h s =
     s\<lparr> reg_table := (reg_table s)[reg_count s :=
            \<lparr> r_msg_id = i, r_msg_name = n, r_actor = a \<rparr>],
        reg_count := reg_count s + 1,
        handler_table := (handler_table s)[handler_count s :=
            \<lparr> b_actor = a, b_msg_id = i, b_handler = h \<rparr>],
        handler_count := handler_count s + 1 \<rparr>"

definition add_subscription :: "aptr \<Rightarrow> u32 \<Rightarrow> string \<Rightarrow> fnptr \<Rightarrow> ('p, 'u) sys \<Rightarrow> ('p, 'u) sys" where
  "add_subscription a i n h s =
     s\<lparr> sub_table := (sub_table s)[sub_count s :=
            \<lparr> s_msg_id = i, s_msg_name = n, s_actor = a \<rparr>],
        sub_count := sub_count s + 1,
        handler_table := (handler_table s)[handler_count s :=
            \<lparr> b_actor = a, b_msg_id = i, b_handler = h \<rparr>],
        handler_count := handler_count s + 1 \<rparr>"

lemma add_route_tables:
  assumes "tables_inv s" "reg_count s < IPC_CORE_MAX_REGISTRATIONS (conf s)"
  shows "regs (add_route a i n h s) = regs s @ [\<lparr> r_msg_id = i, r_msg_name = n, r_actor = a \<rparr>]"
    "subs (add_route a i n h s) = subs s"
    "bindings (add_route a i n h s)
       = bindings s @ [\<lparr> b_actor = a, b_msg_id = i, b_handler = h \<rparr>]"
  using assms by (simp_all add: add_route_def tables_inv_def take_list_update_Suc)

lemma add_subscription_tables:
  assumes "tables_inv s" "sub_count s < IPC_CORE_MAX_SUBSCRIPTIONS (conf s)"
  shows "subs (add_subscription a i n h s)
       = subs s @ [\<lparr> s_msg_id = i, s_msg_name = n, s_actor = a \<rparr>]"
    "regs (add_subscription a i n h s) = regs s"
    "bindings (add_subscription a i n h s)
       = bindings s @ [\<lparr> b_actor = a, b_msg_id = i, b_handler = h \<rparr>]"
  using assms by (simp_all add: add_subscription_def tables_inv_def take_list_update_Suc)

lemma tables_inv_add_route:
  assumes inv: "tables_inv s" and room: "reg_count s < IPC_CORE_MAX_REGISTRATIONS (conf s)"
    and new: "i \<notin> set (map r_msg_id (regs s))"
    and name: "\<And>m. (i, m) \<in> set (named_ids s) \<Longrightarrow> m = n"
  shows "tables_inv (add_route a i n h s)"
proof -
  note t = add_route_tables [OF inv room, of a i n h]
  have "set (named_ids (add_route a i n h s)) = insert (i, n) (set (named_ids s))"
    unfolding named_ids_def t by auto
  moreover have "distinct (map r_msg_id (regs (add_route a i n h s)))"
    using tables_inv_unique_route [OF inv] new unfolding t by simp
  moreover have "mset (map binding_key (bindings (add_route a i n h s)))
      = mset (map route_key (regs (add_route a i n h s)))
        + mset (map sub_key (subs (add_route a i n h s)))"
    using tables_inv_bindings [OF inv] unfolding t by simp
  moreover have "distinct (map sub_key (subs (add_route a i n h s)))"
    using tables_inv_unique_route [OF inv] unfolding t by simp
  ultimately show ?thesis
    using inv room name unfolding tables_inv_def
    by (simp add: add_route_def del: map_append) blast
qed

lemma tables_inv_add_subscription:
  assumes inv: "tables_inv s" and room: "sub_count s < IPC_CORE_MAX_SUBSCRIPTIONS (conf s)"
    and new: "(a, i) \<notin> set (map sub_key (subs s))"
    and name: "\<And>m. (i, m) \<in> set (named_ids s) \<Longrightarrow> m = n"
  shows "tables_inv (add_subscription a i n h s)"
proof -
  note t = add_subscription_tables [OF inv room, of a i n h]
  have "set (named_ids (add_subscription a i n h s)) = insert (i, n) (set (named_ids s))"
    unfolding named_ids_def t by auto
  moreover have "distinct (map r_msg_id (regs (add_subscription a i n h s)))"
    using tables_inv_unique_route [OF inv] unfolding t by simp
  moreover have "mset (map binding_key (bindings (add_subscription a i n h s)))
      = mset (map route_key (regs (add_subscription a i n h s)))
        + mset (map sub_key (subs (add_subscription a i n h s)))"
    using tables_inv_bindings [OF inv] unfolding t by simp
  moreover have "distinct (map sub_key (subs (add_subscription a i n h s)))"
    using tables_inv_unique_route [OF inv] new unfolding t by simp
  ultimately show ?thesis
    using inv room name unfolding tables_inv_def
    by (simp add: add_subscription_def del: map_append) blast
qed

lemma add_handler_binding_ok:
  "handler_count s < IPC_CORE_MAX_REGISTRATIONS (conf s) + IPC_CORE_MAX_SUBSCRIPTIONS (conf s) \<Longrightarrow>
   add_handler_binding a d h s
     = Returns (s\<lparr> handler_table := (handler_table s)[handler_count s :=
                     \<lparr> b_actor = a, b_msg_id = d_id (descs s d), b_handler = h \<rparr>],
                   handler_count := handler_count s + 1 \<rparr>)"
  by (simp add: add_handler_binding_def)

text \<open>The handler table has room whenever the route or subscription table had.\<close>

lemma register_cmd_step:
  assumes "tables_inv s" "d_name (descs s d) = Some n" "d_kind (descs s d) \<noteq> IPC_EVENT"
    and "ipc_ensure_id d s = s"
  shows "then_do (Some (register_cmd_unlocked a d s))
           (\<lambda>(rc, s3). Some (if rc \<noteq> 0 then Aborts else add_handler_binding a d h s3))
       = Some (if handler_accepted a d s
               then Returns (add_route a (d_id (descs s d)) n h s) else Aborts)"
proof -
  have id: "eventual_id (descs s d) = d_id (descs s d)"
    using ensure_id_desc(1) [of d s] assms(4) by simp
  have coll: "detect_id_collision (descs s d) s = 0
      \<longleftrightarrow> list_all (\<lambda>(j, m). j = d_id (descs s d) \<longrightarrow> Some m = d_name (descs s d)) (named_ids s)"
    using detect_id_collision_iff [OF assms(2)] assms(2) by (auto simp: list_all_iff)
  have acc: "handler_accepted a d s \<longleftrightarrow> detect_id_collision (descs s d) s = 0
      \<and> (d_kind (descs s d) = IPC_CMD \<or> build_ndebug (conf s))
      \<and> \<not> list_ex (\<lambda>r. r_msg_id r = d_id (descs s d)) (regs s)
      \<and> \<not> reg_count s \<ge> IPC_CORE_MAX_REGISTRATIONS (conf s)"
    using assms(3) unfolding handler_accepted_def Let_def id coll
    by (auto simp: list_ex_iff image_iff)
  show ?thesis
  proof (cases "handler_accepted a d s")
    case True
    with acc have *: "detect_id_collision (descs s d) s = 0"
      "d_kind (descs s d) = IPC_CMD \<or> build_ndebug (conf s)"
      "\<not> list_ex (\<lambda>r. r_msg_id r = d_id (descs s d)) (regs s)"
      "\<not> reg_count s \<ge> IPC_CORE_MAX_REGISTRATIONS (conf s)" by blast+
    moreover have "handler_count s
        < IPC_CORE_MAX_REGISTRATIONS (conf s) + IPC_CORE_MAX_SUBSCRIPTIONS (conf s)"
      using assms(1) *(4) by (simp add: tables_inv_def)
    ultimately show ?thesis
      using True assms(2,4)
      by (auto simp: register_cmd_unlocked_def add_handler_binding_ok add_route_def)
  next
    case False
    with acc show ?thesis
      using assms(4) by (auto simp: register_cmd_unlocked_def failed_assert_def Let_def)
  qed
qed

lemma subscribe_event_step:
  assumes "tables_inv s" "d_name (descs s d) = Some n" "d_kind (descs s d) = IPC_EVENT"
    and "ipc_ensure_id d s = s"
  shows "then_do (Some (subscribe_event_unlocked a d s))
           (\<lambda>(rc, s3). Some (if rc \<noteq> 0 then Aborts else add_handler_binding a d h s3))
       = Some (if handler_accepted a d s
               then Returns (add_subscription a (d_id (descs s d)) n h s) else Aborts)"
proof -
  have id: "eventual_id (descs s d) = d_id (descs s d)"
    using ensure_id_desc(1) [of d s] assms(4) by simp
  have coll: "detect_id_collision (descs s d) s = 0
      \<longleftrightarrow> list_all (\<lambda>(j, m). j = d_id (descs s d) \<longrightarrow> Some m = d_name (descs s d)) (named_ids s)"
    using detect_id_collision_iff [OF assms(2)] assms(2) by (auto simp: list_all_iff)
  have acc: "handler_accepted a d s \<longleftrightarrow> detect_id_collision (descs s d) s = 0
      \<and> \<not> list_ex (\<lambda>r. s_msg_id r = d_id (descs s d) \<and> s_actor r = a) (subs s)
      \<and> \<not> sub_count s \<ge> IPC_CORE_MAX_SUBSCRIPTIONS (conf s)"
    using assms(3) unfolding handler_accepted_def Let_def id coll
    by (auto simp: list_ex_iff image_iff)
  show ?thesis
  proof (cases "handler_accepted a d s")
    case True
    with acc have *: "detect_id_collision (descs s d) s = 0"
      "\<not> list_ex (\<lambda>r. s_msg_id r = d_id (descs s d) \<and> s_actor r = a) (subs s)"
      "\<not> sub_count s \<ge> IPC_CORE_MAX_SUBSCRIPTIONS (conf s)" by blast+
    moreover have "handler_count s
        < IPC_CORE_MAX_REGISTRATIONS (conf s) + IPC_CORE_MAX_SUBSCRIPTIONS (conf s)"
      using assms(1) *(3) by (simp add: tables_inv_def)
    ultimately show ?thesis
      using True assms(2,3,4)
      by (auto simp: subscribe_event_unlocked_def add_handler_binding_ok add_subscription_def)
  next
    case False
    with acc show ?thesis
      using assms(3,4) by (auto simp: subscribe_event_unlocked_def Let_def)
  qed
qed

text \<open>
  The whole call, from a stopped framework with well-formed tables: it returns exactly when
  \<open>handler_accepted\<close>, with one entry added, and otherwise ends the program; it never walks for
  ever, and the check that the handler table is full never fires.
\<close>

definition registered_with :: "aptr \<Rightarrow> dptr \<Rightarrow> fnptr \<Rightarrow> ('p, 'u) sys \<Rightarrow> ('p, 'u) sys" where
  "registered_with a d h s =
     (let s2 = ipc_ensure_id d s; i = d_id (descs s2 d); n = the (d_name (descs s2 d))
      in if d_kind (descs s2 d) = IPC_EVENT then add_subscription a i n h s2
         else add_route a i n h s2)"

lemma handler_accepted_cong:
  assumes "same_tables s t" "descs t = descs s"
  shows "handler_accepted a d t \<longleftrightarrow> handler_accepted a d s"
  using assms by (simp add: handler_accepted_def same_tables_def named_ids_def Let_def)

lemma handler_accepted_ensure_id:
  "handler_accepted a d (ipc_ensure_id d s) \<longleftrightarrow> handler_accepted a d s"
  by (simp add: handler_accepted_def eventual_id_ensured ensure_id_desc ensure_id_frame
      named_ids_def Let_def)

lemma same_tables_ensure_id: "same_tables s t \<Longrightarrow> same_tables s (ipc_ensure_id d t)"
  by (simp add: same_tables_def ensure_id_frame)

lemma register_handler_static_eq:
  assumes "actor_list s xs" "lifecycle_state s = IPC_LIFECYCLE_STOPPED" "tables_inv s"
    and "d_name (descs s d) = Some n"
    and reg: "ipc_actor_register_static a s = Some (Returns t)" "links_only s t"
  shows "ipc_actor_register_handler_static a d h s
       = Some (if handler_accepted a d s then Returns (registered_with a d h t) else Aborts)"
proof -
  let ?s2 = "ipc_ensure_id d t"
  note f = links_only_fields [OF reg(2)]
  have inv: "tables_inv ?s2"
    using assms(3) tables_inv_cong [OF same_tables_ensure_id [OF f(3)]] by blast
  have n: "d_name (descs ?s2 d) = Some n"
    using assms(4) by (simp add: ensure_id_desc f)
  have acc: "handler_accepted a d ?s2 \<longleftrightarrow> handler_accepted a d s"
    using handler_accepted_cong [OF f(3) f(1)] by (simp add: handler_accepted_ensure_id)
  have "ipc_actor_register_handler_static a d h s
      = then_do (Some (if d_kind (descs ?s2 d) = IPC_EVENT then subscribe_event_unlocked a d ?s2
                       else register_cmd_unlocked a d ?s2))
          (\<lambda>(rc, s3). Some (if rc \<noteq> 0 then Aborts else add_handler_binding a d h s3))"
    using assms(2,4) reg(1)
    by (simp add: ipc_actor_register_handler_static_def registration_closed_def f Let_def)
  also have "\<dots> = Some (if handler_accepted a d s
                       then Returns (registered_with a d h t) else Aborts)"
    using register_cmd_step [OF inv n _ ensure_id_idem, of a h]
      subscribe_event_step [OF inv n _ ensure_id_idem, of a h] n
    by (simp add: acc registered_with_def Let_def)
  finally show ?thesis .
qed

lemma registered_with_inv:
  assumes "registration_inv s xs" "handler_accepted a d s" "d_name (descs s d) = Some n"
    and "actor_list t (append_new a xs)" "links_only s t"
  shows "registration_inv (registered_with a d h t) (append_new a xs)"
proof -
  let ?s2 = "ipc_ensure_id d t"
  note f = links_only_fields [OF assms(5)]
  have inv: "tables_inv ?s2"
    using assms(1) tables_inv_cong [OF same_tables_ensure_id [OF f(3)]]
    unfolding registration_inv_def by blast
  have acc: "handler_accepted a d ?s2"
    using assms(2) handler_accepted_cong [OF f(3) f(1)] by (simp add: handler_accepted_ensure_id)
  have n: "d_name (descs ?s2 d) = Some n"
    using assms(3) by (simp add: ensure_id_desc f)
  have id: "eventual_id (descs ?s2 d) = d_id (descs ?s2 d)"
    by (simp add: ensure_id_desc eventual_id_ensured)
  have name: "\<And>m. (d_id (descs ?s2 d), m) \<in> set (named_ids ?s2) \<Longrightarrow> m = n"
    using acc n unfolding handler_accepted_def Let_def id by (auto simp: list_all_iff)
  have same: "regs ?s2 = regs s" "subs ?s2 = subs s"
    using f(3) by (simp_all add: same_tables_def ensure_id_frame)
  have mem: "r_actor ` set (regs s) \<subseteq> set (append_new a xs)"
    "s_actor ` set (subs s) \<subseteq> set (append_new a xs)" "a \<in> set (append_new a xs)"
    using assms(1) by (auto simp: registration_inv_def append_new_def)
  have list: "actor_list ?s2 (append_new a xs)"
    using assms(4) by (simp add: actor_list_def ensure_id_frame)
  show ?thesis
  proof (cases "d_kind (descs ?s2 d) = IPC_EVENT")
    case True
    with acc have new: "(a, d_id (descs ?s2 d)) \<notin> set (map sub_key (subs ?s2))"
      and room: "sub_count ?s2 < IPC_CORE_MAX_SUBSCRIPTIONS (conf ?s2)"
      unfolding handler_accepted_def Let_def id by auto
    have t: "registered_with a d h t = add_subscription a (d_id (descs ?s2 d)) n h ?s2"
      using True n by (simp add: registered_with_def Let_def)
    have "actor_list (registered_with a d h t) (append_new a xs)"
      unfolding t using list by (simp add: actor_list_def add_subscription_def)
    then show ?thesis
      using tables_inv_add_subscription [OF inv room new name, of h] mem
      unfolding registration_inv_def t add_subscription_tables [OF inv room] same by auto
  next
    case False
    with acc have new: "d_id (descs ?s2 d) \<notin> set (map r_msg_id (regs ?s2))"
      and room: "reg_count ?s2 < IPC_CORE_MAX_REGISTRATIONS (conf ?s2)"
      unfolding handler_accepted_def Let_def id by auto
    have t: "registered_with a d h t = add_route a (d_id (descs ?s2 d)) n h ?s2"
      using False n by (simp add: registered_with_def Let_def)
    have "actor_list (registered_with a d h t) (append_new a xs)"
      unfolding t using list by (simp add: actor_list_def add_route_def)
    then show ?thesis
      using tables_inv_add_route [OF inv room new name, of a h] mem
      unfolding registration_inv_def t add_route_tables [OF inv room] same by auto
  qed
qed

lemma registration_inv_same_tables:
  assumes "registration_inv s xs" "same_tables s t" "actor_list t ys" "set xs \<subseteq> set ys"
  shows "registration_inv t ys"
proof -
  have "tables_inv t" using assms(1) tables_inv_cong [OF assms(2)] by (simp add: registration_inv_def)
  moreover have "regs t = regs s" "subs t = subs s" using assms(2) by (simp_all add: same_tables_def)
  ultimately show ?thesis
    using assms(1,3) subset_trans [OF _ assms(4)] by (simp add: registration_inv_def)
qed

lemma set_append_new: "set (append_new a xs) = insert a (set xs)"
  by (auto simp: append_new_def)

subsection \<open>Registering hooks\<close>

lemma register_actor_field_eq:
  assumes "actor_list s xs" "lifecycle_state s = IPC_LIFECYCLE_STOPPED"
    and "\<And>x. a_next (upd x) = a_next x"
  obtains t where "register_actor_field a upd s
      = Some (Returns (t\<lparr> actors := (actors t)(a := upd (actors t a)) \<rparr>))"
    "links_only s t"
    "actor_list (t\<lparr> actors := (actors t)(a := upd (actors t a)) \<rparr>) (append_new a xs)"
proof -
  obtain t where t: "ipc_actor_register_static a s = Some (Returns t)"
    "actor_list t (append_new a xs)" "links_only s t"
    using register_static_cases [OF assms(1,2)] by blast
  have "actor_list (t\<lparr> actors := (actors t)(a := upd (actors t a)) \<rparr>) (append_new a xs)"
    using t(2) by (subst actor_list_cong [of _ t]) (simp_all add: assms(3))
  with t assms(2) show ?thesis
    by (intro that) (simp_all add: register_actor_field_def registration_closed_def)
qed

lemma register_actor_field_inv:
  assumes "registration_inv s xs" "lifecycle_state s = IPC_LIFECYCLE_STOPPED"
    and "\<And>x. a_next (upd x) = a_next x"
  obtains t where "register_actor_field a upd s = Some (Returns t)"
    "registration_inv t (append_new a xs)" "lifecycle_state t = IPC_LIFECYCLE_STOPPED"
proof -
  have "actor_list s xs" using assms(1) by (simp add: registration_inv_def)
  from register_actor_field_eq [OF this assms(2), of upd a] assms(3)
  obtain t where t: "register_actor_field a upd s
      = Some (Returns (t\<lparr> actors := (actors t)(a := upd (actors t a)) \<rparr>))"
    "links_only s t"
    "actor_list (t\<lparr> actors := (actors t)(a := upd (actors t a)) \<rparr>) (append_new a xs)"
    by blast
  let ?t = "t\<lparr> actors := (actors t)(a := upd (actors t a)) \<rparr>"
  note f = links_only_fields [OF t(2)]
  have st: "same_tables s ?t" using f(3) by (simp add: same_tables_def)
  have "registration_inv ?t (append_new a xs)"
    by (rule registration_inv_same_tables [OF assms(1) st t(3)]) (auto simp: set_append_new)
  moreover have "lifecycle_state ?t = IPC_LIFECYCLE_STOPPED" using f(2) assms(2) by simp
  ultimately show ?thesis using that [OF t(1)] by blast
qed

lemmas register_hook_defs =
  ipc_actor_register_start_hook_static_def ipc_actor_register_stop_hook_static_def
  ipc_actor_register_unknown_hook_static_def ipc_actor_register_supervision_static_def
  ipc_actor_register_failure_hook_static_def

section \<open>Program startup\<close>

text \<open>
  The constructors the macros generate run one after the other before \<^verbatim>\<open>main\<close>, in an order the
  linker chooses; \<open>startup s t\<close>: some sequence of registrations that all return leads from \<open>s\<close> to
  \<open>t\<close>.
\<close>

inductive startup :: "('p, 'u) sys \<Rightarrow> ('p, 'u) sys \<Rightarrow> bool" where
  startup_done: "startup s s"
| startup_actor: "startup s t \<Longrightarrow> ipc_actor_register_static a t = Some (Returns u) \<Longrightarrow> startup s u"
| startup_handler: "startup s t \<Longrightarrow> d_name (descs t d) = Some n \<Longrightarrow>
    ipc_actor_register_handler_static a d h t = Some (Returns u) \<Longrightarrow> startup s u"
| startup_start_hook: "startup s t \<Longrightarrow>
    ipc_actor_register_start_hook_static a h t = Some (Returns u) \<Longrightarrow> startup s u"
| startup_stop_hook: "startup s t \<Longrightarrow>
    ipc_actor_register_stop_hook_static a h t = Some (Returns u) \<Longrightarrow> startup s u"
| startup_unknown_hook: "startup s t \<Longrightarrow>
    ipc_actor_register_unknown_hook_static a h t = Some (Returns u) \<Longrightarrow> startup s u"
| startup_supervision: "startup s t \<Longrightarrow>
    ipc_actor_register_supervision_static a g t = Some (Returns u) \<Longrightarrow> startup s u"
| startup_failure_hook: "startup s t \<Longrightarrow>
    ipc_actor_register_failure_hook_static a h t = Some (Returns u) \<Longrightarrow> startup s u"

definition startup_inv :: "('p, 'u) sys \<Rightarrow> bool" where
  "startup_inv s \<longleftrightarrow>
     lifecycle_state s = IPC_LIFECYCLE_STOPPED \<and> (\<exists>xs. registration_inv s xs)"

lemma startup_inv_register_static:
  assumes "startup_inv s" "ipc_actor_register_static a s = Some (Returns t)"
  shows "startup_inv t"
proof -
  obtain xs where inv: "registration_inv s xs" and st: "lifecycle_state s = IPC_LIFECYCLE_STOPPED"
    using assms(1) by (auto simp: startup_inv_def)
  from inv have "actor_list s xs" by (simp add: registration_inv_def)
  from register_static_cases [OF this st, of a] assms(2)
  have t: "actor_list t (append_new a xs)" "links_only s t" by auto
  note f = links_only_fields [OF t(2)]
  have "registration_inv t (append_new a xs)"
    by (rule registration_inv_same_tables [OF inv f(3) t(1)]) (auto simp: set_append_new)
  with f(2) st show ?thesis by (auto simp: startup_inv_def)
qed

lemma startup_inv_register_handler:
  assumes "startup_inv s" "d_name (descs s d) = Some n"
    and "ipc_actor_register_handler_static a d h s = Some (Returns u)"
  shows "startup_inv u"
proof -
  obtain xs where inv: "registration_inv s xs" and st: "lifecycle_state s = IPC_LIFECYCLE_STOPPED"
    using assms(1) by (auto simp: startup_inv_def)
  then have al: "actor_list s xs" and ti: "tables_inv s" by (simp_all add: registration_inv_def)
  obtain t where t: "ipc_actor_register_static a s = Some (Returns t)"
    "actor_list t (append_new a xs)" "links_only s t"
    using register_static_cases [OF al st] by blast
  note eq = register_handler_static_eq [OF al st ti assms(2) t(1,3), of h]
  with assms(3) have acc: "handler_accepted a d s" and u: "u = registered_with a d h t"
    by (auto split: if_splits)
  have "registration_inv u (append_new a xs)"
    unfolding u by (rule registered_with_inv [OF inv acc assms(2) t(2,3)])
  moreover have "lifecycle_state u = IPC_LIFECYCLE_STOPPED"
    using st links_only_fields(2) [OF t(3)] unfolding u registered_with_def Let_def
    by (simp add: add_route_def add_subscription_def ensure_id_frame)
  ultimately show ?thesis by (auto simp: startup_inv_def)
qed

lemma startup_inv_register_field:
  assumes "startup_inv s" "register_actor_field a upd s = Some (Returns u)"
    and "\<And>x. a_next (upd x) = a_next x"
  shows "startup_inv u"
proof -
  obtain xs where inv: "registration_inv s xs" and st: "lifecycle_state s = IPC_LIFECYCLE_STOPPED"
    using assms(1) by (auto simp: startup_inv_def)
  from register_actor_field_inv [OF this, of upd a] assms(3)
  obtain t where "register_actor_field a upd s = Some (Returns t)"
    "registration_inv t (append_new a xs)" "lifecycle_state t = IPC_LIFECYCLE_STOPPED" by blast
  with assms(2) show ?thesis by (auto simp: startup_inv_def)
qed

lemma startup_preserves_inv: "startup s t \<Longrightarrow> startup_inv s \<Longrightarrow> startup_inv t"
proof (induction rule: startup.induct)
  case startup_done
  then show ?case by simp
next
  case startup_actor
  then show ?case using startup_inv_register_static by blast
next
  case startup_handler
  then show ?case using startup_inv_register_handler by blast
qed (auto simp: register_hook_defs elim!: startup_inv_register_field)

section \<open>Properties\<close>

text \<open>
  Registering an actor implements "append if absent" on the linked list. From a stopped
  framework whose list holds the distinct actors \<open>xs\<close>, the walk ends, the call returns, the list
  then holds \<open>xs\<close> with the actor at its end (or unchanged if it was there), nothing but the list
  links is written, and a second registration changes nothing.
\<close>

theorem ipc_actor_register_static_appends:
  assumes "actor_list s xs" "lifecycle_state s = IPC_LIFECYCLE_STOPPED"
  shows "\<exists>t. ipc_actor_register_static a s = Some (Returns t)
    \<and> actor_list t (append_new a xs) \<and> links_only s t
    \<and> ipc_actor_register_static a t = Some (Returns t)"
proof -
  obtain t where t: "ipc_actor_register_static a s = Some (Returns t)"
    "actor_list t (append_new a xs)" "links_only s t"
    using register_static_cases [OF assms] by blast
  have "lifecycle_state t = IPC_LIFECYCLE_STOPPED" using links_only_fields(2) [OF t(3)] assms(2) by simp
  from register_static_cases [OF t(2) this, of a]
  have "ipc_actor_register_static a t = Some (Returns t)"
    by (metis append_new_def in_set_conv_decomp)
  with t show ?thesis by blast
qed

theorem ipc_actor_register_static_appends_witness:
  "\<exists>t. ipc_actor_register_static 1 (ex_initial () ()) = Some (Returns t) \<and> actor_list t [1]"
  using ipc_actor_register_static_appends [of "ex_initial () ()" "[]" 1]
  by (auto simp: ex_initial_def ipc_initial_def actor_list_def append_new_def)

text \<open>
  Handler registration is decided by its documented conditions. From a stopped framework with
  well-formed tables, registering a handler for a named message returns exactly when the ID does
  not collide with another name, the command has no route yet (or the actor no subscription to the
  event), and the table has room; it then keeps the table invariant, with one route or subscription
  and one handler binding more. In every other case the program aborts: there is no state with a
  binding but no route, and the walk never diverges.
\<close>

theorem ipc_actor_register_handler_static_total:
  assumes "registration_inv s xs" "lifecycle_state s = IPC_LIFECYCLE_STOPPED"
    and "d_name (descs s d) = Some n"
  shows "if handler_accepted a d s
    then (\<exists>t. ipc_actor_register_handler_static a d h s = Some (Returns t)
      \<and> registration_inv t (append_new a xs) \<and> handler_count t = handler_count s + 1
      \<and> reg_count t + sub_count t = reg_count s + sub_count s + 1)
    else ipc_actor_register_handler_static a d h s = Some Aborts"
proof -
  have al: "actor_list s xs" and ti: "tables_inv s" using assms(1) by (simp_all add: registration_inv_def)
  obtain t where t: "ipc_actor_register_static a s = Some (Returns t)"
    "actor_list t (append_new a xs)" "links_only s t"
    using register_static_cases [OF al assms(2)] by blast
  have c: "handler_count t = handler_count s" "reg_count t = reg_count s" "sub_count t = sub_count s"
    using links_only_fields(3) [OF t(3)] by (simp_all add: same_tables_def)
  have "handler_count (registered_with a d h t) = handler_count s + 1
      \<and> reg_count (registered_with a d h t) + sub_count (registered_with a d h t)
        = reg_count s + sub_count s + 1"
    by (simp add: registered_with_def Let_def add_route_def add_subscription_def ensure_id_frame c)
  with register_handler_static_eq [OF al assms(2) ti assms(3) t(1,3), of h]
    registered_with_inv [OF assms(1) _ assms(3) t(2,3), of h]
  show ?thesis by simp
qed

theorem ipc_actor_register_handler_static_total_witness:
  "\<exists>t. ipc_actor_register_handler_static 1 0 51 (ex_initial () ()) = Some (Returns t)
     \<and> registration_inv t [1] \<and> handler_count t = 1"
  using ipc_actor_register_handler_static_total [of "ex_initial () ()" "[]" 0 "''On''" 1 51]
    registration_inv_initial [of ex_config ex_actors ex_descs "()" "()"]
  by (auto simp: ex_defs handler_accepted_def named_ids_def append_new_def Let_def)

text \<open>
  Every state that static registration can reach from the zeroed program, in whatever order the
  constructors run, has a well-formed list of distinct actors and well-formed tables: unique routes,
  one name per ID, one binding for each route and subscription, all of listed actors.
\<close>

theorem startup_reaches_registration_inv:
  assumes "startup (ipc_initial c as ds p u) s"
  shows "\<exists>xs. registration_inv s xs"
proof -
  have "lifecycle_state (ipc_initial c as ds p u) = IPC_LIFECYCLE_STOPPED"
    by (simp add: ipc_initial_def)
  then have "startup_inv (ipc_initial c as ds p u)"
    unfolding startup_inv_def using registration_inv_initial by (intro conjI exI)
  with startup_preserves_inv [OF assms] show ?thesis by (simp add: startup_inv_def)
qed

theorem startup_reaches_registration_inv_witness:
  "\<exists>s. startup (ex_initial () ()) s \<and> ipc_actor_list s = Some 1 \<and> (\<exists>xs. registration_inv s xs)"
proof -
  let ?t = "write_link Head_link (Some 1) (write_link (Next_link 1) None (ex_initial () ()))"
  have "ipc_actor_register_static 1 (ex_initial () ()) = Some (Returns ?t)"
    by (simp add: ipc_actor_register_static_def registration_closed_def ex_initial_def ipc_initial_def
        find_last_link.simps)
  then have "startup (ex_initial () ()) ?t" by (rule startup_actor [OF startup_done])
  moreover from this have "\<exists>xs. registration_inv ?t xs"
    unfolding ex_initial_def by (rule startup_reaches_registration_inv)
  ultimately show ?thesis by (intro exI [of _ ?t]) (simp add: ex_initial_def)
qed

text \<open>The example program satisfies the invariant it claims to have reached.\<close>

lemma ex_running_inv: "registration_inv (ex_running p u) [1, 2]"
proof -
  have "named_ids (ex_running p u) = [(10, ''On''), (11, ''Ev''), (11, ''Ev'')]"
    by (simp add: named_ids_def ex_running_def numeral_2_eq_2)
  moreover have "actor_list (ex_running p u) [1, 2]"
    by (simp add: actor_list_def ex_defs)
  ultimately show ?thesis
    by (simp add: registration_inv_def tables_inv_def ex_defs numeral_2_eq_2 numeral_3_eq_3) auto
qed

end
