(* ===== verification/Ipc_Port.thy ===== *)
theory Ipc_Port
  imports Ipc_Registry
begin

text \<open>
  The contract of \<^verbatim>\<open>src/ipc_port.h\<close> as a locale. The core relies on a port that copies a sent
  message synchronously into a bounded FIFO mailbox per actor and answers \<^verbatim>\<open>-ENOMEM\<close> when that
  mailbox is full; \<open>mailbox_port\<close> states this over an abstract mailbox \<open>mail p a\<close> (the messages of
  actor \<open>a\<close>, oldest first). The port theories interpret it on their definitions; the theories of
  the core prove what their operations do once, inside it.
\<close>

section \<open>Messages as a port hands them out\<close>

text \<open>
  A queued copy owns its payload: the \<open>m_size\<close> bytes of the sender's payload, or that many zeroes
  for a \<^verbatim>\<open>NULL\<close> payload.
\<close>

definition received :: "ipc_msg \<Rightarrow> ipc_msg" where
  "received m = m\<lparr> m_payload := Some (msg_bytes m) \<rparr>"

lemma received_fields [simp]:
  "m_id (received m) = m_id m" "m_kind (received m) = m_kind m" "m_size (received m) = m_size m"
  "m_ask_id (received m) = m_ask_id m" "m_reply_id (received m) = m_reply_id m"
  "m_result (received m) = m_result m" "m_payload (received m) = Some (msg_bytes m)"
  by (simp_all add: received_def)

lemma msg_bytes_received: "msg_bytes (received m) = msg_bytes m"
  by (simp add: msg_bytes_def split: option.splits)

lemma received_idem: "received (received m) = received m"
  by (simp add: received_def [of "received m"] msg_bytes_received)

lemma msg_readable_received: "msg_readable m \<Longrightarrow> msg_readable (received m)"
  by (simp add: msg_readable_def [of "received m"] length_msg_bytes)

section \<open>The contract\<close>

text \<open>
  \<open>ready p a c\<close>: the port has initialised the mailbox of \<open>a\<close> with the configuration \<open>c\<close>. An
  actor object \<open>x\<close> passed to the port carries that configuration in \<open>a_cfg x\<close>.
\<close>

locale mailbox_port =
  fixes P :: "'p port_ops"
    and ready :: "'p \<Rightarrow> aptr \<Rightarrow> ipc_actor_cfg \<Rightarrow> bool"
    and mail :: "'p \<Rightarrow> aptr \<Rightarrow> ipc_msg list"
  assumes send_accepted: "ready p a (a_cfg x) \<Longrightarrow> msg_readable m \<Longrightarrow>
      m_size m \<le> max_payload_size (a_cfg x) \<Longrightarrow> length (mail p a) < queue_depth (a_cfg x) \<Longrightarrow>
      snd (port_send P a x m p) = 0
      \<and> mail (fst (port_send P a x m p)) a = mail p a @ [received m]"
    and send_full: "ready p a (a_cfg x) \<Longrightarrow> m_size m \<le> max_payload_size (a_cfg x) \<Longrightarrow>
      \<not> length (mail p a) < queue_depth (a_cfg x) \<Longrightarrow>
      snd (port_send P a x m p) = - ENOMEM
      \<and> mail (fst (port_send P a x m p)) a = mail p a"
    and send_others: "b \<noteq> a \<Longrightarrow> mail (fst (port_send P a x m p)) b = mail p b"
    and send_ready: "ready p a (a_cfg x) \<Longrightarrow> ready p b c \<Longrightarrow> ready (fst (port_send P a x m p)) b c"
    and send_isr_same: "port_send_isr P = port_send P"
    and mail_bounded: "ready p a c \<Longrightarrow> length (mail p a) \<le> queue_depth c"
    and schedule_keeps: "mail (fst (port_schedule_ask_timeout P a x n ms p)) = mail p"
      "ready p b c \<Longrightarrow> ready (fst (port_schedule_ask_timeout P a x n ms p)) b c"
    and restart_empties: "ready p a (a_cfg x) \<Longrightarrow>
      snd (port_restart_actor P a x p) = 0
      \<and> mail (fst (port_restart_actor P a x p)) a = []
      \<and> ready (fst (port_restart_actor P a x p)) a (a_cfg x)"
begin

text \<open>The room left in a mailbox, and what a send of a message that fits does, in one equation.\<close>

lemma send_cases:
  assumes "ready p a (a_cfg x)" "msg_readable m" "m_size m \<le> max_payload_size (a_cfg x)"
  shows "snd (port_send P a x m p)
      = (if length (mail p a) < queue_depth (a_cfg x) then 0 else - ENOMEM)"
    "mail (fst (port_send P a x m p)) b
      = mail p b @ (if b = a \<and> length (mail p a) < queue_depth (a_cfg x) then [received m] else [])"
  using send_accepted [OF assms] send_full [OF assms(1,3)] send_others [of b a x m p] by auto

end

text \<open>
  The mailboxes of the whole state, and the same facts for the core's call into the port.
\<close>

context mailbox_port
begin

lemma ipc_port_send_cases:
  assumes "ready (port_st s) a (a_cfg (actors s a))" "msg_readable m"
    "m_size m \<le> max_payload_size (a_cfg (actors s a))"
  shows "fst (ipc_port_send P a m s)
      = (if length (mail (port_st s) a) < queue_depth (a_cfg (actors s a)) then 0 else - ENOMEM)"
    "mail (port_st (snd (ipc_port_send P a m s))) b
      = mail (port_st s) b
        @ (if b = a \<and> length (mail (port_st s) a) < queue_depth (a_cfg (actors s a))
           then [received m] else [])"
  using send_cases [OF assms] by (simp_all add: ipc_port_send_def on_port_result)

lemma ipc_port_send_ready:
  "ready (port_st s) a (a_cfg (actors s a)) \<Longrightarrow> ready (port_st s) b c \<Longrightarrow>
     ready (port_st (snd (ipc_port_send P a m s))) b c"
  by (simp add: ipc_port_send_def on_port_result send_ready)

lemma ipc_port_send_isr_same: "ipc_port_send_isr P = ipc_port_send P"
  by (simp add: fun_eq_iff ipc_port_send_isr_def ipc_port_send_def send_isr_same)

end

text \<open>
  How a mailbox becomes ready. \<open>declared p a x\<close> is what the port needs of the static declaration of the
  actor \<open>x\<close>; a port that allocates its resources itself needs nothing.
\<close>

locale initialising_port = mailbox_port P ready mail for P :: "'p port_ops" and ready and mail +
  fixes declared :: "'p \<Rightarrow> aptr \<Rightarrow> ipc_actor \<Rightarrow> bool"
  assumes init_ready: "declared p a x \<Longrightarrow> 0 < queue_depth (a_cfg x) \<Longrightarrow>
      max_payload_size (a_cfg x) + 48 \<le> 2 ^ 64 \<Longrightarrow> snd (port_actor_init P a x p) = 0 \<Longrightarrow>
      ready (fst (port_actor_init P a x p)) a (a_cfg x)
      \<and> mail (fst (port_actor_init P a x p)) a = []"
begin

text \<open>A freshly initialised mailbox accepts a message that fits, which is then all it holds.\<close>

lemma init_then_send:
  assumes "declared p a x" "0 < queue_depth (a_cfg x)" "max_payload_size (a_cfg x) + 48 \<le> 2 ^ 64"
    and "snd (port_actor_init P a x p) = 0" "msg_readable m" "m_size m \<le> max_payload_size (a_cfg x)"
  defines "q \<equiv> fst (port_actor_init P a x p)"
  shows "snd (port_send P a x m q) = 0" "mail (fst (port_send P a x m q)) a = [received m]"
  using init_ready [OF assms(1-4)] send_accepted [of q a x m] assms(2,5,6) by (simp_all add: q_def)

end

text \<open>A call into the port leaves the core's state alone; these hold for every port.\<close>

lemma ipc_port_send_frame [frame_simps]:
  "conf (snd (ipc_port_send P a m s)) = conf s" "actors (snd (ipc_port_send P a m s)) = actors s"
  "descs (snd (ipc_port_send P a m s)) = descs s"
  "ipc_actor_list (snd (ipc_port_send P a m s)) = ipc_actor_list s"
  "reg_table (snd (ipc_port_send P a m s)) = reg_table s"
  "reg_count (snd (ipc_port_send P a m s)) = reg_count s"
  "sub_table (snd (ipc_port_send P a m s)) = sub_table s"
  "sub_count (snd (ipc_port_send P a m s)) = sub_count s"
  "handler_table (snd (ipc_port_send P a m s)) = handler_table s"
  "handler_count (snd (ipc_port_send P a m s)) = handler_count s"
  "lifecycle_state (snd (ipc_port_send P a m s)) = lifecycle_state s"
  "next_ask_id (snd (ipc_port_send P a m s)) = next_ask_id s"
  "ask_table (snd (ipc_port_send P a m s)) = ask_table s"
  "app_st (snd (ipc_port_send P a m s)) = app_st s"
  by (simp_all add: ipc_port_send_def on_port_fields)

lemma ipc_port_schedule_frame [frame_simps]:
  "conf (snd (ipc_port_schedule_ask_timeout P a i n s)) = conf s"
  "actors (snd (ipc_port_schedule_ask_timeout P a i n s)) = actors s"
  "descs (snd (ipc_port_schedule_ask_timeout P a i n s)) = descs s"
  "ipc_actor_list (snd (ipc_port_schedule_ask_timeout P a i n s)) = ipc_actor_list s"
  "reg_table (snd (ipc_port_schedule_ask_timeout P a i n s)) = reg_table s"
  "reg_count (snd (ipc_port_schedule_ask_timeout P a i n s)) = reg_count s"
  "lifecycle_state (snd (ipc_port_schedule_ask_timeout P a i n s)) = lifecycle_state s"
  "next_ask_id (snd (ipc_port_schedule_ask_timeout P a i n s)) = next_ask_id s"
  "ask_table (snd (ipc_port_schedule_ask_timeout P a i n s)) = ask_table s"
  "app_st (snd (ipc_port_schedule_ask_timeout P a i n s)) = app_st s"
  by (simp_all add: ipc_port_schedule_ask_timeout_def on_port_fields)

end
