(* ===== verification/Ipc_Routing.thy ===== *)
theory Ipc_Routing
  imports Ipc_Port
begin

text \<open>
  Message delivery in \<^verbatim>\<open>src/ipc.c\<close>: the overflow policy, the checks and the route lookup of a
  command, send, delayed send, publish, and direct posting.

  A payload argument is \<open>None\<close> for \<^verbatim>\<open>NULL\<close> or \<open>Some bs\<close> for a pointer to the bytes \<open>bs\<close>; a
  descriptor or actor argument the code checks for \<^verbatim>\<open>NULL\<close> is an \<open>option\<close>.
\<close>

section \<open>Overflow policy and message construction\<close>

definition actor_max_payload_size :: "ipc_actor \<Rightarrow> nat" where
  "actor_max_payload_size x = max_payload_size (a_cfg x)"

definition apply_mailbox_overflow_policy ::
    "aptr \<Rightarrow> int \<times> ('p, 'u) sys \<Rightarrow> int \<times> ('p, 'u) sys" where
  "apply_mailbox_overflow_policy a r =
     (case r of (rc, s) \<Rightarrow>
        if (rc \<noteq> - ENOMEM \<and> rc \<noteq> - EAGAIN)
           \<or> a_mailbox_overflow_policy (actors s a) \<noteq> IPC_MAILBOX_OVERFLOW_DROP
        then (rc, s)
        else (IPC_DELIVERY_DROPPED,
              s\<lparr> actors := (actors s)(a := (actors s a)
                   \<lparr> a_dropped_messages := a_dropped_messages (actors s a) + 1 \<rparr>) \<rparr>))"

definition valid_descriptor :: "dptr option \<Rightarrow> ipc_msg_kind_t \<Rightarrow> ('p, 'u) sys \<Rightarrow> bool" where
  "valid_descriptor d kind s =
     (case d of None \<Rightarrow> False
      | Some e \<Rightarrow> d_kind (descs s e) = kind \<and> d_name (descs s e) \<noteq> None)"

definition make_msg :: "ipc_msg_desc_t \<Rightarrow> u8 list option \<Rightarrow> ipc_msg" where
  "make_msg desc payload =
     \<lparr> m_id = d_id desc, m_kind = d_kind desc, m_size = d_size desc, m_payload = payload,
       m_ask_id = 0, m_reply_id = 0, m_result = 0 \<rparr>"

section \<open>Commands\<close>

text \<open>\<open>Inl rc\<close> is an error; \<open>Inr (target, msg)\<close> are the two results written through pointers.\<close>

definition prepare_registered_cmd ::
    "dptr option \<Rightarrow> u8 list option \<Rightarrow> ('p, 'u) sys \<Rightarrow> (int + aptr \<times> ipc_msg) \<times> ('p, 'u) sys" where
  "prepare_registered_cmd d payload s =
     (if \<not> valid_descriptor d IPC_CMD s then (Inl (- EINVAL), s)
      else
        (let s1 = ipc_ensure_id (the d) s; desc = descs s1 (the d)
         in case find_registered (d_id desc) s1 of
              None \<Rightarrow> (Inl (- ENOENT), s1)
            | Some target \<Rightarrow>
                if d_size desc > actor_max_payload_size (actors s1 target)
                then (Inl (- EMSGSIZE), s1)
                else (Inr (target, make_msg desc payload), s1)))"

definition ipc_send_raw ::
    "'p port_ops \<Rightarrow> dptr option \<Rightarrow> u8 list option \<Rightarrow> ('p, 'u) sys \<Rightarrow> int \<times> ('p, 'u) sys" where
  "ipc_send_raw P d payload s =
     (case prepare_registered_cmd d payload s of
        (Inl rc, s1) \<Rightarrow> (rc, s1)
      | (Inr (target, msg), s1) \<Rightarrow>
          apply_mailbox_overflow_policy target (ipc_port_send P target msg s1))"

definition ipc_send_after_raw ::
    "'p port_ops \<Rightarrow> dptr option \<Rightarrow> u32 \<Rightarrow> u8 list option \<Rightarrow> ('p, 'u) sys \<Rightarrow> int \<times> ('p, 'u) sys" where
  "ipc_send_after_raw P d delay_ms payload s =
     (case prepare_registered_cmd d payload s of
        (Inl rc, s1) \<Rightarrow> (rc, s1)
      | (Inr (target, msg), s1) \<Rightarrow> ipc_port_send_after P target msg delay_ms s1)"

section \<open>Events\<close>

text \<open>
  The loop of \<^verbatim>\<open>publish_prepared_msg\<close> over the rows of the subscription table. Neither a port's
  send nor the overflow policy writes that table, so the rows are read once.
\<close>

fun publish_loop ::
    "(aptr \<Rightarrow> ipc_msg \<Rightarrow> ('p, 'u) sys \<Rightarrow> int \<times> ('p, 'u) sys) \<Rightarrow> ipc_msg \<Rightarrow> u32
     \<Rightarrow> ipc_subscription_t list \<Rightarrow> int \<Rightarrow> ('p, 'u) sys \<Rightarrow> int \<times> ('p, 'u) sys" where
  "publish_loop send_fn msg msg_id [] first_rc s = (first_rc, s)"
| "publish_loop send_fn msg msg_id (row # rows) first_rc s =
     (if s_msg_id row = msg_id then
        (let actor = s_actor row;
             (rc, t) = (if m_size msg > actor_max_payload_size (actors s actor)
                        then (- EMSGSIZE, s)
                        else apply_mailbox_overflow_policy actor (send_fn actor msg s))
         in publish_loop send_fn msg msg_id rows
              (if rc \<noteq> 0 \<and> first_rc = 0 then rc else first_rc) t)
      else publish_loop send_fn msg msg_id rows first_rc s)"

definition publish_prepared_msg ::
    "ipc_msg \<Rightarrow> u32 \<Rightarrow> (aptr \<Rightarrow> ipc_msg \<Rightarrow> ('p, 'u) sys \<Rightarrow> int \<times> ('p, 'u) sys)
     \<Rightarrow> ('p, 'u) sys \<Rightarrow> int \<times> ('p, 'u) sys" where
  "publish_prepared_msg msg msg_id send_fn s = publish_loop send_fn msg msg_id (subs s) 0 s"

definition ipc_publish_raw ::
    "'p port_ops \<Rightarrow> dptr option \<Rightarrow> u8 list option \<Rightarrow> ('p, 'u) sys \<Rightarrow> int \<times> ('p, 'u) sys" where
  "ipc_publish_raw P d payload s =
     (if \<not> valid_descriptor d IPC_EVENT s then (- EINVAL, s)
      else
        (let s1 = ipc_ensure_id (the d) s; desc = descs s1 (the d);
             msg = \<lparr> m_id = d_id desc, m_kind = IPC_EVENT, m_size = d_size desc,
                     m_payload = payload, m_ask_id = 0, m_reply_id = 0, m_result = 0 \<rparr>
         in publish_prepared_msg msg (d_id desc) (ipc_port_send P) s1))"

section \<open>Direct posting and the overflow setting\<close>

definition ipc_send_to_raw ::
    "'p port_ops \<Rightarrow> aptr option \<Rightarrow> dptr option \<Rightarrow> u8 list option \<Rightarrow> ('p, 'u) sys
     \<Rightarrow> int \<times> ('p, 'u) sys" where
  "ipc_send_to_raw P a d payload s =
     (case (a, d) of
        (Some actor, Some e) \<Rightarrow>
          (let desc = descs s e
           in if d_kind desc \<noteq> IPC_CMD \<and> d_kind desc \<noteq> IPC_EVENT then (- EINVAL, s)
              else if lifecycle_state s \<noteq> IPC_LIFECYCLE_RUNNING then (- EPERM, s)
              else if d_id desc = 0 then (- EINVAL, s)
              else if d_size desc > actor_max_payload_size (actors s actor) then (- EMSGSIZE, s)
              else apply_mailbox_overflow_policy actor
                     (ipc_port_send_isr P actor (make_msg desc payload) s))
      | _ \<Rightarrow> (- EINVAL, s))"

definition ipc_actor_set_mailbox_overflow_policy ::
    "aptr option \<Rightarrow> ipc_mailbox_overflow_policy_t \<Rightarrow> ('p, 'u) sys \<Rightarrow> int \<times> ('p, 'u) sys" where
  "ipc_actor_set_mailbox_overflow_policy a policy s =
     (case a of None \<Rightarrow> (- EINVAL, s)
      | Some actor \<Rightarrow>
          if policy \<noteq> IPC_MAILBOX_OVERFLOW_FAIL \<and> policy \<noteq> IPC_MAILBOX_OVERFLOW_DROP
          then (- EINVAL, s)
          else if lifecycle_state s \<noteq> IPC_LIFECYCLE_STOPPED then (- EPERM, s)
          else (0, s\<lparr> actors := (actors s)(actor := (actors s actor)
                        \<lparr> a_mailbox_overflow_policy := policy \<rparr>) \<rparr>))"

definition ipc_actor_dropped_message_count :: "aptr option \<Rightarrow> ('p, 'u) sys \<Rightarrow> u32" where
  "ipc_actor_dropped_message_count a s =
     (case a of None \<Rightarrow> 0 | Some actor \<Rightarrow> a_dropped_messages (actors s actor))"

section \<open>What a delivery writes\<close>

text \<open>\<open>delivery_only s t\<close>: of the whole state, at most the port and the drop counters differ.\<close>

definition delivery_only :: "('p, 'u) sys \<Rightarrow> ('p, 'u) sys \<Rightarrow> bool" where
  "delivery_only s t \<longleftrightarrow>
     (\<exists>p as. t = s\<lparr> port_st := p, actors := as \<rparr>
        \<and> (\<forall>b. (as b)\<lparr> a_dropped_messages := 0 \<rparr> = (actors s b)\<lparr> a_dropped_messages := 0 \<rparr>))"

lemma delivery_only_refl: "delivery_only s s"
  unfolding delivery_only_def by (rule exI [of _ "port_st s"], rule exI [of _ "actors s"]) simp

lemma delivery_only_trans: "delivery_only s t \<Longrightarrow> delivery_only t u \<Longrightarrow> delivery_only s u"
  unfolding delivery_only_def by fastforce

lemma delivery_only_fields:
  assumes "delivery_only s t"
  shows "conf t = conf s" "descs t = descs s" "ipc_actor_list t = ipc_actor_list s"
    "lifecycle_state t = lifecycle_state s" "same_tables s t"
    "next_ask_id t = next_ask_id s" "ask_table t = ask_table s" "app_st t = app_st s"
  using assms by (auto simp: delivery_only_def same_tables_def)

lemma delivery_only_actors:
  assumes "delivery_only s t"
  shows "a_cfg (actors t b) = a_cfg (actors s b)" "a_next (actors t b) = a_next (actors s b)"
    "a_mailbox_overflow_policy (actors t b) = a_mailbox_overflow_policy (actors s b)"
    "a_handler (actors t b) = a_handler (actors s b)"
    "a_unknown_handler (actors t b) = a_unknown_handler (actors s b)"
proof -
  from assms have eq: "(actors t b)\<lparr> a_dropped_messages := 0 \<rparr> = (actors s b)\<lparr> a_dropped_messages := 0 \<rparr>"
    by (auto simp: delivery_only_def)
  show "a_cfg (actors t b) = a_cfg (actors s b)" using arg_cong [OF eq, of a_cfg] by simp
  show "a_next (actors t b) = a_next (actors s b)" using arg_cong [OF eq, of a_next] by simp
  show "a_mailbox_overflow_policy (actors t b) = a_mailbox_overflow_policy (actors s b)"
    using arg_cong [OF eq, of a_mailbox_overflow_policy] by simp
  show "a_handler (actors t b) = a_handler (actors s b)" using arg_cong [OF eq, of a_handler] by simp
  show "a_unknown_handler (actors t b) = a_unknown_handler (actors s b)"
    using arg_cong [OF eq, of a_unknown_handler] by simp
qed

lemma delivery_only_on_port: "delivery_only s (snd (on_port f s))"
  unfolding delivery_only_def
  by (rule exI [of _ "fst (f (port_st s))"], rule exI [of _ "actors s"])
     (simp add: on_port_def split: prod.splits)

lemma delivery_only_overflow: "delivery_only s (snd r) \<Longrightarrow> delivery_only s (snd (apply_mailbox_overflow_policy a r))"
proof -
  assume "delivery_only s (snd r)"
  moreover have "delivery_only (snd r) (snd (apply_mailbox_overflow_policy a r))"
    unfolding delivery_only_def
    by (rule exI [of _ "port_st (snd r)"],
        rule exI [of _ "actors (snd (apply_mailbox_overflow_policy a r))"])
       (simp add: apply_mailbox_overflow_policy_def split: prod.splits)
  ultimately show ?thesis by (rule delivery_only_trans)
qed

lemma delivery_only_send:
  "delivery_only s (snd (apply_mailbox_overflow_policy a (ipc_port_send P a m s)))"
  by (intro delivery_only_overflow) (simp add: ipc_port_send_def delivery_only_on_port)

section \<open>Delivery into a mailbox\<close>

text \<open>The return code of one delivery, from the receiver's capacity, room and policy.\<close>

definition delivery_code :: "ipc_actor \<Rightarrow> nat \<Rightarrow> ipc_msg \<Rightarrow> int" where
  "delivery_code x queued m =
     (if m_size m > actor_max_payload_size x then - EMSGSIZE
      else if queued < queue_depth (a_cfg x) then 0
      else if a_mailbox_overflow_policy x = IPC_MAILBOX_OVERFLOW_DROP then IPC_DELIVERY_DROPPED
      else - ENOMEM)"

lemma delivery_code_0_iff:
  "delivery_code x n m = 0 \<longleftrightarrow> m_size m \<le> actor_max_payload_size x \<and> n < queue_depth (a_cfg x)"
  by (simp add: delivery_code_def IPC_DELIVERY_DROPPED_def)

lemma delivery_code_dropped_iff:
  "delivery_code x n m = IPC_DELIVERY_DROPPED \<longleftrightarrow>
     m_size m \<le> actor_max_payload_size x \<and> \<not> n < queue_depth (a_cfg x)
     \<and> a_mailbox_overflow_policy x = IPC_MAILBOX_OVERFLOW_DROP"
  by (simp add: delivery_code_def IPC_DELIVERY_DROPPED_def)

text \<open>The messages one delivery adds to a mailbox, and the drops it counts.\<close>

definition delivered :: "int \<Rightarrow> ipc_msg \<Rightarrow> ipc_msg list" where
  "delivered rc m = (if rc = 0 then [received m] else [])"

definition dropped :: "int \<Rightarrow> u32" where
  "dropped rc = (if rc = IPC_DELIVERY_DROPPED then 1 else 0)"

lemma dropped_simps [simp]: "dropped 0 = 0" "dropped (- EMSGSIZE) = 0" "dropped (- ENOMEM) = 0"
  by (simp_all add: dropped_def IPC_DELIVERY_DROPPED_def)

context mailbox_port
begin

text \<open>Every actor whose mailbox the port has set up.\<close>

abbreviation ready_in :: "('p, 'u) sys \<Rightarrow> aptr \<Rightarrow> bool" where
  "ready_in s a \<equiv> ready (port_st s) a (a_cfg (actors s a))"

abbreviation queued :: "('p, 'u) sys \<Rightarrow> aptr \<Rightarrow> nat" where
  "queued s a \<equiv> length (mail (port_st s) a)"

lemma deliver_one:
  assumes "ready_in s a" "msg_readable m" "m_size m \<le> actor_max_payload_size (actors s a)"
  defines "r \<equiv> apply_mailbox_overflow_policy a (ipc_port_send P a m s)"
    and "c \<equiv> delivery_code (actors s a) (queued s a) m"
  shows "fst r = c"
    "mail (port_st (snd r)) b = mail (port_st s) b @ (if b = a then delivered c m else [])"
    "a_dropped_messages (actors (snd r) b)
       = a_dropped_messages (actors s b) + (if b = a then dropped c else 0)"
    "ready (port_st s) b k \<Longrightarrow> ready (port_st (snd r)) b k"
proof -
  note send = ipc_port_send_cases [OF assms(1,2) assms(3) [unfolded actor_max_payload_size_def]]
  have c: "c = (if queued s a < queue_depth (a_cfg (actors s a)) then 0
      else if a_mailbox_overflow_policy (actors s a) = IPC_MAILBOX_OVERFLOW_DROP
      then IPC_DELIVERY_DROPPED else - ENOMEM)"
    using assms(3) by (simp add: c_def delivery_code_def)
  have r: "r = (if c = IPC_DELIVERY_DROPPED
      then (c, (snd (ipc_port_send P a m s))\<lparr> actors := (actors s)(a := (actors s a)
             \<lparr> a_dropped_messages := a_dropped_messages (actors s a) + 1 \<rparr>) \<rparr>)
      else (c, snd (ipc_port_send P a m s)))"
    by (cases "ipc_port_send P a m s")
       (use send(1) ipc_port_send_frame(2) [of P a m s] in
         \<open>auto simp: r_def c apply_mailbox_overflow_policy_def IPC_DELIVERY_DROPPED_def\<close>)
  show "fst r = c" by (simp add: r)
  have "port_st (snd r) = port_st (snd (ipc_port_send P a m s))" by (simp add: r)
  then show "mail (port_st (snd r)) b = mail (port_st s) b @ (if b = a then delivered c m else [])"
    "ready (port_st s) b k \<Longrightarrow> ready (port_st (snd r)) b k"
    by (simp_all add: send(2) ipc_port_send_ready [OF assms(1)] delivered_def c IPC_DELIVERY_DROPPED_def)
  show "a_dropped_messages (actors (snd r) b)
       = a_dropped_messages (actors s b) + (if b = a then dropped c else 0)"
    by (simp add: r dropped_def frame_simps)
qed

text \<open>A whole call of the core's send path: what \<open>deliver_one\<close> says, with the size check in front.\<close>

lemma deliver_checked:
  assumes "ready_in s a" "msg_readable m"
  defines "r \<equiv> (if m_size m > actor_max_payload_size (actors s a) then (- EMSGSIZE, s)
                 else apply_mailbox_overflow_policy a (ipc_port_send P a m s))"
    and "c \<equiv> delivery_code (actors s a) (queued s a) m"
  shows "fst r = c"
    "mail (port_st (snd r)) b = mail (port_st s) b @ (if b = a then delivered c m else [])"
    "a_dropped_messages (actors (snd r) b)
       = a_dropped_messages (actors s b) + (if b = a then dropped c else 0)"
    "ready (port_st s) b k \<Longrightarrow> ready (port_st (snd r)) b k"
    "delivery_only s (snd r)"
proof -
  have big: "c = - EMSGSIZE" if "m_size m > actor_max_payload_size (actors s a)"
    using that by (simp add: c_def delivery_code_def)
  show "fst r = c" "mail (port_st (snd r)) b
      = mail (port_st s) b @ (if b = a then delivered c m else [])"
    "a_dropped_messages (actors (snd r) b)
       = a_dropped_messages (actors s b) + (if b = a then dropped c else 0)"
    "ready (port_st s) b k \<Longrightarrow> ready (port_st (snd r)) b k"
    using deliver_one [OF assms(1,2)] big
    by (auto simp: r_def c_def delivered_def)
  show "delivery_only s (snd r)"
    by (simp add: r_def delivery_only_refl delivery_only_send)
qed

end

section \<open>Fan-out\<close>

definition first_nonzero :: "int list \<Rightarrow> int" where
  "first_nonzero rcs = (case find (\<lambda>rc. rc \<noteq> 0) rcs of None \<Rightarrow> 0 | Some rc \<Rightarrow> rc)"

lemma first_nonzero_simps [simp]:
  "first_nonzero [] = 0"
  "first_nonzero (rc # rcs) = (if rc \<noteq> 0 then rc else first_nonzero rcs)"
  by (simp_all add: first_nonzero_def)

lemma first_nonzero_0_iff: "first_nonzero rcs = 0 \<longleftrightarrow> (\<forall>rc \<in> set rcs. rc = 0)"
  by (induction rcs) auto

lemma first_nonzero_in: "first_nonzero rcs \<noteq> 0 \<Longrightarrow> first_nonzero rcs \<in> set rcs"
  by (induction rcs) (auto split: if_splits)

definition subscribers :: "ipc_subscription_t list \<Rightarrow> u32 \<Rightarrow> aptr list" where
  "subscribers rows i = map s_actor (filter (\<lambda>r. s_msg_id r = i) rows)"

lemma subscribers_simps [simp]:
  "subscribers [] i = []"
  "subscribers (r # rows) i = (if s_msg_id r = i then s_actor r # subscribers rows i else subscribers rows i)"
  by (simp_all add: subscribers_def)

lemma distinct_subscribers: "distinct (map sub_key rows) \<Longrightarrow> distinct (subscribers rows i)"
proof (induction rows)
  case Nil
  then show ?case by simp
next
  case (Cons r rows)
  then show ?case by (auto simp: subscribers_def image_iff)
qed

context mailbox_port
begin

definition publish_code :: "('p, 'u) sys \<Rightarrow> ipc_msg \<Rightarrow> aptr \<Rightarrow> int" where
  "publish_code s m b = delivery_code (actors s b) (queued s b) m"

text \<open>
  Deliveries to distinct actors do not influence one another, so every code is determined by the
  state before the call.
\<close>

lemma publish_loop_spec:
  assumes "distinct (subscribers rows i)" "msg_readable m"
    and "\<forall>a \<in> set (subscribers rows i). ready_in s a"
  shows "fst (publish_loop (ipc_port_send P) m i rows rc0 s)
       = first_nonzero (rc0 # map (publish_code s m) (subscribers rows i))
    \<and> (\<forall>b. mail (port_st (snd (publish_loop (ipc_port_send P) m i rows rc0 s))) b
         = mail (port_st s) b
           @ (if b \<in> set (subscribers rows i) then delivered (publish_code s m b) m else []))
    \<and> (\<forall>b. a_dropped_messages (actors (snd (publish_loop (ipc_port_send P) m i rows rc0 s)) b)
         = a_dropped_messages (actors s b)
           + (if b \<in> set (subscribers rows i) then dropped (publish_code s m b) else 0))
    \<and> delivery_only s (snd (publish_loop (ipc_port_send P) m i rows rc0 s))"
  using assms
proof (induction rows arbitrary: rc0 s)
  case Nil
  then show ?case by (simp add: delivery_only_refl)
next
  case (Cons r rows)
  show ?case
  proof (cases "s_msg_id r = i")
    case False
    with Cons show ?thesis by simp
  next
    case True
    let ?a = "s_actor r"
    define d where "d = (if m_size m > actor_max_payload_size (actors s ?a) then (- EMSGSIZE, s)
                 else apply_mailbox_overflow_policy ?a (ipc_port_send P ?a m s))"
    have rdy: "ready_in s ?a" using Cons.prems True by simp
    note one = deliver_checked [OF rdy Cons.prems(2), folded d_def publish_code_def]
    have new: "?a \<notin> set (subscribers rows i)" and dist: "distinct (subscribers rows i)"
      using Cons.prems(1) True by simp_all
    have same: "publish_code (snd d) m b = publish_code s m b" if "b \<noteq> ?a" for b
      using one(2) [of b] delivery_only_actors [OF one(5)] that
      by (simp add: publish_code_def delivery_code_def actor_max_payload_size_def)
    have codes: "map (publish_code (snd d) m) (subscribers rows i)
        = map (publish_code s m) (subscribers rows i)"
      by (rule map_cong [OF refl], rule same) (use new in auto)
    have rdy': "\<forall>a \<in> set (subscribers rows i). ready_in (snd d) a"
      using Cons.prems(3) True by (simp add: one(4) delivery_only_actors [OF one(5)])
    define rc where "rc = (if fst d \<noteq> 0 \<and> rc0 = 0 then fst d else rc0)"
    have step: "publish_loop (ipc_port_send P) m i (r # rows) rc0 s
        = publish_loop (ipc_port_send P) m i rows rc (snd d)"
      using True by (simp add: Let_def d_def rc_def split: prod.splits)
    note ih = Cons.IH [OF dist Cons.prems(2) rdy', of rc, unfolded codes]
    have fst: "fst (publish_loop (ipc_port_send P) m i (r # rows) rc0 s)
        = first_nonzero (rc0 # map (publish_code s m) (subscribers (r # rows) i))"
      unfolding step using ih True by (simp add: rc_def one(1) cong: if_cong)
    have mail: "mail (port_st (snd (publish_loop (ipc_port_send P) m i (r # rows) rc0 s))) b
         = mail (port_st s) b @ (if b \<in> set (subscribers (r # rows) i)
             then delivered (publish_code s m b) m else [])" for b
      unfolding step using ih True new same [of b] by (auto simp: one(2))
    have drop: "a_dropped_messages (actors (snd (publish_loop (ipc_port_send P) m i (r # rows) rc0 s)) b)
         = a_dropped_messages (actors s b) + (if b \<in> set (subscribers (r # rows) i)
             then dropped (publish_code s m b) else 0)" for b
      unfolding step using ih True new same [of b] by (auto simp: one(3))
    have "delivery_only s (snd (publish_loop (ipc_port_send P) m i (r # rows) rc0 s))"
      unfolding step using ih delivery_only_trans [OF one(5)] by blast
    with fst mail drop show ?thesis by blast
  qed
qed

end

section \<open>The API calls\<close>

text \<open>The message a call builds from its descriptor, once the descriptor's ID is set.\<close>

definition call_msg :: "('p, 'u) sys \<Rightarrow> dptr \<Rightarrow> u8 list option \<Rightarrow> ipc_msg" where
  "call_msg s d payload = make_msg (descs (ipc_ensure_id d s) d) payload"

lemma call_msg_fields [simp]:
  "m_id (call_msg s d payload) = eventual_id (descs s d)"
  "m_kind (call_msg s d payload) = d_kind (descs s d)"
  "m_size (call_msg s d payload) = d_size (descs s d)"
  "m_payload (call_msg s d payload) = payload"
  "m_ask_id (call_msg s d payload) = 0"
  by (simp_all add: call_msg_def make_msg_def ensure_id_desc)

lemma find_registered_cong:
  "same_tables s t \<Longrightarrow> find_registered i t = find_registered i s"
  by (simp add: find_registered_def same_tables_def)

lemma find_registered_ensure_id [simp]:
  "find_registered i (ipc_ensure_id d s) = find_registered i s"
  by (simp add: find_registered_def ensure_id_frame)

lemma prepare_registered_cmd_cases:
  "prepare_registered_cmd d payload s =
     (case d of
        None \<Rightarrow> (Inl (- EINVAL), s)
      | Some e \<Rightarrow>
          if d_kind (descs s e) \<noteq> IPC_CMD \<or> d_name (descs s e) = None then (Inl (- EINVAL), s)
          else (case find_registered (eventual_id (descs s e)) s of
                  None \<Rightarrow> (Inl (- ENOENT), ipc_ensure_id e s)
                | Some a \<Rightarrow>
                    if d_size (descs s e) > actor_max_payload_size (actors s a)
                    then (Inl (- EMSGSIZE), ipc_ensure_id e s)
                    else (Inr (a, call_msg s e payload), ipc_ensure_id e s)))"
  by (simp add: prepare_registered_cmd_def valid_descriptor_def ensure_id_desc ensure_id_frame
      call_msg_def Let_def split: option.splits)

text \<open>The route of a valid command.\<close>

definition cmd_route :: "('p, 'u) sys \<Rightarrow> dptr \<Rightarrow> aptr \<Rightarrow> bool" where
  "cmd_route s d a \<longleftrightarrow>
     d_kind (descs s d) = IPC_CMD \<and> d_name (descs s d) \<noteq> None
     \<and> find_registered (eventual_id (descs s d)) s = Some a"

text \<open>A send is a checked delivery to the route's actor, in the state with the ID set.\<close>

lemma ipc_send_raw_eq:
  fixes payload :: "u8 list option"
  assumes "cmd_route s d a"
  defines "s1 \<equiv> ipc_ensure_id d s" and "m \<equiv> call_msg s d payload"
  shows "ipc_send_raw P (Some d) payload s
       = (if m_size m > actor_max_payload_size (actors s1 a) then (- EMSGSIZE, s1)
          else apply_mailbox_overflow_policy a (ipc_port_send P a m s1))"
  using assms(1)
  by (auto simp: ipc_send_raw_def prepare_registered_cmd_cases cmd_route_def s1_def m_def frame_simps)

lemma ipc_publish_raw_eq:
  assumes "d_kind (descs s d) = IPC_EVENT" "d_name (descs s d) \<noteq> None"
  shows "ipc_publish_raw P (Some d) payload s
       = publish_loop (ipc_port_send P) (call_msg s d payload) (eventual_id (descs s d)) (subs s) 0
           (ipc_ensure_id d s)"
  using assms
  by (simp add: ipc_publish_raw_def publish_prepared_msg_def valid_descriptor_def ensure_id_desc
      ensure_id_frame call_msg_def make_msg_def Let_def)

context mailbox_port
begin

lemma send_raw_delivers:
  assumes "cmd_route s d a" "ready_in s a" "msg_readable (call_msg s d payload)"
  defines "r \<equiv> ipc_send_raw P (Some d) payload s" and "m \<equiv> call_msg s d payload"
    and "c \<equiv> delivery_code (actors s a) (queued s a) (call_msg s d payload)"
  shows "fst r = c"
    "mail (port_st (snd r)) b = mail (port_st s) b @ (if b = a then delivered c m else [])"
    "a_dropped_messages (actors (snd r) b)
       = a_dropped_messages (actors s b) + (if b = a then dropped c else 0)"
    "delivery_only (ipc_ensure_id d s) (snd r)"
    "ready (port_st s) b k \<Longrightarrow> ready (port_st (snd r)) b k"
  using deliver_checked [of "ipc_ensure_id d s" a "call_msg s d payload"] assms(2,3)
  unfolding r_def m_def c_def ipc_send_raw_eq [OF assms(1)]
  by (simp_all add: frame_simps)

lemma publish_raw_fans_out:
  assumes "d_kind (descs s d) = IPC_EVENT" "d_name (descs s d) \<noteq> None" "tables_inv s"
    and "\<forall>a \<in> set (subscribers (subs s) (eventual_id (descs s d))). ready_in s a"
    and "msg_readable (call_msg s d payload)"
  defines "r \<equiv> ipc_publish_raw P (Some d) payload s" and "m \<equiv> call_msg s d payload"
    and "to \<equiv> subscribers (subs s) (eventual_id (descs s d))"
  shows "fst r = first_nonzero (map (publish_code s m) to)"
    "mail (port_st (snd r)) b
       = mail (port_st s) b @ (if b \<in> set to then delivered (publish_code s m b) m else [])"
    "a_dropped_messages (actors (snd r) b)
       = a_dropped_messages (actors s b) + (if b \<in> set to then dropped (publish_code s m b) else 0)"
    "delivery_only (ipc_ensure_id d s) (snd r)"
proof -
  have dist: "distinct to"
    using distinct_subscribers tables_inv_unique_route [OF assms(3)] unfolding to_def by blast
  have code: "publish_code (ipc_ensure_id d s) m = publish_code s m"
    by (simp add: fun_eq_iff publish_code_def frame_simps)
  have rdy: "\<forall>a \<in> set to. ready_in (ipc_ensure_id d s) a"
    using assms(4) by (simp add: to_def frame_simps)
  note spec = publish_loop_spec [OF dist [unfolded to_def] assms(5) rdy [unfolded to_def],
      of 0, folded to_def m_def, unfolded code]
  show "fst r = first_nonzero (map (publish_code s m) to)"
    "mail (port_st (snd r)) b
       = mail (port_st s) b @ (if b \<in> set to then delivered (publish_code s m b) m else [])"
    "a_dropped_messages (actors (snd r) b)
       = a_dropped_messages (actors s b) + (if b \<in> set to then dropped (publish_code s m b) else 0)"
    "delivery_only (ipc_ensure_id d s) (snd r)"
    using spec unfolding r_def ipc_publish_raw_eq [OF assms(1,2)] to_def m_def
    by (simp_all add: frame_simps)
qed

lemma send_to_raw_delivers:
  assumes "d_kind (descs s d) \<in> {IPC_CMD, IPC_EVENT}" "lifecycle_state s = IPC_LIFECYCLE_RUNNING"
    and "d_id (descs s d) \<noteq> 0" "ready_in s a" "msg_readable (make_msg (descs s d) payload)"
  defines "r \<equiv> ipc_send_to_raw P (Some a) (Some d) payload s" and "m \<equiv> make_msg (descs s d) payload"
    and "c \<equiv> delivery_code (actors s a) (queued s a) (make_msg (descs s d) payload)"
  shows "fst r = c"
    "mail (port_st (snd r)) b = mail (port_st s) b @ (if b = a then delivered c m else [])"
    "delivery_only s (snd r)"
proof -
  have "r = (if m_size m > actor_max_payload_size (actors s a) then (- EMSGSIZE, s)
          else apply_mailbox_overflow_policy a (ipc_port_send P a m s))"
    using assms(1,2,3) unfolding r_def m_def
    by (auto simp: ipc_send_to_raw_def Let_def make_msg_def ipc_port_send_isr_same)
  then show "fst r = c"
    "mail (port_st (snd r)) b = mail (port_st s) b @ (if b = a then delivered c m else [])"
    "delivery_only s (snd r)"
    using deliver_checked [of s a "make_msg (descs s d) payload"] assms(4,5)
    unfolding c_def m_def by simp_all
qed

end

end
