(* ===== verification/Ipc_Ask.thy ===== *)
theory Ipc_Ask
  imports Ipc_Routing
begin

text \<open>
  Asks in \<^verbatim>\<open>src/ipc.c\<close>: the table of pending asks, the ID allocation, ask, cancel, reply, error
  reply and the expiry of a timeout.

  The code works on the table in critical sections (\<^verbatim>\<open>lock_asks\<close> .. \<^verbatim>\<open>unlock_asks\<close>) with port calls
  between them. Each section is a definition of its own (\<open>reserve_ask\<close>, \<open>clear_ask\<close>, \<open>cancel_section\<close>,
  \<open>reply_section\<close>, \<open>reply_error_section\<close>, \<open>expire_section\<close>, \<open>expire_undo_section\<close>), and the API
  functions compose them as the code does. A pointer into the table is an index.
  With \<^verbatim>\<open>IPC_CONFIG_ENABLE_ASK\<close> off, the API functions are the stubs that return \<^verbatim>\<open>-ENOSYS\<close>.
\<close>

section \<open>The table\<close>

definition find_pending_ask :: "u32 \<Rightarrow> ('p, 'u) sys \<Rightarrow> nat option" where
  "find_pending_ask ask_id s = first_index (\<lambda>q. q_used q \<and> q_ask_id q = ask_id) (ask_table s)"

definition alloc_pending_ask :: "('p, 'u) sys \<Rightarrow> nat option" where
  "alloc_pending_ask s = first_index (\<lambda>q. \<not> q_used q) (ask_table s)"

text \<open>
  The loop of \<^verbatim>\<open>alloc_ask_id\<close>: the counter is advanced past every candidate; 0 is skipped without
  being counted.
\<close>

function alloc_ask_id_loop :: "nat \<Rightarrow> ('p, 'u) sys \<Rightarrow> (int + u32) \<times> ('p, 'u) sys" where
  "alloc_ask_id_loop candidates_checked s =
     (if candidates_checked < IPC_CORE_MAX_INFLIGHT_QUERIES (conf s) then
        (let candidate = next_ask_id s; s1 = s\<lparr> next_ask_id := candidate + 1 \<rparr>
         in if candidate = 0 then alloc_ask_id_loop candidates_checked s1
            else if find_pending_ask candidate s1 = None then (Inr candidate, s1)
            else alloc_ask_id_loop (candidates_checked + 1) s1)
      else (Inl (- ENOMEM), s))"
  by pat_completeness auto

text \<open>It ends: after a 0 the next candidate is 1, and every other candidate is counted.\<close>

termination alloc_ask_id_loop
  by (relation "measures [\<lambda>(k, s). IPC_CORE_MAX_INFLIGHT_QUERIES (conf s) - k,
                          \<lambda>(k, s). if next_ask_id s = 0 then 1 else 0]") auto

declare alloc_ask_id_loop.simps [simp del]

definition alloc_ask_id :: "('p, 'u) sys \<Rightarrow> (int + u32) \<times> ('p, 'u) sys" where
  "alloc_ask_id s = alloc_ask_id_loop 0 s"

section \<open>Critical sections\<close>

abbreviation set_ask :: "nat \<Rightarrow> ipc_pending_ask_t \<Rightarrow> ('p, 'u) sys \<Rightarrow> ('p, 'u) sys" where
  "set_ask i q s \<equiv> s\<lparr> ask_table := (ask_table s)[i := q] \<rparr>"

definition reserve_ask ::
    "aptr \<Rightarrow> u32 \<Rightarrow> fnptr \<Rightarrow> u32 \<Rightarrow> u32 \<Rightarrow> ('p, 'u) sys \<Rightarrow> (int + u32) \<times> ('p, 'u) sys" where
  "reserve_ask self reply_id callback now_ms timeout_ms s =
     (case alloc_pending_ask s of
        None \<Rightarrow> (Inl (- ENOMEM), s)
      | Some i \<Rightarrow>
          (case alloc_ask_id s of
             (Inl rc, s1) \<Rightarrow> (Inl rc, s1)
           | (Inr ask_id, s1) \<Rightarrow>
               (Inr ask_id, set_ask i
                  \<lparr> q_used = True, q_reply_sent = False, q_timeout_queued = False,
                    q_ask_id = ask_id, q_reply_id = reply_id,
                    q_deadline_ms = (if timeout_ms > 0 then now_ms + timeout_ms else 0),
                    q_actor = self, q_callback = callback \<rparr> s1)))"

definition clear_ask :: "u32 \<Rightarrow> ('p, 'u) sys \<Rightarrow> ('p, 'u) sys" where
  "clear_ask ask_id s =
     (case find_pending_ask ask_id s of None \<Rightarrow> s | Some i \<Rightarrow> set_ask i zero_pending_ask s)"

definition cancel_section :: "aptr \<Rightarrow> u32 \<Rightarrow> ('p, 'u) sys \<Rightarrow> int \<times> ('p, 'u) sys" where
  "cancel_section self ask_id s =
     (case find_pending_ask ask_id s of
        None \<Rightarrow> (- ENOENT, s)
      | Some i \<Rightarrow>
          if q_actor (ask_table s ! i) \<noteq> self then (- ENOENT, s)
          else (0, set_ask i zero_pending_ask s))"

text \<open>
  The sections of a reply: an error, or the asking actor and the ID of the expected reply, with
  the ask marked as answered.
\<close>

definition reply_section ::
    "ipc_msg \<Rightarrow> ipc_msg_desc_t \<Rightarrow> ('p, 'u) sys \<Rightarrow> (int + aptr) \<times> ('p, 'u) sys" where
  "reply_section request desc s =
     (case find_pending_ask (m_ask_id request) s of
        None \<Rightarrow> (Inl (- ENOENT), s)
      | Some i \<Rightarrow>
          (let pending = ask_table s ! i
           in if q_reply_id pending \<noteq> d_id desc \<or> m_reply_id request \<noteq> d_id desc
              then (Inl (- EINVAL), s)
              else if q_reply_sent pending then (Inl (- EALREADY), s)
              else if d_size desc > actor_max_payload_size (actors s (q_actor pending))
              then (Inl (- EMSGSIZE), set_ask i zero_pending_ask s)
              else (Inr (q_actor pending), set_ask i (pending\<lparr> q_reply_sent := True \<rparr>) s)))"

definition reply_error_section ::
    "ipc_msg \<Rightarrow> ('p, 'u) sys \<Rightarrow> (int + aptr \<times> u32) \<times> ('p, 'u) sys" where
  "reply_error_section request s =
     (case find_pending_ask (m_ask_id request) s of
        None \<Rightarrow> (Inl (- ENOENT), s)
      | Some i \<Rightarrow>
          (let pending = ask_table s ! i
           in if q_reply_id pending \<noteq> m_reply_id request then (Inl (- EINVAL), s)
              else if q_reply_sent pending then (Inl (- EALREADY), s)
              else (Inr (q_actor pending, q_reply_id pending),
                    set_ask i (pending\<lparr> q_reply_sent := True \<rparr>) s)))"

definition expire_section :: "aptr \<Rightarrow> u32 \<Rightarrow> ('p, 'u) sys \<Rightarrow> bool \<times> ('p, 'u) sys" where
  "expire_section actor ask_id s =
     (case find_pending_ask ask_id s of
        None \<Rightarrow> (False, s)
      | Some i \<Rightarrow>
          (let pending = ask_table s ! i
           in if q_actor pending \<noteq> actor \<or> q_timeout_queued pending then (False, s)
              else (True, set_ask i
                      (pending\<lparr> q_reply_sent := True, q_timeout_queued := True \<rparr>) s)))"

definition expire_undo_section :: "aptr \<Rightarrow> u32 \<Rightarrow> ('p, 'u) sys \<Rightarrow> ('p, 'u) sys" where
  "expire_undo_section actor ask_id s =
     (case find_pending_ask ask_id s of
        None \<Rightarrow> s
      | Some i \<Rightarrow>
          (let pending = ask_table s ! i
           in if q_actor pending = actor
              then set_ask i (pending\<lparr> q_reply_sent := False, q_timeout_queued := False \<rparr>) s
              else s))"

section \<open>The API\<close>

text \<open>The result is the return code, the value written to \<^verbatim>\<open>*ask_id_out\<close>, and the state.\<close>

definition ipc_ask_with_id_raw ::
    "'p port_ops \<Rightarrow> aptr option \<Rightarrow> dptr option \<Rightarrow> u8 list option \<Rightarrow> dptr option \<Rightarrow> fnptr option
     \<Rightarrow> u32 \<Rightarrow> ('p, 'u) sys \<Rightarrow> int \<times> u32 \<times> ('p, 'u) sys" where
  "ipc_ask_with_id_raw P self request payload reply callback timeout_ms s =
     (if \<not> IPC_CONFIG_ENABLE_ASK (conf s) then (- ENOSYS, 0, s)
      else if self = None \<or> callback = None \<or> \<not> valid_descriptor request IPC_CMD s
              \<or> \<not> valid_descriptor reply IPC_CMD s then (- EINVAL, 0, s)
      else
        (case prepare_registered_cmd request payload s of
           (Inl rc, s1) \<Rightarrow> (rc, 0, s1)
         | (Inr (target, msg), s1) \<Rightarrow>
             (let s2 = ipc_ensure_id (the reply) s1; reply_desc = descs s2 (the reply)
              in if d_size reply_desc > actor_max_payload_size (actors s2 (the self))
                 then (- EMSGSIZE, 0, s2)
                 else
                   (case reserve_ask (the self) (d_id reply_desc) (the callback)
                           (port_now_ms P (port_st s2)) timeout_ms s2 of
                      (Inl rc, s3) \<Rightarrow> (rc, 0, s3)
                    | (Inr ask_id, s3) \<Rightarrow>
                        (case (if timeout_ms > 0
                               then ipc_port_schedule_ask_timeout P (the self) ask_id timeout_ms s3
                               else (0, s3)) of
                           (rc, s4) \<Rightarrow>
                             if rc \<noteq> 0 then (rc, 0, clear_ask ask_id s4)
                             else
                               (case apply_mailbox_overflow_policy target
                                       (ipc_port_send P target
                                         (msg\<lparr> m_ask_id := ask_id, m_reply_id := d_id reply_desc \<rparr>)
                                         s4) of
                                  (rc, s5) \<Rightarrow>
                                    if rc \<noteq> 0 then (rc, 0, clear_ask ask_id s5)
                                    else (0, ask_id, s5)))))))"

definition ipc_ask_raw ::
    "'p port_ops \<Rightarrow> aptr option \<Rightarrow> dptr option \<Rightarrow> u8 list option \<Rightarrow> dptr option \<Rightarrow> fnptr option
     \<Rightarrow> u32 \<Rightarrow> ('p, 'u) sys \<Rightarrow> int \<times> ('p, 'u) sys" where
  "ipc_ask_raw P self request payload reply callback timeout_ms s =
     (case ipc_ask_with_id_raw P self request payload reply callback timeout_ms s of
        (rc, _, t) \<Rightarrow> (rc, t))"

definition ipc_ask_cancel :: "aptr option \<Rightarrow> u32 \<Rightarrow> ('p, 'u) sys \<Rightarrow> int \<times> ('p, 'u) sys" where
  "ipc_ask_cancel self ask_id s =
     (if \<not> IPC_CONFIG_ENABLE_ASK (conf s) then (- ENOSYS, s)
      else if self = None \<or> ask_id = 0 then (- EINVAL, s)
      else if lifecycle_state s \<noteq> IPC_LIFECYCLE_RUNNING then (- EPERM, s)
      else cancel_section (the self) ask_id s)"

definition ipc_reply_raw ::
    "'p port_ops \<Rightarrow> ipc_msg option \<Rightarrow> dptr option \<Rightarrow> u8 list option \<Rightarrow> ('p, 'u) sys
     \<Rightarrow> int \<times> ('p, 'u) sys" where
  "ipc_reply_raw P request reply payload s =
     (if \<not> IPC_CONFIG_ENABLE_ASK (conf s) then (- ENOSYS, s)
      else
        (case request of
           None \<Rightarrow> (- EINVAL, s)
         | Some req \<Rightarrow>
             if m_ask_id req = 0 \<or> \<not> valid_descriptor reply IPC_CMD s then (- EINVAL, s)
             else
               (let s1 = ipc_ensure_id (the reply) s; desc = descs s1 (the reply)
                in case reply_section req desc s1 of
                     (Inl rc, s2) \<Rightarrow> (rc, s2)
                   | (Inr target, s2) \<Rightarrow>
                       (case apply_mailbox_overflow_policy target
                               (ipc_port_send P target
                                 ((make_msg desc payload)\<lparr> m_ask_id := m_ask_id req \<rparr>) s2) of
                          (rc, s3) \<Rightarrow>
                            (rc, if rc \<noteq> 0 then clear_ask (m_ask_id req) s3 else s3)))))"

definition reply_error_msg :: "u32 \<Rightarrow> u32 \<Rightarrow> int \<Rightarrow> ipc_msg" where
  "reply_error_msg reply_id ask_id result =
     \<lparr> m_id = reply_id, m_kind = IPC_CMD, m_size = 0, m_payload = None, m_ask_id = ask_id,
       m_reply_id = 0, m_result = result \<rparr>"

definition ipc_reply_error_raw ::
    "'p port_ops \<Rightarrow> ipc_msg option \<Rightarrow> int \<Rightarrow> ('p, 'u) sys \<Rightarrow> int \<times> ('p, 'u) sys" where
  "ipc_reply_error_raw P request result s =
     (if \<not> IPC_CONFIG_ENABLE_ASK (conf s) then (- ENOSYS, s)
      else
        (case request of
           None \<Rightarrow> (- EINVAL, s)
         | Some req \<Rightarrow>
             if m_ask_id req = 0 \<or> m_reply_id req = 0 \<or> result = 0 then (- EINVAL, s)
             else
               (case reply_error_section req s of
                  (Inl rc, s1) \<Rightarrow> (rc, s1)
                | (Inr (target, reply_id), s1) \<Rightarrow>
                    (case ipc_port_send P target
                            (reply_error_msg reply_id (m_ask_id req) result) s1 of
                       (rc, s2) \<Rightarrow>
                         (rc, if rc \<noteq> 0 then clear_ask (m_ask_id req) s2 else s2)))))"

definition timeout_msg :: "u32 \<Rightarrow> ipc_msg" where
  "timeout_msg ask_id =
     \<lparr> m_id = ipc_ask_timeout_msg_id, m_kind = IPC_CMD, m_size = 0, m_payload = None,
       m_ask_id = ask_id, m_reply_id = 0, m_result = - ETIMEDOUT \<rparr>"

definition ipc_ask_timeout_expired ::
    "'p port_ops \<Rightarrow> aptr \<Rightarrow> u32 \<Rightarrow> ('p, 'u) sys \<Rightarrow> ('p, 'u) sys" where
  "ipc_ask_timeout_expired P actor ask_id s =
     (if \<not> IPC_CONFIG_ENABLE_ASK (conf s) then s
      else
        (case expire_section actor ask_id s of
           (False, s1) \<Rightarrow> s1
         | (True, s1) \<Rightarrow>
             (case ipc_port_send P actor (timeout_msg ask_id) s1 of
                (rc, s2) \<Rightarrow> if rc \<noteq> 0 then expire_undo_section actor ask_id s2 else s2)))"

section \<open>Invariant\<close>

text \<open>
  Every pending ask has its own nonzero ID; a queued timeout blocks replies; a free entry is all
  zero.
\<close>

definition ask_inv :: "('p, 'u) sys \<Rightarrow> bool" where
  "ask_inv s \<longleftrightarrow>
     length (ask_table s) = IPC_CORE_MAX_INFLIGHT_QUERIES (conf s)
     \<and> (\<forall>q \<in> set (ask_table s).
          if q_used q then q_ask_id q \<noteq> 0 \<and> (q_timeout_queued q \<longrightarrow> q_reply_sent q)
          else q = zero_pending_ask)
     \<and> (\<forall>i < length (ask_table s). \<forall>j < length (ask_table s).
          q_used (ask_table s ! i) \<and> q_used (ask_table s ! j)
          \<and> q_ask_id (ask_table s ! i) = q_ask_id (ask_table s ! j) \<longrightarrow> i = j)"

lemma ask_inv_initial: "ask_inv (ipc_initial c as ds p u)"
  by (simp add: ask_inv_def ipc_initial_def)

lemma ask_inv_length: "ask_inv s \<Longrightarrow> length (ask_table s) = IPC_CORE_MAX_INFLIGHT_QUERIES (conf s)"
  unfolding ask_inv_def by blast

lemma ask_inv_unique:
  "ask_inv s \<Longrightarrow> i < length (ask_table s) \<Longrightarrow> j < length (ask_table s) \<Longrightarrow>
   q_used (ask_table s ! i) \<Longrightarrow> q_used (ask_table s ! j) \<Longrightarrow>
   q_ask_id (ask_table s ! i) = q_ask_id (ask_table s ! j) \<Longrightarrow> i = j"
  unfolding ask_inv_def by blast

lemma ask_inv_entry:
  "ask_inv s \<Longrightarrow> q \<in> set (ask_table s) \<Longrightarrow>
     (if q_used q then q_ask_id q \<noteq> 0 \<and> (q_timeout_queued q \<longrightarrow> q_reply_sent q)
      else q = zero_pending_ask)"
  unfolding ask_inv_def by blast

lemma ask_inv_cong: "conf t = conf s \<Longrightarrow> ask_table t = ask_table s \<Longrightarrow> ask_inv t \<longleftrightarrow> ask_inv s"
  by (simp add: ask_inv_def)

definition pending_at :: "('p, 'u) sys \<Rightarrow> u32 \<Rightarrow> nat \<Rightarrow> bool" where
  "pending_at s ask_id i \<longleftrightarrow>
     i < length (ask_table s) \<and> q_used (ask_table s ! i) \<and> q_ask_id (ask_table s ! i) = ask_id"

lemma pending_at_set_ask:
  "pending_at (set_ask i q s) n j \<longleftrightarrow>
     (if j = i then i < length (ask_table s) \<and> q_used q \<and> q_ask_id q = n else pending_at s n j)"
  by (auto simp: pending_at_def)

lemma find_pending_ask_SomeD:
  "find_pending_ask ask_id s = Some i \<Longrightarrow> pending_at s ask_id i"
  by (auto simp: find_pending_ask_def pending_at_def dest: first_index_SomeD)

lemma find_pending_ask_iff:
  assumes "ask_inv s"
  shows "find_pending_ask ask_id s = Some i \<longleftrightarrow> pending_at s ask_id i"
proof
  assume "pending_at s ask_id i"
  then show "find_pending_ask ask_id s = Some i"
    unfolding find_pending_ask_def pending_at_def
    by (intro first_index_unique) (auto intro: ask_inv_unique [OF assms])
qed (rule find_pending_ask_SomeD)

definition used_ids :: "('p, 'u) sys \<Rightarrow> u32 set" where
  "used_ids s = q_ask_id ` {q \<in> set (ask_table s). q_used q}"

lemma find_pending_ask_None: "find_pending_ask ask_id s = None \<longleftrightarrow> ask_id \<notin> used_ids s"
  by (auto simp: find_pending_ask_def first_index_None_iff used_ids_def)

text \<open>Writing one entry keeps the invariant when the entry is well formed and its ID is its own.\<close>

lemma ask_inv_set_ask:
  assumes "ask_inv s" "i < length (ask_table s)"
    and entry: "if q_used q then q_ask_id q \<noteq> 0 \<and> (q_timeout_queued q \<longrightarrow> q_reply_sent q)
                else q = zero_pending_ask"
    and own: "\<And>j. q_used q \<Longrightarrow> j < length (ask_table s) \<Longrightarrow> j \<noteq> i \<Longrightarrow> q_used (ask_table s ! j) \<Longrightarrow>
      q_ask_id (ask_table s ! j) \<noteq> q_ask_id q"
  shows "ask_inv (set_ask i q s)"
proof -
  have "if q_used r then q_ask_id r \<noteq> 0 \<and> (q_timeout_queued r \<longrightarrow> q_reply_sent r)
        else r = zero_pending_ask" if "r \<in> set ((ask_table s)[i := q])" for r
    using set_list_update_cases [OF that] entry ask_inv_entry [OF assms(1)] by blast
  moreover have "j = k" if "j < length (ask_table s)" "k < length (ask_table s)"
    "q_used ((ask_table s)[i := q] ! j)" "q_used ((ask_table s)[i := q] ! k)"
    "q_ask_id ((ask_table s)[i := q] ! j) = q_ask_id ((ask_table s)[i := q] ! k)" for j k
    using that own [of j] own [of k] ask_inv_unique [OF assms(1), of j k]
    by (auto simp: nth_list_update [OF assms(2)] split: if_splits)
  ultimately show ?thesis
    using ask_inv_length [OF assms(1)] unfolding ask_inv_def by simp
qed

lemma ask_inv_clear_at:
  "ask_inv s \<Longrightarrow> i < length (ask_table s) \<Longrightarrow> ask_inv (set_ask i zero_pending_ask s)"
  by (rule ask_inv_set_ask) simp_all

lemma ask_inv_mark:
  assumes "ask_inv s" "pending_at s ask_id i" "q_used q" "q_ask_id q = ask_id"
    "q_timeout_queued q \<longrightarrow> q_reply_sent q"
  shows "ask_inv (set_ask i q s)"
proof (rule ask_inv_set_ask [OF assms(1)])
  show "i < length (ask_table s)" using assms(2) by (simp add: pending_at_def)
  then show "if q_used q then q_ask_id q \<noteq> 0 \<and> (q_timeout_queued q \<longrightarrow> q_reply_sent q)
      else q = zero_pending_ask"
    using ask_inv_entry [OF assms(1), of "ask_table s ! i"] assms(2-5)
    by (auto simp: pending_at_def)
  show "q_ask_id (ask_table s ! j) \<noteq> q_ask_id q"
    if "j < length (ask_table s)" "j \<noteq> i" "q_used (ask_table s ! j)" for j
    using ask_inv_unique [OF assms(1) that(1), of i] that assms(2,4) by (auto simp: pending_at_def)
qed

section \<open>ID allocation\<close>

lemma card_used_ids:
  assumes "alloc_pending_ask s = Some i"
  shows "card (used_ids s) < length (ask_table s)"
proof -
  from first_index_SomeD assms have i: "i < length (ask_table s)" "\<not> q_used (ask_table s ! i)"
    by (fastforce simp: alloc_pending_ask_def)+
  have "card (used_ids s) \<le> card (set (filter q_used (ask_table s)))"
    unfolding used_ids_def by (simp add: card_image_le)
  also have "\<dots> \<le> length (filter q_used (ask_table s))" by (rule card_length)
  also have "\<dots> < length (ask_table s)"
    using i by (intro length_filter_less [of "ask_table s ! i"]) simp_all
  finally show ?thesis .
qed

lemma finite_used_ids [simp]: "finite (used_ids s)"
  by (simp add: used_ids_def)

lemma used_ids_next [simp]: "used_ids (s\<lparr> next_ask_id := n \<rparr>) = used_ids s"
  by (simp add: used_ids_def)

text \<open>
  The values the counter went through: \<open>walked c t\<close> are the \<open>t\<close> values from \<open>c\<close>, distinct as long as
  \<open>t \<le> 2 ^ 32\<close>. The loop has counted exactly the nonzero ones, all of them in use.
\<close>

definition walked :: "u32 \<Rightarrow> nat \<Rightarrow> u32 set" where
  "walked c t = (\<lambda>j. c + of_nat j) ` {..<t}"

lemma walked_Suc: "walked c (Suc t) = insert (c + of_nat t) (walked c t)"
  by (simp add: walked_def lessThan_Suc)

lemma walked_new: "t < 2 ^ 32 \<Longrightarrow> c + of_nat t \<notin> walked c t"
proof
  assume t: "t < 2 ^ 32" and "c + of_nat t \<in> walked c t"
  then obtain j where j: "j < t" "(of_nat t :: u32) = of_nat j" by (auto simp: walked_def)
  then have "unat (of_nat t :: u32) = unat (of_nat j :: u32)" by simp
  with t j(1) show False by (simp add: unsigned_of_nat take_bit_nat_eq_self)
qed

lemma alloc_ask_id_loop_succeeds:
  assumes "next_ask_id s = c + of_nat t" "walked c t - {0} \<subseteq> used_ids s"
    and "card (walked c t - {0}) = k" "t \<le> k + (if 0 \<in> walked c t then 1 else 0)"
    and "card (used_ids s) < IPC_CORE_MAX_INFLIGHT_QUERIES (conf s)"
    and "IPC_CORE_MAX_INFLIGHT_QUERIES (conf s) < 2 ^ 32"
  shows "\<exists>i. alloc_ask_id_loop k s = (Inr i, s\<lparr> next_ask_id := i + 1 \<rparr>)
    \<and> i \<noteq> 0 \<and> i \<notin> used_ids s"
  using assms
proof (induction k s arbitrary: t rule: alloc_ask_id_loop.induct)
  case (1 k s)
  let ?n = "next_ask_id s" and ?s1 = "s\<lparr> next_ask_id := next_ask_id s + 1 \<rparr>"
  have fin: "finite (walked c t)" by (simp add: walked_def)
  have "k \<le> card (used_ids s)" using 1(4,5) card_mono [OF finite_used_ids 1(4)] by simp
  then have k: "k < IPC_CORE_MAX_INFLIGHT_QUERIES (conf s)" using 1(7) by simp
  have t: "t < 2 ^ 32" using 1(6,8) k by (simp split: if_splits)
  have new: "?n \<notin> walked c t" using walked_new [OF t] 1(3) by simp
  have walk: "walked c (Suc t) = insert ?n (walked c t)" using 1(3) by (simp add: walked_Suc)
  consider "?n = 0" | "?n \<noteq> 0" "?n \<notin> used_ids s" | "?n \<noteq> 0" "?n \<in> used_ids s" by blast
  then show ?case
  proof cases
    case 1
    have "\<exists>i. alloc_ask_id_loop k ?s1 = (Inr i, ?s1\<lparr> next_ask_id := i + 1 \<rparr>)
        \<and> i \<noteq> 0 \<and> i \<notin> used_ids ?s1"
      by (rule "1.IH"(1) [OF k refl refl 1, of "Suc t"])
         (use 1 new "1.prems" in \<open>simp_all add: walk add.commute\<close>)
    then show ?thesis using k 1 by (subst alloc_ask_id_loop.simps) simp
  next
    case 2
    then have "find_pending_ask ?n ?s1 = None" by (simp add: find_pending_ask_None)
    then have "alloc_ask_id_loop k s = (Inr ?n, ?s1)"
      using k 2 by (subst alloc_ask_id_loop.simps) (simp add: Let_def)
    then show ?thesis using 2 by blast
  next
    case 3
    then have used: "find_pending_ask ?n ?s1 \<noteq> None" by (simp add: find_pending_ask_None)
    have card: "card (insert ?n (walked c t) - {0}) = k + 1"
      using 3(1) new fin "1.prems"(3) by (simp add: insert_Diff_if)
    have "\<exists>i. alloc_ask_id_loop (k + 1) ?s1 = (Inr i, ?s1\<lparr> next_ask_id := i + 1 \<rparr>)
        \<and> i \<noteq> 0 \<and> i \<notin> used_ids ?s1"
      by (rule "1.IH"(2) [OF k refl refl 3(1) used, of "Suc t"])
         (use 3 card "1.prems" in \<open>auto simp: walk add.commute split: if_splits\<close>)
    then show ?thesis using k 3 used by (subst alloc_ask_id_loop.simps) (simp add: Let_def)
  qed
qed

lemma alloc_ask_id_succeeds:
  assumes "ask_inv s" "alloc_pending_ask s = Some i"
    and "IPC_CORE_MAX_INFLIGHT_QUERIES (conf s) < 2 ^ 32"
  obtains n where "alloc_ask_id s = (Inr n, s\<lparr> next_ask_id := n + 1 \<rparr>)" "n \<noteq> 0" "n \<notin> used_ids s"
proof -
  have "\<exists>n. alloc_ask_id_loop 0 s = (Inr n, s\<lparr> next_ask_id := n + 1 \<rparr>) \<and> n \<noteq> 0 \<and> n \<notin> used_ids s"
    by (rule alloc_ask_id_loop_succeeds [where c = "next_ask_id s" and t = 0])
       (use assms card_used_ids [OF assms(2)] ask_inv_length [OF assms(1)] in
         \<open>simp_all add: walked_def\<close>)
  then show ?thesis using that by (auto simp: alloc_ask_id_def)
qed

section \<open>What the sections do\<close>

text \<open>\<open>other_asks s t\<close>: the tables are outside this equality; everything else an ask reads is kept.\<close>

definition pending_entry :: "aptr \<Rightarrow> u32 \<Rightarrow> fnptr \<Rightarrow> u32 \<Rightarrow> u32 \<Rightarrow> ipc_pending_ask_t" where
  "pending_entry self reply_id callback deadline ask_id =
     \<lparr> q_used = True, q_reply_sent = False, q_timeout_queued = False, q_ask_id = ask_id,
       q_reply_id = reply_id, q_deadline_ms = deadline, q_actor = self, q_callback = callback \<rparr>"

lemma reserve_ask_full:
  "alloc_pending_ask s = None \<Longrightarrow>
   reserve_ask self reply_id callback now_ms timeout_ms s = (Inl (- ENOMEM), s)"
  by (simp add: reserve_ask_def)

lemma reserve_ask_succeeds:
  assumes "ask_inv s" "alloc_pending_ask s = Some i"
    and "IPC_CORE_MAX_INFLIGHT_QUERIES (conf s) < 2 ^ 32"
  obtains n where
    "reserve_ask self reply_id callback now_ms timeout_ms s
       = (Inr n, set_ask i (pending_entry self reply_id callback
            (if timeout_ms > 0 then now_ms + timeout_ms else 0) n) (s\<lparr> next_ask_id := n + 1 \<rparr>))"
    "n \<noteq> 0" "n \<notin> used_ids s"
proof -
  obtain n where n: "alloc_ask_id s = (Inr n, s\<lparr> next_ask_id := n + 1 \<rparr>)" "n \<noteq> 0" "n \<notin> used_ids s"
    using alloc_ask_id_succeeds [OF assms] .
  show ?thesis
    by (rule that [of n]) (simp_all add: n assms(2) reserve_ask_def pending_entry_def)
qed

lemma alloc_pending_ask_SomeD:
  assumes "ask_inv s" "alloc_pending_ask s = Some i"
  shows "i < length (ask_table s)" "ask_table s ! i = zero_pending_ask"
proof -
  from first_index_SomeD [OF assms(2) [unfolded alloc_pending_ask_def]]
  show i: "i < length (ask_table s)" by blast
  from first_index_SomeD [OF assms(2) [unfolded alloc_pending_ask_def]]
  have "\<not> q_used (ask_table s ! i)" by blast
  then show "ask_table s ! i = zero_pending_ask"
    using ask_inv_entry [OF assms(1) nth_mem [OF i]] by simp
qed

lemma ask_inv_reserved:
  assumes "ask_inv s" "i < length (ask_table s)" "n \<noteq> 0" "n \<notin> used_ids s"
  shows "ask_inv (set_ask i (pending_entry self reply_id callback deadline n)
           (s\<lparr> next_ask_id := k \<rparr>))"
proof (rule ask_inv_set_ask)
  show "ask_inv (s\<lparr> next_ask_id := k \<rparr>)"
    using assms(1) by (simp add: ask_inv_cong [of "s\<lparr> next_ask_id := k \<rparr>" s])
qed (use assms(2-4) in \<open>auto simp: pending_entry_def used_ids_def\<close>)

text \<open>Clearing the entry that was just reserved restores the table.\<close>

lemma pending_at_cong: "ask_table t = ask_table s \<Longrightarrow> pending_at t n i \<longleftrightarrow> pending_at s n i"
  by (simp add: pending_at_def)

lemma clear_ask_at:
  assumes "ask_inv s" "pending_at s n i"
  shows "clear_ask n s = set_ask i zero_pending_ask s"
  using find_pending_ask_iff [OF assms(1), THEN iffD2, OF assms(2)] by (simp add: clear_ask_def)

lemma clear_reserved:
  assumes "ask_inv s" "ask_table t = (ask_table s)[i := pending_entry self reply_id callback deadline n]"
    and "conf t = conf s" "i < length (ask_table s)" "ask_table s ! i = zero_pending_ask"
    and "n \<noteq> 0" "n \<notin> used_ids s"
  shows "ask_table (clear_ask n t) = ask_table s"
proof -
  let ?u = "set_ask i (pending_entry self reply_id callback deadline n) (s\<lparr> next_ask_id := 0 \<rparr>)"
  have "ask_inv t"
    using ask_inv_reserved [OF assms(1,4,6,7), where self = self and reply_id = reply_id
        and callback = callback and deadline = deadline and k = 0]
      ask_inv_cong [of t ?u] assms(2,3) by simp
  moreover have "pending_at t n i"
    using assms(2,4) by (simp add: pending_at_def pending_entry_def)
  ultimately have "clear_ask n t = set_ask i zero_pending_ask t" by (rule clear_ask_at)
  then show ?thesis using assms(2,5) by simp (metis list_update_id)
qed

lemma clear_ask_frame [frame_simps]:
  "conf (clear_ask n s) = conf s" "actors (clear_ask n s) = actors s"
  "descs (clear_ask n s) = descs s" "port_st (clear_ask n s) = port_st s"
  "next_ask_id (clear_ask n s) = next_ask_id s"
  by (simp_all add: clear_ask_def split: option.splits)

lemma clear_ask_inv: "ask_inv s \<Longrightarrow> ask_inv (clear_ask n s)"
  by (simp add: clear_ask_def split: option.split)
     (auto simp: pending_at_def intro!: ask_inv_clear_at dest!: find_pending_ask_SomeD)

section \<open>What an ask does\<close>

text \<open>
  After the entry is reserved, the rest of the call keeps it or clears it. \<open>ask_tail\<close> is that rest,
  from the scheduling of the timeout on.
\<close>

definition ask_tail ::
    "'p port_ops \<Rightarrow> aptr \<Rightarrow> u32 \<Rightarrow> aptr \<Rightarrow> ipc_msg \<Rightarrow> u32 \<Rightarrow> ('p, 'u) sys \<Rightarrow> int \<times> u32 \<times> ('p, 'u) sys" where
  "ask_tail P self timeout_ms target msg ask_id s3 =
     (case (if timeout_ms > 0
            then ipc_port_schedule_ask_timeout P self ask_id timeout_ms s3 else (0, s3)) of
        (rc, s4) \<Rightarrow>
          if rc \<noteq> 0 then (rc, 0, clear_ask ask_id s4)
          else
            (case apply_mailbox_overflow_policy target (ipc_port_send P target msg s4) of
               (rc, s5) \<Rightarrow> if rc \<noteq> 0 then (rc, 0, clear_ask ask_id s5) else (0, ask_id, s5)))"

definition ask_request :: "('p, 'u) sys \<Rightarrow> dptr \<Rightarrow> dptr \<Rightarrow> u8 list option \<Rightarrow> u32 \<Rightarrow> ipc_msg" where
  "ask_request s rq rp payload ask_id =
     (call_msg s rq payload)
       \<lparr> m_ask_id := ask_id, m_reply_id := eventual_id (descs (ipc_ensure_id rq s) rp) \<rparr>"

lemma ipc_ask_with_id_raw_tail:
  assumes "IPC_CONFIG_ENABLE_ASK (conf s)" "cmd_route s rq target"
    and "d_kind (descs s rp) = IPC_CMD" "d_name (descs s rp) \<noteq> None"
    and "d_size (descs s rq) \<le> actor_max_payload_size (actors s target)"
    and "d_size (descs s rp) \<le> actor_max_payload_size (actors s self)"
  defines "s2 \<equiv> ipc_ensure_id rp (ipc_ensure_id rq s)"
    and "reply_id \<equiv> eventual_id (descs (ipc_ensure_id rq s) rp)"
  shows "ipc_ask_with_id_raw P (Some self) (Some rq) payload (Some rp) (Some cb) timeout_ms s
    = (case reserve_ask self reply_id cb (port_now_ms P (port_st s)) timeout_ms s2 of
         (Inl rc, s3) \<Rightarrow> (rc, 0, s3)
       | (Inr ask_id, s3) \<Rightarrow>
           ask_tail P self timeout_ms target (ask_request s rq rp payload ask_id) ask_id s3)"
  using assms(1-6)
  by (auto simp: ipc_ask_with_id_raw_def prepare_registered_cmd_cases cmd_route_def
      valid_descriptor_def ensure_id_desc frame_simps ask_tail_def ask_request_def s2_def
      reply_id_def Let_def split: sum.splits prod.splits)

lemma ask_tail_frame:
  assumes "ask_tail P self timeout_ms target msg n s = (rc, out, t)"
  shows "if rc = 0 then out = n \<and> ask_table t = ask_table s
         else out = 0 \<and> (\<exists>u. ask_table u = ask_table s \<and> conf u = conf s \<and> t = clear_ask n u)"
    "conf t = conf s"
proof -
  define sched where "sched = (if timeout_ms > 0
    then ipc_port_schedule_ask_timeout P self n timeout_ms s else (0, s))"
  obtain rc4 s4 where s4: "sched = (rc4, s4)" by (cases sched)
  have f4: "ask_table s4 = ask_table s" "conf s4 = conf s"
    using s4 ipc_port_schedule_frame(1,9) [of P self n timeout_ms s]
    by (auto simp: sched_def split: if_splits)
  obtain rc5 s5 where s5: "apply_mailbox_overflow_policy target (ipc_port_send P target msg s4) = (rc5, s5)"
    by (cases "apply_mailbox_overflow_policy target (ipc_port_send P target msg s4)")
  have f5: "ask_table s5 = ask_table s" "conf s5 = conf s"
    using delivery_only_fields(1,7) [OF delivery_only_send [of s4 target P msg]] s5 f4 by simp_all
  have eq: "ask_tail P self timeout_ms target msg n s
      = (if rc4 \<noteq> 0 then (rc4, 0, clear_ask n s4)
         else if rc5 \<noteq> 0 then (rc5, 0, clear_ask n s5) else (0, n, s5))"
    using s4 s5 unfolding ask_tail_def sched_def by simp
  show "if rc = 0 then out = n \<and> ask_table t = ask_table s
         else out = 0 \<and> (\<exists>u. ask_table u = ask_table s \<and> conf u = conf s \<and> t = clear_ask n u)"
    using assms f4 f5 unfolding eq by (auto split: if_splits)
  show "conf t = conf s" using assms f4 f5 unfolding eq by (auto split: if_splits simp: frame_simps)
qed

text \<open>
  The conditions of an ask that gets as far as the table: the API's argument and route checks.
\<close>

definition ask_accepted :: "aptr \<Rightarrow> dptr \<Rightarrow> dptr \<Rightarrow> aptr \<Rightarrow> ('p, 'u) sys \<Rightarrow> bool" where
  "ask_accepted self rq rp target s \<longleftrightarrow>
     IPC_CONFIG_ENABLE_ASK (conf s) \<and> cmd_route s rq target
     \<and> d_kind (descs s rp) = IPC_CMD \<and> d_name (descs s rp) \<noteq> None
     \<and> d_size (descs s rq) \<le> actor_max_payload_size (actors s target)
     \<and> d_size (descs s rp) \<le> actor_max_payload_size (actors s self)"

lemma ask_rejected:
  assumes "\<And>target. \<not> ask_accepted self rq rp target s"
    "ipc_ask_with_id_raw P (Some self) (Some rq) payload (Some rp) (Some cb) timeout_ms s = (rc, out, t)"
  shows "rc \<noteq> 0" "out = 0" "ask_table t = ask_table s" "conf t = conf s"
proof -
  have "rc \<noteq> 0 \<and> out = 0 \<and> ask_table t = ask_table s \<and> conf t = conf s"
    using assms(1) [of "the (find_registered (eventual_id (descs s rq)) s)"] assms(2)
    by (auto simp: ipc_ask_with_id_raw_def prepare_registered_cmd_cases cmd_route_def ask_accepted_def
        valid_descriptor_def ensure_id_desc frame_simps Let_def split: option.splits if_splits)
  then show "rc \<noteq> 0" "out = 0" "ask_table t = ask_table s" "conf t = conf s" by blast+
qed

lemma ipc_ask_outcome:
  assumes "ask_inv s" "IPC_CORE_MAX_INFLIGHT_QUERIES (conf s) < 2 ^ 32"
    and ask: "ipc_ask_with_id_raw P (Some self) (Some rq) payload (Some rp) (Some cb) timeout_ms s
      = (rc, out, t)"
  shows "if rc \<noteq> 0 then out = 0 \<and> ask_table t = ask_table s \<and> ask_inv t
    else out \<noteq> 0 \<and> out \<notin> used_ids s \<and> ask_inv t
      \<and> (\<exists>i deadline. alloc_pending_ask s = Some i
          \<and> ask_table t = (ask_table s)[i := pending_entry self
              (eventual_id (descs (ipc_ensure_id rq s) rp)) cb deadline out])"
proof (cases "\<exists>target. ask_accepted self rq rp target s")
  case False
  then show ?thesis
    using ask_rejected [OF _ ask] assms(1) ask_inv_cong [of t s] by auto
next
  case True
  then obtain target where acc: "ask_accepted self rq rp target s" by blast
  let ?s2 = "ipc_ensure_id rp (ipc_ensure_id rq s)"
  let ?rid = "eventual_id (descs (ipc_ensure_id rq s) rp)"
  let ?now = "port_now_ms P (port_st s)"
  let ?dl = "if timeout_ms > 0 then ?now + timeout_ms else 0"
  have f2: "conf ?s2 = conf s" "ask_table ?s2 = ask_table s" by (simp_all add: frame_simps)
  then have inv2: "ask_inv ?s2" "used_ids ?s2 = used_ids s"
    "alloc_pending_ask ?s2 = alloc_pending_ask s"
    using assms(1) ask_inv_cong [of ?s2 s] by (simp_all add: used_ids_def alloc_pending_ask_def)
  from acc have eq: "ipc_ask_with_id_raw P (Some self) (Some rq) payload (Some rp) (Some cb) timeout_ms s
      = (case reserve_ask self ?rid cb ?now timeout_ms ?s2 of
           (Inl rc, s3) \<Rightarrow> (rc, 0, s3)
         | (Inr n, s3) \<Rightarrow> ask_tail P self timeout_ms target (ask_request s rq rp payload n) n s3)"
    by (intro ipc_ask_with_id_raw_tail) (simp_all add: ask_accepted_def)
  show ?thesis
  proof (cases "alloc_pending_ask s")
    case None
    with inv2 have "(rc, out, t) = (- ENOMEM, 0, ?s2)"
      using ask eq by (simp add: reserve_ask_full)
    then show ?thesis using inv2(1) f2 by simp
  next
    case (Some i)
    note i = alloc_pending_ask_SomeD [OF assms(1) Some]
    obtain n where n: "reserve_ask self ?rid cb ?now timeout_ms ?s2
        = (Inr n, set_ask i (pending_entry self ?rid cb ?dl n) (?s2\<lparr> next_ask_id := n + 1 \<rparr>))"
      "n \<noteq> 0" "n \<notin> used_ids s"
      using reserve_ask_succeeds [OF inv2(1), of i self ?rid cb ?now timeout_ms] Some inv2 f2 assms(2)
      by auto
    let ?s3 = "set_ask i (pending_entry self ?rid cb ?dl n) (?s2\<lparr> next_ask_id := n + 1 \<rparr>)"
    have tail: "ask_tail P self timeout_ms target (ask_request s rq rp payload n) n ?s3 = (rc, out, t)"
      using ask eq n(1) by simp
    note fr = ask_tail_frame [OF tail]
    have t3: "ask_table ?s3 = (ask_table s)[i := pending_entry self ?rid cb ?dl n]" by (simp add: f2)
    have inv3: "ask_inv ?s3"
      by (rule ask_inv_reserved) (use i n inv2 f2 in simp_all)
    show ?thesis
    proof (cases "rc = 0")
      case True
      with fr have t: "out = n" "ask_table t = ask_table ?s3" "conf t = conf ?s3" by simp_all
      then have "ask_inv t" using inv3 ask_inv_cong by metis
      with True t t3 n Some show ?thesis by (auto intro!: exI [of _ i] exI [of _ ?dl])
    next
      case False
      with fr obtain u where u: "out = 0" "ask_table u = ask_table ?s3" "conf u = conf s" "t = clear_ask n u"
        by (auto simp: f2)
      have "ask_table t = ask_table s"
        unfolding u(4) by (rule clear_reserved [OF assms(1) u(2) [unfolded t3] u(3) i n(2,3)])
      moreover have "conf t = conf s" using fr(2) by (simp add: f2)
      ultimately show ?thesis
        using False u(1) assms(1) ask_inv_cong [of t s] by simp
    qed
  qed
qed

section \<open>Every operation keeps the invariant\<close>

lemma ask_inv_delivery_only: "delivery_only s t \<Longrightarrow> ask_inv t \<longleftrightarrow> ask_inv s"
  using delivery_only_fields(1,7) ask_inv_cong by metis

lemma ask_inv_at_index:
  assumes "ask_inv s" "find_pending_ask n s = Some i"
  shows "ask_inv (set_ask i zero_pending_ask s)"
    and "q_used q \<Longrightarrow> q_ask_id q = q_ask_id (ask_table s ! i) \<Longrightarrow>
      (q_timeout_queued q \<longrightarrow> q_reply_sent q) \<Longrightarrow> ask_inv (set_ask i q s)"
    and "q_used (ask_table s ! i)" "i < length (ask_table s)" "q_ask_id (ask_table s ! i) = n"
proof -
  from find_pending_ask_SomeD [OF assms(2)] have at: "pending_at s n i" .
  then show "q_used (ask_table s ! i)" "i < length (ask_table s)" "q_ask_id (ask_table s ! i) = n"
    by (simp_all add: pending_at_def)
  with assms(1) show "ask_inv (set_ask i zero_pending_ask s)" by (intro ask_inv_clear_at)
  show "q_used q \<Longrightarrow> q_ask_id q = q_ask_id (ask_table s ! i) \<Longrightarrow>
      (q_timeout_queued q \<longrightarrow> q_reply_sent q) \<Longrightarrow> ask_inv (set_ask i q s)"
    using ask_inv_mark [OF assms(1) at] at by (simp add: pending_at_def)
qed

lemma ask_sections_inv:
  assumes "ask_inv s"
  shows "ask_inv (clear_ask n s)" "ask_inv (snd (cancel_section a n s))"
    "ask_inv (snd (reply_section req desc s))" "ask_inv (snd (reply_error_section req s))"
    "ask_inv (snd (expire_section a n s))" "ask_inv (expire_undo_section a n s)"
proof -
  note at = ask_inv_at_index [OF assms]
  show "ask_inv (clear_ask n s)" by (rule clear_ask_inv [OF assms])
  show "ask_inv (snd (cancel_section a n s))"
    using at(1) [of n] assms by (simp add: cancel_section_def split: option.split)
  show "ask_inv (snd (reply_section req desc s))"
    using at(1,2,3) [of "m_ask_id req"] assms
    by (simp add: reply_section_def Let_def split: option.split)
  show "ask_inv (snd (reply_error_section req s))"
    using at(2,3) [of "m_ask_id req"] assms
    by (simp add: reply_error_section_def Let_def split: option.split)
  show "ask_inv (snd (expire_section a n s))"
    using at(2,3) [of n] assms by (simp add: expire_section_def Let_def split: option.split)
  show "ask_inv (expire_undo_section a n s)"
    using at(2,3) [of n] assms by (simp add: expire_undo_section_def Let_def split: option.split)
qed

text \<open>A section writes the table and nothing else.\<close>

lemma ask_sections_frame:
  "snd (cancel_section a n s) = s\<lparr> ask_table := ask_table (snd (cancel_section a n s)) \<rparr>"
  "snd (reply_section req desc s) = s\<lparr> ask_table := ask_table (snd (reply_section req desc s)) \<rparr>"
  "snd (reply_error_section req s) = s\<lparr> ask_table := ask_table (snd (reply_error_section req s)) \<rparr>"
  "snd (expire_section a n s) = s\<lparr> ask_table := ask_table (snd (expire_section a n s)) \<rparr>"
  "expire_undo_section a n s = s\<lparr> ask_table := ask_table (expire_undo_section a n s) \<rparr>"
  "clear_ask n s = s\<lparr> ask_table := ask_table (clear_ask n s) \<rparr>"
  by (simp_all add: cancel_section_def reply_section_def reply_error_section_def expire_section_def
      expire_undo_section_def clear_ask_def Let_def split: option.split)

lemma alloc_ask_id_loop_step:
  "k < IPC_CORE_MAX_INFLIGHT_QUERIES (conf s) \<Longrightarrow>
   alloc_ask_id_loop k s =
     (let s1 = s\<lparr> next_ask_id := next_ask_id s + 1 \<rparr>
      in if next_ask_id s = 0 then alloc_ask_id_loop k s1
         else if find_pending_ask (next_ask_id s) s1 = None then (Inr (next_ask_id s), s1)
         else alloc_ask_id_loop (k + 1) s1)"
  by (subst alloc_ask_id_loop.simps) (simp add: Let_def)

lemma alloc_ask_id_loop_fresh:
  "alloc_ask_id_loop k s = (Inr n, t) \<Longrightarrow>
     n \<noteq> 0 \<and> n \<notin> used_ids s \<and> t = s\<lparr> next_ask_id := n + 1 \<rparr>"
proof (induction k s rule: alloc_ask_id_loop.induct)
  case (1 k s)
  show ?case
  proof (cases "k < IPC_CORE_MAX_INFLIGHT_QUERIES (conf s)")
    case True
    note IH = "1.IH" [OF True refl refl]
    from trans [OF alloc_ask_id_loop_step [OF True, symmetric] "1.prems"] IH show ?thesis
      by (auto simp: Let_def find_pending_ask_None split: if_splits)
  next
    case False
    then have "alloc_ask_id_loop k s = (Inl (- ENOMEM), s)" by (subst alloc_ask_id_loop.simps) simp
    with "1.prems" show ?thesis by simp
  qed
qed

lemma alloc_ask_id_loop_Inl:
  "alloc_ask_id_loop k s = (Inl rc, t) \<Longrightarrow>
     rc = - ENOMEM \<and> conf t = conf s \<and> ask_table t = ask_table s"
proof (induction k s rule: alloc_ask_id_loop.induct)
  case (1 k s)
  show ?case
  proof (cases "k < IPC_CORE_MAX_INFLIGHT_QUERIES (conf s)")
    case True
    note IH = "1.IH" [OF True refl refl]
    from trans [OF alloc_ask_id_loop_step [OF True, symmetric] "1.prems"] IH show ?thesis
      by (auto simp: Let_def split: if_splits)
  next
    case False
    then have "alloc_ask_id_loop k s = (Inl (- ENOMEM), s)" by (subst alloc_ask_id_loop.simps) simp
    with "1.prems" show ?thesis by simp
  qed
qed

lemma reserve_ask_inv:
  assumes "ask_inv s" "reserve_ask self reply_id cb now_ms timeout_ms s = (r, t)"
  shows "ask_inv t"
proof (cases "alloc_pending_ask s")
  case None
  then show ?thesis using assms by (simp add: reserve_ask_full)
next
  case (Some i)
  obtain r1 s1 where a: "alloc_ask_id s = (r1, s1)" by (cases "alloc_ask_id s")
  show ?thesis
  proof (cases r1)
    case (Inl rc)
    with a alloc_ask_id_loop_Inl [of 0 s rc s1] have "ask_inv s1"
      using assms(1) ask_inv_cong [of s1 s] by (simp add: alloc_ask_id_def)
    with Inl a Some assms(2) show ?thesis by (simp add: reserve_ask_def)
  next
    case (Inr n)
    with a alloc_ask_id_loop_fresh [of 0 s n s1]
    have n: "n \<noteq> 0" "n \<notin> used_ids s" "s1 = s\<lparr> next_ask_id := n + 1 \<rparr>"
      by (simp_all add: alloc_ask_id_def)
    have "ask_inv (set_ask i (pending_entry self reply_id cb
        (if timeout_ms > 0 then now_ms + timeout_ms else 0) n) (s\<lparr> next_ask_id := n + 1 \<rparr>))"
      by (rule ask_inv_reserved [OF assms(1) alloc_pending_ask_SomeD(1) [OF assms(1) Some] n(1,2)])
    with Inr a Some n(3) assms(2) show ?thesis by (simp add: reserve_ask_def pending_entry_def)
  qed
qed

section \<open>What a reply does\<close>

text \<open>The conditions of a reply that is sent: a pending, unanswered ask that expects this reply.\<close>

definition reply_accepted :: "ipc_msg \<Rightarrow> dptr \<Rightarrow> nat \<Rightarrow> ('p, 'u) sys \<Rightarrow> bool" where
  "reply_accepted req d i s \<longleftrightarrow>
     IPC_CONFIG_ENABLE_ASK (conf s) \<and> d_kind (descs s d) = IPC_CMD \<and> d_name (descs s d) \<noteq> None
     \<and> m_ask_id req \<noteq> 0 \<and> pending_at s (m_ask_id req) i
     \<and> q_reply_id (ask_table s ! i) = eventual_id (descs s d)
     \<and> m_reply_id req = eventual_id (descs s d)
     \<and> \<not> q_reply_sent (ask_table s ! i)
     \<and> d_size (descs s d) \<le> actor_max_payload_size (actors s (q_actor (ask_table s ! i)))"

definition reply_msg :: "('p, 'u) sys \<Rightarrow> ipc_msg \<Rightarrow> dptr \<Rightarrow> u8 list option \<Rightarrow> ipc_msg" where
  "reply_msg s req d payload = (call_msg s d payload)\<lparr> m_ask_id := m_ask_id req \<rparr>"

definition mark_answered :: "nat \<Rightarrow> ('p, 'u) sys \<Rightarrow> ('p, 'u) sys" where
  "mark_answered i s = set_ask i ((ask_table s ! i)\<lparr> q_reply_sent := True \<rparr>) s"

lemma ask_inv_ensure_id: "ask_inv (ipc_ensure_id d s) \<longleftrightarrow> ask_inv s"
  by (rule ask_inv_cong) (simp_all add: frame_simps)

lemma reply_section_accepted:
  assumes "ask_inv s" "reply_accepted req d i s"
  shows "reply_section req (descs (ipc_ensure_id d s) d) (ipc_ensure_id d s)
    = (Inr (q_actor (ask_table s ! i)), mark_answered i (ipc_ensure_id d s))"
proof -
  have "pending_at (ipc_ensure_id d s) (m_ask_id req) i"
    using assms(2) by (simp add: reply_accepted_def pending_at_def frame_simps)
  then have "find_pending_ask (m_ask_id req) (ipc_ensure_id d s) = Some i"
    using assms(1) by (simp add: find_pending_ask_iff ask_inv_ensure_id)
  then show ?thesis
    using assms(2)
    by (simp add: reply_section_def reply_accepted_def mark_answered_def ensure_id_desc frame_simps Let_def)
qed

lemma ipc_reply_raw_accepted:
  assumes "ask_inv s" "reply_accepted req d i s"
  defines "a \<equiv> q_actor (ask_table s ! i)"
  shows "ipc_reply_raw P (Some req) (Some d) payload s
    = (case apply_mailbox_overflow_policy a
              (ipc_port_send P a (reply_msg s req d payload) (mark_answered i (ipc_ensure_id d s))) of
         (rc, t) \<Rightarrow> (rc, if rc \<noteq> 0 then clear_ask (m_ask_id req) t else t))"
  using assms(2) reply_section_accepted [OF assms(1,2)]
  by (simp add: ipc_reply_raw_def reply_accepted_def valid_descriptor_def Let_def a_def reply_msg_def
      call_msg_def)

lemma ipc_reply_raw_unknown:
  assumes "IPC_CONFIG_ENABLE_ASK (conf t)" "m_ask_id req \<noteq> 0"
    and "d_kind (descs t d) = IPC_CMD" "d_name (descs t d) \<noteq> None" "ipc_ensure_id d t = t"
    and "find_pending_ask (m_ask_id req) t = None"
  shows "ipc_reply_raw P (Some req) (Some d) payload t = (- ENOENT, t)"
  using assms by (simp add: ipc_reply_raw_def valid_descriptor_def reply_section_def Let_def)

lemma ipc_reply_raw_again:
  assumes "ask_inv t" "IPC_CONFIG_ENABLE_ASK (conf t)" "m_ask_id req \<noteq> 0"
    and "d_kind (descs t d) = IPC_CMD" "d_name (descs t d) \<noteq> None" "ipc_ensure_id d t = t"
    and "pending_at t (m_ask_id req) i" "q_reply_sent (ask_table t ! i)"
    and "q_reply_id (ask_table t ! i) = d_id (descs t d)" "m_reply_id req = d_id (descs t d)"
  shows "ipc_reply_raw P (Some req) (Some d) payload t = (- EALREADY, t)"
proof -
  have "find_pending_ask (m_ask_id req) t = Some i"
    by (rule find_pending_ask_iff [OF assms(1), THEN iffD2, OF assms(7)])
  then show ?thesis
    using assms(2-6,8-10)
    by (simp add: ipc_reply_raw_def valid_descriptor_def reply_section_def Let_def)
qed

lemma clear_ask_gone:
  assumes "ask_inv s"
  shows "find_pending_ask n (clear_ask n s) = None"
proof (cases "find_pending_ask n s")
  case None
  then show ?thesis by (simp add: clear_ask_def)
next
  case (Some i)
  note at = find_pending_ask_SomeD [OF Some]
  have eq: "clear_ask n s = set_ask i zero_pending_ask s" by (rule clear_ask_at [OF assms at])
  show ?thesis
  proof (rule ccontr)
    assume "find_pending_ask n (clear_ask n s) \<noteq> None"
    then obtain j where "pending_at (set_ask i zero_pending_ask s) n j"
      using find_pending_ask_SomeD unfolding eq by blast
    then have "j \<noteq> i" "pending_at s n j" by (simp_all add: pending_at_set_ask split: if_splits)
    with at ask_inv_unique [OF assms, of i j] show False by (simp add: pending_at_def)
  qed
qed

section \<open>Properties\<close>

text \<open>
  C11: an ask takes effect completely or not at all. With a consistent table (and a table size the
  32-bit counter can serve), for every port: an ask that returns an error, or that returns 1 because
  the request was dropped, hands out ID 0 and leaves the table of pending asks exactly as it was; an
  ask that returns 0 hands out a nonzero ID no pending ask has and adds exactly one entry, in the
  first free slot, unanswered, for the asking actor, its callback and the ID of the reply.
\<close>

theorem ipc_ask_all_or_nothing:
  assumes "ask_inv s" "IPC_CORE_MAX_INFLIGHT_QUERIES (conf s) < 2 ^ 32"
    and "ipc_ask_with_id_raw P (Some self) (Some rq) payload (Some rp) (Some cb) timeout_ms s
      = (rc, out, t)"
  shows "if rc \<noteq> 0 then out = 0 \<and> ask_table t = ask_table s \<and> ask_inv t
    else out \<noteq> 0 \<and> out \<notin> used_ids s \<and> ask_inv t
      \<and> (\<exists>i deadline. alloc_pending_ask s = Some i
          \<and> ask_table t = (ask_table s)[i := pending_entry self
              (eventual_id (descs (ipc_ensure_id rq s) rp)) cb deadline out])"
  by (rule ipc_ask_outcome [OF assms])

lemma ex_running_ask_inv: "ask_inv (ex_running p u)"
  by (simp add: ask_inv_def ex_defs less_Suc_eq)

theorem ipc_ask_all_or_nothing_witness:
  "\<exists>t. ipc_ask_with_id_raw ex_port (Some 2) (Some 0) (Some [1, 2, 3, 4]) (Some 2) (Some 61) 100
        (ex_running () ()) = (0, 1, t)
    \<and> ask_table t = [pending_entry 2 12 61 100 1, zero_pending_ask] \<and> ask_inv t"
proof -
  let ?s = "ex_running () ()"
  let ?t = "snd (snd (ipc_ask_with_id_raw ex_port (Some 2) (Some 0) (Some [1, 2, 3, 4]) (Some 2)
    (Some 61) 100 ?s))"
  have run: "ipc_ask_with_id_raw ex_port (Some 2) (Some 0) (Some [1, 2, 3, 4]) (Some 2) (Some 61) 100 ?s
      = (0, 1, ?t)" and tab: "ask_table ?t = [pending_entry 2 12 61 100 1, zero_pending_ask]"
    by (simp_all add: ipc_ask_with_id_raw_def prepare_registered_cmd_def valid_descriptor_def
        ipc_ensure_id_def find_registered_def actor_max_payload_size_def reserve_ask_def
        alloc_pending_ask_def alloc_ask_id_def alloc_ask_id_loop.simps find_pending_ask_def
        apply_mailbox_overflow_policy_def port_call_defs on_port_def ex_port_def make_msg_def
        pending_entry_def ex_defs)
  have "ask_inv ?t" using ipc_ask_all_or_nothing [OF ex_running_ask_inv _ run] by (simp add: ex_defs)
  with run tab show ?thesis by blast
qed

text \<open>
  C13: an ask ID is always found while there is room. The search ends for every counter value,
  wrap-around and the skipped 0 included; with a free entry in the table it returns a nonzero ID
  that no pending ask has, and it moves the counter just past it.
\<close>

theorem alloc_ask_id_total:
  assumes "ask_inv s" "IPC_CORE_MAX_INFLIGHT_QUERIES (conf s) < 2 ^ 32"
  shows "alloc_pending_ask s = None
    \<or> (\<exists>n. alloc_ask_id s = (Inr n, s\<lparr> next_ask_id := n + 1 \<rparr>) \<and> n \<noteq> 0 \<and> n \<notin> used_ids s)"
proof (cases "alloc_pending_ask s")
  case (Some i)
  from alloc_ask_id_succeeds [OF assms(1) Some assms(2)] show ?thesis by blast
qed simp

theorem alloc_ask_id_total_witness:
  "\<exists>n. alloc_ask_id (ex_running () ()\<lparr> next_ask_id := - 1 \<rparr>)
      = (Inr n, ex_running () ()\<lparr> next_ask_id := n + 1 \<rparr>) \<and> n \<noteq> 0"
proof -
  have "ask_inv (ex_running () ()\<lparr> next_ask_id := - 1 \<rparr>)"
    using ex_running_ask_inv [of "()" "()"] by (simp add: ask_inv_def)
  moreover have "alloc_pending_ask (ex_running () ()\<lparr> next_ask_id := - 1 \<rparr>) \<noteq> None"
    by (simp add: alloc_pending_ask_def ex_defs)
  ultimately show ?thesis
    using alloc_ask_id_total [of "ex_running () ()\<lparr> next_ask_id := - 1 \<rparr>"] by (auto simp: ex_defs)
qed

text \<open>
  C12: a reply is accepted once, and a reply that cannot be delivered ends its ask. For an accepted
  reply and every port: if the send returns 0, the ask stays pending and is marked answered, and a
  second reply to it returns \<^verbatim>\<open>-EALREADY\<close> with no effect; otherwise the code of the send (an error,
  or 1 for a dropped message) is returned, the ask is erased, so that no callback and no timeout can
  follow, and a second reply returns \<^verbatim>\<open>-ENOENT\<close>.
\<close>

theorem ipc_reply_once:
  assumes "ask_inv s" "reply_accepted req d i s"
    and "ipc_reply_raw P (Some req) (Some d) payload s = (rc, t)"
  shows "ask_inv t
    \<and> (if rc = 0 then ask_table t = ask_table (mark_answered i s)
          \<and> ipc_reply_raw P (Some req) (Some d) payload2 t = (- EALREADY, t)
        else find_pending_ask (m_ask_id req) t = None
          \<and> ipc_reply_raw P (Some req) (Some d) payload2 t = (- ENOENT, t))"
proof -
  let ?s1 = "ipc_ensure_id d s" and ?a = "q_actor (ask_table s ! i)"
  let ?s2 = "mark_answered i ?s1"
  obtain rc2 s3 where del: "apply_mailbox_overflow_policy ?a
      (ipc_port_send P ?a (reply_msg s req d payload) ?s2) = (rc2, s3)"
    by (cases "apply_mailbox_overflow_policy ?a (ipc_port_send P ?a (reply_msg s req d payload) ?s2)")
  have only: "delivery_only ?s2 s3" using delivery_only_send [of ?s2 ?a P] del by (metis snd_conv)
  note f3 = delivery_only_fields [OF only]
  have at: "pending_at s (m_ask_id req) i" using assms(2) by (simp add: reply_accepted_def)
  have tab: "ask_table s3 = ask_table (mark_answered i s)" "conf s3 = conf s" "descs s3 = descs ?s1"
    using f3 by (simp_all add: mark_answered_def frame_simps)
  have "ask_inv (mark_answered i s)"
    unfolding mark_answered_def
    by (rule ask_inv_mark [OF assms(1) at]) (use at in \<open>simp_all add: pending_at_def\<close>)
  then have inv3: "ask_inv s3" using ask_inv_cong [of s3 "mark_answered i s"] tab
    by (simp add: mark_answered_def)
  have desc: "d_kind (descs s3 d) = IPC_CMD" "d_name (descs s3 d) \<noteq> None"
    "d_id (descs s3 d) = eventual_id (descs s d)"
    using assms(2) by (simp_all add: tab ensure_id_desc reply_accepted_def)
  have rid: "eventual_id (descs s d) = m_reply_id req" "m_ask_id req \<noteq> 0" "IPC_CONFIG_ENABLE_ASK (conf s)"
    using assms(2) by (simp_all add: reply_accepted_def)
  have idem: "ipc_ensure_id d u = u" if "descs u = descs ?s1" for u :: "('a, 'b) sys"
  proof -
    have "d_id (descs ?s1 d) = 0 \<Longrightarrow> descs ?s1 = (descs ?s1)(d := (descs ?s1 d)\<lparr> d_id := ipc_fnv1a n \<rparr>)"
      if "d_name (descs ?s1 d) = Some n" for n
      using arg_cong [OF ensure_id_idem [of d s], of descs] that by (simp add: ipc_ensure_id_def)
    then show ?thesis using that by (auto simp: ipc_ensure_id_def split: option.split)
  qed
  have eq: "(rc, t) = (rc2, if rc2 \<noteq> 0 then clear_ask (m_ask_id req) s3 else s3)"
    using ipc_reply_raw_accepted [OF assms(1,2), of P payload] assms(3) del by simp
  show ?thesis
  proof (cases "rc = 0")
    case True
    with eq have t: "t = s3" by simp
    have at3: "pending_at s3 (m_ask_id req) i" "q_reply_sent (ask_table s3 ! i)"
      "q_reply_id (ask_table s3 ! i) = d_id (descs s3 d)"
      using at assms(2) desc by (simp_all add: tab mark_answered_def pending_at_def reply_accepted_def)
    have "ipc_reply_raw P (Some req) (Some d) payload2 s3 = (- EALREADY, s3)"
      by (rule ipc_reply_raw_again [OF inv3 _ rid(2) desc(1,2) _ at3])
         (simp_all add: tab rid idem ensure_id_desc)
    then show ?thesis using True t inv3 tab by simp
  next
    case False
    with eq have t: "t = clear_ask (m_ask_id req) s3" by simp
    have inv: "ask_inv t" unfolding t by (rule clear_ask_inv [OF inv3])
    have gone: "find_pending_ask (m_ask_id req) t = None" unfolding t by (rule clear_ask_gone [OF inv3])
    have dt: "descs t = descs s3" "conf t = conf s" by (simp_all add: t frame_simps tab)
    have "ipc_reply_raw P (Some req) (Some d) payload2 t = (- ENOENT, t)"
      by (rule ipc_reply_raw_unknown [OF _ rid(2) _ _ _ gone])
         (use desc rid tab in \<open>simp_all add: dt idem\<close>)
    with False inv gone show ?thesis by simp
  qed
qed

text \<open>The example program with one ask of actor 2, number 7, whose reply has ID 12.\<close>

definition ex_asking :: "'p \<Rightarrow> 'u \<Rightarrow> ('p, 'u) sys" where
  "ex_asking p u = (ex_running p u)\<lparr> ask_table := [pending_entry 2 12 61 0 7, zero_pending_ask] \<rparr>"

definition ex_request :: ipc_msg where
  "ex_request = \<lparr> m_id = 10, m_kind = IPC_CMD, m_size = 4, m_payload = None, m_ask_id = 7,
                 m_reply_id = 12, m_result = 0 \<rparr>"

lemma ex_asking_inv: "ask_inv (ex_asking p u)"
  by (simp add: ask_inv_def ex_asking_def ex_defs pending_entry_def less_Suc_eq)

theorem ipc_reply_once_witness:
  "\<exists>t. ipc_reply_raw ex_port (Some ex_request) (Some 2) None (ex_asking () ()) = (0, t)
    \<and> ask_inv t
    \<and> ipc_reply_raw ex_port (Some ex_request) (Some 2) None t = (- EALREADY, t)"
proof -
  have acc: "reply_accepted ex_request 2 0 (ex_asking () ())"
    by (simp add: reply_accepted_def pending_at_def eventual_id_def ex_asking_def ex_request_def
        pending_entry_def actor_max_payload_size_def ex_defs)
  have "fst (ipc_reply_raw ex_port (Some ex_request) (Some 2) None (ex_asking () ())) = 0"
    unfolding ipc_reply_raw_accepted [OF ex_asking_inv acc]
    by (simp add: apply_mailbox_overflow_policy_def port_call_defs on_port_def ex_port_def)
  then obtain t where run:
    "ipc_reply_raw ex_port (Some ex_request) (Some 2) None (ex_asking () ()) = (0, t)"
    by (metis prod.collapse)
  from ipc_reply_once [OF ex_asking_inv acc run, of None] run show ?thesis by simp
qed

end
