(* ===== verification/Ipc_Dispatch.thy ===== *)
theory Ipc_Dispatch
  imports Ipc_Ask
begin

text \<open>
  Message dispatch in \<^verbatim>\<open>src/ipc.c\<close>: \<^verbatim>\<open>ipc_dispatch_actor_handlers\<close>, the entry point every actor
  made with \<^verbatim>\<open>IPC_ACTOR_DEFINE\<close> has. A reply or timeout of a pending ask of this actor consumes the
  ask and calls its callback; any other message goes to the first handler bound to (actor, ID),
  else to the unknown hook, else nowhere.
\<close>

section \<open>Definitions\<close>

text \<open>The critical section: the callback of the ask this message answers, which is then cleared.\<close>

definition take_pending :: "aptr \<Rightarrow> ipc_msg \<Rightarrow> ('p, 'u) sys \<Rightarrow> fnptr option \<times> ('p, 'u) sys" where
  "take_pending self msg s =
     (case find_pending_ask (m_ask_id msg) s of
        None \<Rightarrow> (None, s)
      | Some i \<Rightarrow>
          (let pending = ask_table s ! i
           in if m_id msg = ipc_ask_timeout_msg_id \<and> q_actor pending = self
                 \<and> q_timeout_queued pending
              then (Some (q_callback pending), set_ask i zero_pending_ask s)
              else if q_actor pending = self \<and> q_reply_id pending = m_id msg
              then (Some (q_callback pending), set_ask i zero_pending_ask s)
              else (None, s)))"

text \<open>The handler loop and the unknown hook.\<close>

definition dispatch_to_handler ::
    "('p, 'u) user_code \<Rightarrow> aptr \<Rightarrow> ipc_msg \<Rightarrow> ('p, 'u) sys \<Rightarrow> ('p, 'u) sys" where
  "dispatch_to_handler U self msg s =
     (case find (\<lambda>b. b_actor b = self \<and> b_msg_id b = m_id msg) (bindings s) of
        Some b \<Rightarrow> U (Call_handler (b_handler b) self msg) s
      | None \<Rightarrow>
          (case a_unknown_handler (actors s self) of
             Some h \<Rightarrow> U (Call_unknown h self msg) s
           | None \<Rightarrow> s))"

definition ipc_dispatch_actor_handlers ::
    "('p, 'u) user_code \<Rightarrow> aptr option \<Rightarrow> ipc_msg option \<Rightarrow> ('p, 'u) sys \<Rightarrow> ('p, 'u) sys" where
  "ipc_dispatch_actor_handlers U a m s =
     (case (a, m) of
        (Some self, Some msg) \<Rightarrow>
          if IPC_CONFIG_ENABLE_ASK (conf s) \<and> m_ask_id msg \<noteq> 0 then
            (case take_pending self msg s of
               (Some callback, s1) \<Rightarrow>
                 U (Call_callback callback self (m_result msg) (m_payload msg) (m_size msg) msg) s1
             | (None, s1) \<Rightarrow> dispatch_to_handler U self msg s1)
          else dispatch_to_handler U self msg s
      | _ \<Rightarrow> s)"

text \<open>What the port calls for a message: \<^verbatim>\<open>self->handler(self, &msg)\<close>.\<close>

definition call_actor_handler ::
    "('p, 'u) user_code \<Rightarrow> aptr \<Rightarrow> ipc_msg \<Rightarrow> ('p, 'u) sys \<Rightarrow> ('p, 'u) sys" where
  "call_actor_handler U self msg s =
     (case a_handler (actors s self) of
        Ipc_dispatch_actor_handlers \<Rightarrow> ipc_dispatch_actor_handlers U (Some self) (Some msg) s
      | Raw_handler f \<Rightarrow> U (Call_raw_handler f self msg) s)"

section \<open>Lemmas\<close>

definition answers :: "ipc_pending_ask_t \<Rightarrow> aptr \<Rightarrow> ipc_msg \<Rightarrow> bool" where
  "answers q self msg \<longleftrightarrow>
     q_actor q = self
     \<and> (m_id msg = ipc_ask_timeout_msg_id \<and> q_timeout_queued q \<or> q_reply_id q = m_id msg)"

lemma if_same_result:
  "(if A \<and> B \<and> C then x else if B \<and> D then x else y) = (if B \<and> (A \<and> C \<or> D) then x else y)"
  by auto

lemma take_pending_cases:
  "take_pending self msg s =
     (case find_pending_ask (m_ask_id msg) s of
        None \<Rightarrow> (None, s)
      | Some i \<Rightarrow>
          if answers (ask_table s ! i) self msg
          then (Some (q_callback (ask_table s ! i)), set_ask i zero_pending_ask s) else (None, s))"
  by (simp add: take_pending_def answers_def Let_def if_same_result split: option.split)

lemma take_pending_inv: "ask_inv s \<Longrightarrow> ask_inv (snd (take_pending self msg s))"
  using ask_inv_at_index(1) [of s "m_ask_id msg"]
  by (simp add: take_pending_cases split: option.split)

lemma take_pending_frame:
  "snd (take_pending self msg s) = s\<lparr> ask_table := ask_table (snd (take_pending self msg s)) \<rparr>"
  by (simp add: take_pending_cases split: option.split)

text \<open>A consumed ask is gone: no later message with that ID finds it.\<close>

lemma take_pending_consumes:
  assumes "ask_inv s" "take_pending self msg s = (Some cb, t)"
  shows "find_pending_ask (m_ask_id msg) t = None"
proof -
  from assms(2) obtain i where i: "find_pending_ask (m_ask_id msg) s = Some i"
    and t: "t = set_ask i zero_pending_ask s"
    by (auto simp: take_pending_cases split: option.splits if_splits)
  have at: "pending_at s (m_ask_id msg) i" by (rule find_pending_ask_SomeD [OF i])
  have inv: "ask_inv t" unfolding t using at assms(1) by (intro ask_inv_clear_at) (simp_all add: pending_at_def)
  show ?thesis
  proof (rule ccontr)
    assume "find_pending_ask (m_ask_id msg) t \<noteq> None"
    then obtain j where "find_pending_ask (m_ask_id msg) t = Some j" by blast
    then have j: "pending_at t (m_ask_id msg) j" by (rule find_pending_ask_SomeD)
    then have "j \<noteq> i" using at by (auto simp: t pending_at_def)
    with j have "pending_at s (m_ask_id msg) j" by (simp add: t pending_at_def)
    with at assms(1) \<open>j \<noteq> i\<close> show False by (auto simp: pending_at_def dest: ask_inv_unique)
  qed
qed

text \<open>Every routed command and every subscribed event has a binding.\<close>

lemma binding_exists:
  assumes "tables_inv s" "(a, i) \<in> set (map route_key (regs s)) \<union> set (map sub_key (subs s))"
  obtains b where "find (\<lambda>b. b_actor b = a \<and> b_msg_id b = i) (bindings s) = Some b"
    "b \<in> set (bindings s)" "b_actor b = a" "b_msg_id b = i"
proof -
  have "set (map binding_key (bindings s)) = set (map route_key (regs s)) \<union> set (map sub_key (subs s))"
    using arg_cong [OF tables_inv_bindings [OF assms(1)], of set_mset] by simp
  then have "(a, i) \<in> set (map binding_key (bindings s))" using assms(2) by blast
  then have "find (\<lambda>b. b_actor b = a \<and> b_msg_id b = i) (bindings s) \<noteq> None"
    by (auto simp: find_None_iff)
  then obtain b where b: "find (\<lambda>b. b_actor b = a \<and> b_msg_id b = i) (bindings s) = Some b" by blast
  then have "b \<in> set (bindings s)" "b_actor b = a \<and> b_msg_id b = i"
    by (auto dest: find_SomeD)
  with b that show ?thesis by blast
qed

lemma find_registered_route:
  "find_registered i s = Some a \<Longrightarrow> (a, i) \<in> set (map route_key (regs s))"
  by (auto simp: find_registered_def dest!: find_SomeD)

lemma no_pending_dispatch:
  assumes "m_ask_id msg \<noteq> 0 \<Longrightarrow> find_pending_ask (m_ask_id msg) s = None"
  shows "ipc_dispatch_actor_handlers U (Some self) (Some msg) s = dispatch_to_handler U self msg s"
  using assms by (simp add: ipc_dispatch_actor_handlers_def take_pending_cases)

text \<open>An answer to a pending ask goes to its callback, after the entry was zeroed.\<close>

lemma dispatch_pending_answer:
  assumes "ask_inv s" "IPC_CONFIG_ENABLE_ASK (conf s)" "pending_at s (m_ask_id msg) i"
    and "answers (ask_table s ! i) self msg"
  shows "take_pending self msg s = (Some (q_callback (ask_table s ! i)), set_ask i zero_pending_ask s)"
    "ipc_dispatch_actor_handlers U (Some self) (Some msg) s
      = U (Call_callback (q_callback (ask_table s ! i)) self (m_result msg) (m_payload msg)
             (m_size msg) msg) (set_ask i zero_pending_ask s)"
proof -
  have "find_pending_ask (m_ask_id msg) s = Some i"
    by (rule find_pending_ask_iff [OF assms(1), THEN iffD2, OF assms(3)])
  then show take: "take_pending self msg s = (Some (q_callback (ask_table s ! i)), set_ask i zero_pending_ask s)"
    using assms(4) by (simp add: take_pending_cases)
  have "m_ask_id msg \<noteq> 0"
    using ask_inv_entry [OF assms(1), of "ask_table s ! i"] assms(3) by (auto simp: pending_at_def)
  with take assms(2)
  show "ipc_dispatch_actor_handlers U (Some self) (Some msg) s
      = U (Call_callback (q_callback (ask_table s ! i)) self (m_result msg) (m_payload msg)
             (m_size msg) msg) (set_ask i zero_pending_ask s)"
    by (simp add: ipc_dispatch_actor_handlers_def)
qed

text \<open>Handlers that leave the port and the actors alone: they post nothing.\<close>

definition posts_nothing :: "('p, 'u) user_code \<Rightarrow> bool" where
  "posts_nothing U \<longleftrightarrow>
     (\<forall>c s. port_st (U c s) = port_st s \<and> actors (U c s) = actors s
            \<and> ipc_actor_list (U c s) = ipc_actor_list s)"

lemma posts_nothing_recording: "posts_nothing recording"
  by (simp add: posts_nothing_def recording_def)

lemma call_actor_handler_quiet:
  assumes "posts_nothing U"
  shows "port_st (call_actor_handler U a m s) = port_st s \<and> actors (call_actor_handler U a m s) = actors s
    \<and> ipc_actor_list (call_actor_handler U a m s) = ipc_actor_list s"
proof -
  have quiet: "port_st (U c u) = port_st u" "actors (U c u) = actors u"
    "ipc_actor_list (U c u) = ipc_actor_list u" for c u
    using assms by (simp_all add: posts_nothing_def)
  have disp: "port_st (dispatch_to_handler U a m u) = port_st u \<and> actors (dispatch_to_handler U a m u) = actors u
      \<and> ipc_actor_list (dispatch_to_handler U a m u) = ipc_actor_list u" for u
    by (simp add: dispatch_to_handler_def quiet split: option.split)
  obtain cb s1 where take: "take_pending a m s = (cb, s1)" by (cases "take_pending a m s")
  have eq: "s1 = s\<lparr> ask_table := ask_table s1 \<rparr>" using take_pending_frame [of a m s] take by simp
  have "port_st s1 = port_st s" "actors s1 = actors s" "ipc_actor_list s1 = ipc_actor_list s"
    using arg_cong [OF eq, of port_st] arg_cong [OF eq, of actors] arg_cong [OF eq, of ipc_actor_list]
    by simp_all
  with take show ?thesis
    by (cases "a_handler (actors s a)")
       (simp_all add: call_actor_handler_def ipc_dispatch_actor_handlers_def quiet disp split: option.split)
qed

section \<open>Properties\<close>

text \<open>
  C3: dispatching an answer to a pending ask consumes the ask and calls its callback once. Under the
  table invariant, a message that answers the actor's pending ask (its reply ID, or the timeout once
  the timeout is queued) results in exactly one call, the callback with the message's result,
  payload and size, made after the entry was zeroed; a second message with the same ask ID no longer
  reaches the callback but goes to the handlers.
\<close>

theorem ipc_dispatch_answer_once:
  assumes "ask_inv s" "IPC_CONFIG_ENABLE_ASK (conf s)" "pending_at s (m_ask_id msg) i"
    and "answers (ask_table s ! i) self msg"
  shows "\<exists>t. ipc_dispatch_actor_handlers U (Some self) (Some msg) s
        = U (Call_callback (q_callback (ask_table s ! i)) self (m_result msg) (m_payload msg)
               (m_size msg) msg) t
    \<and> t = set_ask i zero_pending_ask s \<and> ask_inv t
    \<and> (\<forall>again. m_ask_id again = m_ask_id msg \<longrightarrow>
         ipc_dispatch_actor_handlers U (Some self) (Some again) t
           = dispatch_to_handler U self again t)"
proof (intro exI conjI)
  let ?t = "set_ask i zero_pending_ask s"
  note take = dispatch_pending_answer(1) [OF assms]
  show "ipc_dispatch_actor_handlers U (Some self) (Some msg) s
      = U (Call_callback (q_callback (ask_table s ! i)) self (m_result msg) (m_payload msg)
             (m_size msg) msg) ?t"
    by (rule dispatch_pending_answer(2) [OF assms])
  show "ask_inv ?t" using take_pending_inv [OF assms(1), of self msg] take by simp
  show "\<forall>again. m_ask_id again = m_ask_id msg \<longrightarrow>
         ipc_dispatch_actor_handlers U (Some self) (Some again) ?t = dispatch_to_handler U self again ?t"
    using take_pending_consumes [OF assms(1) take] by (simp add: no_pending_dispatch)
qed simp

definition ex_reply :: ipc_msg where
  "ex_reply = \<lparr> m_id = 12, m_kind = IPC_CMD, m_size = 1, m_payload = Some [5], m_ask_id = 7,
               m_reply_id = 0, m_result = 0 \<rparr>"

theorem ipc_dispatch_answer_once_witness:
  "\<exists>t. ipc_dispatch_actor_handlers recording (Some 2) (Some ex_reply) (ex_asking () [])
      = recording (Call_callback 61 2 0 (Some [5]) 1 ex_reply) t \<and> ask_inv t"
  using ipc_dispatch_answer_once [OF ex_asking_inv [of "()" "[]"], where msg = ex_reply and i = 0
      and self = 2 and U = recording]
  by (auto simp: ex_asking_def ex_reply_def pending_entry_def pending_at_def answers_def ex_defs)



end
