(* ===== verification/Ask_Interleaving.thy ===== *)
theory Ask_Interleaving
  imports Ipc_Dispatch
begin

text \<open>
  The ask table under concurrency. Threads touch the table only inside critical sections, so every
  execution of the program is, on the table, some sequence of the sections of \<^verbatim>\<open>Ipc_Ask\<close> and
  \<^verbatim>\<open>Ipc_Dispatch\<close>, with arbitrary steps between them that leave the table alone. \<open>ask_step\<close> is one
  such step with the event it causes, \<open>ask_exec\<close> a sequence; the API operations are sequences of
  steps, so what holds of every sequence holds of every interleaving of them.
\<close>

section \<open>Steps\<close>

datatype ask_event =
    Quiet
  | Reserved u32
  | Answered u32
  | Expired u32
  | Undone u32
  | Taken u32
  | Dropped u32

inductive ask_step :: "('p, 'u) sys \<Rightarrow> ask_event \<Rightarrow> ('p, 'u) sys \<Rightarrow> bool" where
  step_other: "conf t = conf s \<Longrightarrow> ask_table t = ask_table s \<Longrightarrow> ask_step s Quiet t"
| step_reserve: "reserve_ask self reply_id cb now_ms timeout_ms s = (Inr n, t) \<Longrightarrow>
    ask_step s (Reserved n) t"
| step_clear: "find_pending_ask n s \<noteq> None \<Longrightarrow> ask_step s (Dropped n) (clear_ask n s)"
| step_cancel: "cancel_section a n s = (0, t) \<Longrightarrow> ask_step s (Dropped n) t"
| step_reply: "reply_section req desc s = (Inr a, t) \<Longrightarrow> ask_step s (Answered (m_ask_id req)) t"
| step_reply_too_big: "reply_section req desc s = (Inl (- EMSGSIZE), t) \<Longrightarrow>
    ask_step s (Dropped (m_ask_id req)) t"
| step_reply_error: "reply_error_section req s = (Inr r, t) \<Longrightarrow>
    ask_step s (Answered (m_ask_id req)) t"
| step_expire: "expire_section a n s = (True, t) \<Longrightarrow> ask_step s (Expired n) t"
| step_undo: "find_pending_ask n s = Some i \<Longrightarrow> q_actor (ask_table s ! i) = a \<Longrightarrow>
    ask_step s (Undone n) (expire_undo_section a n s)"
| step_take: "take_pending self msg s = (Some cb, t) \<Longrightarrow> ask_step s (Taken (m_ask_id msg)) t"

inductive_cases ask_step_E: "ask_step s e t"

inductive ask_exec :: "('p, 'u) sys \<Rightarrow> ask_event list \<Rightarrow> ('p, 'u) sys \<Rightarrow> bool" where
  exec_done: "ask_exec s [] s"
| exec_step: "ask_exec s evs t \<Longrightarrow> ask_step t e u \<Longrightarrow> ask_exec s (evs @ [e]) u"

section \<open>The IDs in use and the IDs still open for a reply\<close>

definition open_ids :: "('p, 'u) sys \<Rightarrow> u32 set" where
  "open_ids s = q_ask_id ` {q \<in> set (ask_table s). q_used q \<and> \<not> q_reply_sent q}"

lemma open_used: "open_ids s \<subseteq> used_ids s"
  by (auto simp: open_ids_def used_ids_def)

lemma used_ids_iff: "n \<in> used_ids s \<longleftrightarrow> (\<exists>i. pending_at s n i)"
  by (auto simp: used_ids_def pending_at_def in_set_conv_nth image_iff)

lemma open_ids_iff: "n \<in> open_ids s \<longleftrightarrow> (\<exists>i. pending_at s n i \<and> \<not> q_reply_sent (ask_table s ! i))"
  by (auto simp: open_ids_def pending_at_def in_set_conv_nth image_iff)

lemma pending_at_index: "ask_inv s \<Longrightarrow> pending_at s n i \<Longrightarrow> pending_at s n j \<Longrightarrow> i = j"
  using ask_inv_unique by (auto simp: pending_at_def)

lemma pending_at_id: "pending_at s n i \<Longrightarrow> pending_at s m i \<Longrightarrow> m = n"
  by (simp add: pending_at_def)

lemma pending_at_entry: "pending_at s n i \<Longrightarrow> i < length (ask_table s)"
  by (simp add: pending_at_def)

lemma ids_clear:
  assumes "ask_inv s" "pending_at s n i"
  shows "used_ids (set_ask i zero_pending_ask s) = used_ids s - {n}"
    "open_ids (set_ask i zero_pending_ask s) = open_ids s - {n}"
proof -
  have *: "pending_at (set_ask i zero_pending_ask s) m j \<longleftrightarrow> pending_at s m j \<and> m \<noteq> n" for m j
  proof (cases "j = i")
    case True
    then show ?thesis using pending_at_id [OF assms(2), of m] by (auto simp: pending_at_set_ask)
  next
    case False
    have "m \<noteq> n" if "pending_at s m j" using False that pending_at_index [OF assms, of j] by blast
    with False show ?thesis by (auto simp: pending_at_set_ask)
  qed
  show "used_ids (set_ask i zero_pending_ask s) = used_ids s - {n}"
    by (auto simp: used_ids_iff *)
  have keep: "ask_table (set_ask i zero_pending_ask s) ! j = ask_table s ! j"
    if "pending_at s m j" "m \<noteq> n" for m j
    using that pending_at_id [OF assms(2), of m] by (cases "j = i") auto
  have "m \<in> open_ids (set_ask i zero_pending_ask s) \<longleftrightarrow> m \<in> open_ids s \<and> m \<noteq> n" for m
    unfolding open_ids_iff * using keep by metis
  then show "open_ids (set_ask i zero_pending_ask s) = open_ids s - {n}" by blast
qed

lemma ids_mark:
  assumes "ask_inv s" "pending_at s n i" "q_used q" "q_ask_id q = n"
  shows "used_ids (set_ask i q s) = used_ids s"
    "open_ids (set_ask i q s) = (if q_reply_sent q then open_ids s - {n} else insert n (open_ids s))"
proof -
  have *: "pending_at (set_ask i q s) m j \<longleftrightarrow> pending_at s m j" for m j
  proof (cases "j = i")
    case True
    then show ?thesis using assms(2-4) by (auto simp: pending_at_set_ask pending_at_def)
  qed (simp add: pending_at_set_ask)
  show "used_ids (set_ask i q s) = used_ids s" by (auto simp: used_ids_iff *)
  have new: "ask_table (set_ask i q s) ! j = (if j = i then q else ask_table s ! j)" for j
    using pending_at_entry [OF assms(2)] by simp
  show "open_ids (set_ask i q s) = (if q_reply_sent q then open_ids s - {n} else insert n (open_ids s))"
  proof (rule set_eqI)
    fix m
    have other: "m \<noteq> n \<longleftrightarrow> j \<noteq> i" if "pending_at s m j" for j
      using that pending_at_index [OF assms(1,2), of j] pending_at_id [OF assms(2), of m] by blast
    show "m \<in> open_ids (set_ask i q s)
        \<longleftrightarrow> m \<in> (if q_reply_sent q then open_ids s - {n} else insert n (open_ids s))"
    proof (cases "m = n")
      case True
      then have "pending_at s m j \<longleftrightarrow> j = i" for j using other [of j] assms(2) by blast
      then show ?thesis using True unfolding open_ids_iff * new by (simp add: open_ids_iff)
    next
      case False
      then have "pending_at s m j \<Longrightarrow> j \<noteq> i" for j using other [of j] by blast
      then have "m \<in> open_ids (set_ask i q s) \<longleftrightarrow> m \<in> open_ids s"
        unfolding open_ids_iff * new by metis
      with False show ?thesis by simp
    qed
  qed
qed

lemma ids_new:
  assumes "i < length (ask_table s)" "\<not> q_used (ask_table s ! i)" "q_used q" "\<not> q_reply_sent q"
  shows "used_ids (set_ask i q s) = insert (q_ask_id q) (used_ids s)"
    "open_ids (set_ask i q s) = insert (q_ask_id q) (open_ids s)"
proof -
  have *: "pending_at (set_ask i q s) m j \<longleftrightarrow> (if j = i then m = q_ask_id q else pending_at s m j)" for m j
    using assms(1,3) by (auto simp: pending_at_set_ask)
  have free: "\<not> pending_at s m i" for m using assms(2) by (simp add: pending_at_def)
  have ex: "(\<exists>j. if j = i then A else B j) \<longleftrightarrow> A \<or> (\<exists>j. j \<noteq> i \<and> B j)" for A B by auto
  have old: "(\<exists>j. j \<noteq> i \<and> pending_at s m j \<and> R j) \<longleftrightarrow> (\<exists>j. pending_at s m j \<and> R j)"
    for m and R :: "nat \<Rightarrow> bool"
    using free [of m] by metis
  show "used_ids (set_ask i q s) = insert (q_ask_id q) (used_ids s)"
    unfolding set_eq_iff used_ids_iff insert_iff * ex using old [of _ "\<lambda>_. True"] by simp
  have "pending_at (set_ask i q s) m j \<and> \<not> q_reply_sent (ask_table (set_ask i q s) ! j)
      \<longleftrightarrow> (if j = i then m = q_ask_id q else pending_at s m j \<and> \<not> q_reply_sent (ask_table s ! j))" for m j
    using assms(1,4) by (simp add: *)
  then show "open_ids (set_ask i q s) = insert (q_ask_id q) (open_ids s)"
    unfolding set_eq_iff open_ids_iff insert_iff by (simp only: ex old) simp
qed

text \<open>What each section does to the two sets.\<close>

lemma ids_cong:
  "ask_table t = ask_table s \<Longrightarrow> used_ids t = used_ids s \<and> open_ids t = open_ids s"
  by (simp add: used_ids_def open_ids_def)

fun used_after :: "ask_event \<Rightarrow> u32 set \<Rightarrow> u32 set" where
  "used_after (Reserved n) X = insert n X"
| "used_after (Taken n) X = X - {n}"
| "used_after (Dropped n) X = X - {n}"
| "used_after _ X = X"

fun open_after :: "ask_event \<Rightarrow> u32 set \<Rightarrow> u32 set" where
  "open_after (Reserved n) X = insert n X"
| "open_after (Undone n) X = insert n X"
| "open_after (Answered n) X = X - {n}"
| "open_after (Expired n) X = X - {n}"
| "open_after (Taken n) X = X - {n}"
| "open_after (Dropped n) X = X - {n}"
| "open_after Quiet X = X"

text \<open>When an event may happen: only a fresh ID is reserved, only an open ask is answered.\<close>

fun event_allowed :: "ask_event \<Rightarrow> u32 set \<Rightarrow> u32 set \<Rightarrow> bool" where
  "event_allowed (Reserved n) us os = (n \<notin> us)"
| "event_allowed (Answered n) us os = (n \<in> os)"
| "event_allowed (Expired n) us os = (n \<in> us)"
| "event_allowed (Undone n) us os = (n \<in> us)"
| "event_allowed (Taken n) us os = (n \<in> us)"
| "event_allowed (Dropped n) us os = (n \<in> us)"
| "event_allowed Quiet us os = True"

lemma reserve_ask_ids:
  assumes "ask_inv s" "reserve_ask self reply_id cb now_ms timeout_ms s = (Inr n, t)"
  shows "n \<notin> used_ids s" "used_ids t = insert n (used_ids s)" "open_ids t = insert n (open_ids s)"
proof -
  let ?q = "pending_entry self reply_id cb (if timeout_ms > 0 then now_ms + timeout_ms else 0) n"
  obtain i s1 where i: "alloc_pending_ask s = Some i" and a: "alloc_ask_id s = (Inr n, s1)"
    and t: "t = set_ask i ?q s1"
    using assms(2)
    by (auto simp: reserve_ask_def pending_entry_def split: option.splits prod.splits sum.splits)
  from a alloc_ask_id_loop_fresh [of 0 s n s1]
  have n: "n \<notin> used_ids s" and s1: "s1 = s\<lparr> next_ask_id := n + 1 \<rparr>"
    by (simp_all add: alloc_ask_id_def)
  show "n \<notin> used_ids s" by (rule n)
  note free = alloc_pending_ask_SomeD [OF assms(1) i]
  have "used_ids (set_ask i ?q s) = insert n (used_ids s)" "open_ids (set_ask i ?q s) = insert n (open_ids s)"
    using ids_new [of i s ?q] free by (simp_all add: pending_entry_def)
  moreover have "ask_table t = ask_table (set_ask i ?q s)" by (simp add: t s1)
  ultimately show "used_ids t = insert n (used_ids s)" "open_ids t = insert n (open_ids s)"
    using ids_cong by metis+
qed

lemma ask_step_ids:
  assumes "ask_step s e t" "ask_inv s"
  shows "ask_inv t \<and> event_allowed e (used_ids s) (open_ids s)
    \<and> used_ids t = used_after e (used_ids s) \<and> open_ids t = open_after e (open_ids s)"
  using assms
proof (cases rule: ask_step.cases)
  case step_other
  then show ?thesis using assms(2) ask_inv_cong [of t s] ids_cong [of t s] by simp
next
  case step_reserve
  then show ?thesis using reserve_ask_ids [OF assms(2)] reserve_ask_inv [OF assms(2)] by simp
next
  case (step_clear n)
  then obtain i where i: "find_pending_ask n s = Some i" by blast
  note at = find_pending_ask_SomeD [OF i]
  then show ?thesis
    using step_clear i ids_clear [OF assms(2) at] clear_ask_inv [OF assms(2), of n]
    by (auto simp: clear_ask_def used_ids_iff)
next
  case (step_cancel a n)
  then obtain i where i: "find_pending_ask n s = Some i" "t = set_ask i zero_pending_ask s"
    by (auto simp: cancel_section_def split: option.splits if_splits)
  note at = find_pending_ask_SomeD [OF i(1)]
  then show ?thesis
    using step_cancel i ids_clear [OF assms(2) at] ask_sections_inv(2) [OF assms(2), of a n]
    by (auto simp: used_ids_iff)
next
  case (step_reply req desc a)
  then obtain i where i: "find_pending_ask (m_ask_id req) s = Some i"
    "\<not> q_reply_sent (ask_table s ! i)" "t = set_ask i ((ask_table s ! i)\<lparr> q_reply_sent := True \<rparr>) s"
    by (auto simp: reply_section_def Let_def split: option.splits if_splits)
  note at = find_pending_ask_SomeD [OF i(1)]
  then show ?thesis
    using step_reply i ids_mark [OF assms(2) at, of "(ask_table s ! i)\<lparr> q_reply_sent := True \<rparr>"]
      ask_sections_inv(3) [OF assms(2), of req desc]
    by (auto simp: open_ids_iff pending_at_def)
next
  case (step_reply_too_big req desc)
  then obtain i where i: "find_pending_ask (m_ask_id req) s = Some i" "t = set_ask i zero_pending_ask s"
    by (auto simp: reply_section_def Let_def split: option.splits if_splits)
  note at = find_pending_ask_SomeD [OF i(1)]
  then show ?thesis
    using step_reply_too_big i ids_clear [OF assms(2) at] ask_sections_inv(3) [OF assms(2), of req desc]
    by (auto simp: used_ids_iff)
next
  case (step_reply_error req r)
  then obtain i where i: "find_pending_ask (m_ask_id req) s = Some i"
    "\<not> q_reply_sent (ask_table s ! i)" "t = set_ask i ((ask_table s ! i)\<lparr> q_reply_sent := True \<rparr>) s"
    by (auto simp: reply_error_section_def Let_def split: option.splits if_splits)
  note at = find_pending_ask_SomeD [OF i(1)]
  then show ?thesis
    using step_reply_error i ids_mark [OF assms(2) at, of "(ask_table s ! i)\<lparr> q_reply_sent := True \<rparr>"]
      ask_sections_inv(4) [OF assms(2), of req]
    by (auto simp: open_ids_iff pending_at_def)
next
  case (step_expire a n)
  then obtain i where i: "find_pending_ask n s = Some i"
    "t = set_ask i ((ask_table s ! i)\<lparr> q_reply_sent := True, q_timeout_queued := True \<rparr>) s"
    by (auto simp: expire_section_def Let_def split: option.splits if_splits)
  note at = find_pending_ask_SomeD [OF i(1)]
  then show ?thesis
    using step_expire i ids_mark [OF assms(2) at, of "(ask_table s ! i)\<lparr> q_reply_sent := True, q_timeout_queued := True \<rparr>"]
      ask_sections_inv(5) [OF assms(2), of a n]
    by (auto simp: used_ids_iff pending_at_def)
next
  case (step_undo n i a)
  note at = find_pending_ask_SomeD [OF step_undo(3)]
  then show ?thesis
    using step_undo ids_mark [OF assms(2) at, of "(ask_table s ! i)\<lparr> q_reply_sent := False, q_timeout_queued := False \<rparr>"]
      ask_sections_inv(6) [OF assms(2), of a n]
    by (auto simp: used_ids_iff pending_at_def expire_undo_section_def)
next
  case (step_take self msg cb)
  then obtain i where i: "find_pending_ask (m_ask_id msg) s = Some i" "t = set_ask i zero_pending_ask s"
    by (auto simp: take_pending_cases split: option.splits if_splits)
  note at = find_pending_ask_SomeD [OF i(1)]
  then show ?thesis
    using step_take i ids_clear [OF assms(2) at] take_pending_inv [OF assms(2), of self msg]
    by (auto simp: used_ids_iff)
qed

section \<open>Counting events\<close>

definition conserved :: "('p, 'u) sys \<Rightarrow> ask_event list \<Rightarrow> u32 \<Rightarrow> bool" where
  "conserved s evs n \<longleftrightarrow>
     count_list evs (Reserved n)
       = count_list evs (Taken n) + count_list evs (Dropped n) + (if n \<in> used_ids s then 1 else 0)
     \<and> count_list evs (Answered n) + (if n \<in> open_ids s then 1 else 0)
       \<le> count_list evs (Reserved n) + count_list evs (Undone n)"

lemma conserved_step:
  assumes "conserved s evs n" "ask_step s e t" "ask_inv s"
  shows "conserved t (evs @ [e]) n"
proof -
  note ids = ask_step_ids [OF assms(2,3)]
  have "n \<in> open_ids s \<Longrightarrow> n \<in> used_ids s" using open_used by blast
  with assms(1) ids show ?thesis
    by (cases e) (auto simp: conserved_def split: if_splits)
qed

lemma ask_exec_conserves:
  assumes "ask_exec s evs t" "ask_inv s" "used_ids s = {}"
  shows "ask_inv t \<and> (\<forall>n. conserved t evs n)"
  using assms
proof (induction rule: ask_exec.induct)
  case (exec_done s)
  then show ?case using open_used [of s] by (simp add: conserved_def)
next
  case (exec_step s evs t e u)
  then show ?case using conserved_step ask_step_ids by blast
qed

section \<open>The API operations are sequences of steps\<close>

definition ask_run :: "('p, 'u) sys \<Rightarrow> ('p, 'u) sys \<Rightarrow> bool" where
  "ask_run s t \<longleftrightarrow> (\<exists>evs. ask_exec s evs t)"

lemma ask_exec_append: "ask_exec t evs u \<Longrightarrow> ask_exec s evs0 t \<Longrightarrow> ask_exec s (evs0 @ evs) u"
proof (induction arbitrary: evs0 rule: ask_exec.induct)
  case (exec_done s)
  then show ?case by simp
next
  case (exec_step s evs t e u)
  then show ?case using ask_exec.exec_step by (metis append_assoc)
qed

lemma ask_run_trans [trans]: "ask_run s t \<Longrightarrow> ask_run t u \<Longrightarrow> ask_run s u"
  unfolding ask_run_def using ask_exec_append by blast

lemma ask_run_step: "ask_step s e t \<Longrightarrow> ask_run s t"
  unfolding ask_run_def using exec_step [OF exec_done] by (metis append_Nil)

lemma ask_run_quiet: "conf t = conf s \<Longrightarrow> ask_table t = ask_table s \<Longrightarrow> ask_run s t"
  by (rule ask_run_step [OF step_other])

lemma ask_run_refl: "ask_run s s"
  by (rule ask_run_quiet) simp_all

lemma ask_run_ensure_id: "ask_run s (ipc_ensure_id d s)"
  by (rule ask_run_quiet) (simp_all add: frame_simps)

lemma ask_run_delivery: "ask_run s (snd (apply_mailbox_overflow_policy a (ipc_port_send P a m s)))"
  using delivery_only_fields [OF delivery_only_send [of s a P m]] by (intro ask_run_quiet) simp_all

lemma ask_run_port_send: "ask_run s (snd (ipc_port_send P a m s))"
  by (rule ask_run_quiet) (simp_all add: frame_simps)

lemma ask_run_clear: "ask_run s (clear_ask n s)"
  by (cases "find_pending_ask n s = None")
     (auto simp: clear_ask_def intro: ask_run_refl ask_run_step [OF step_clear, unfolded clear_ask_def])

lemma reply_section_results:
  "snd (reply_section req desc s) = s \<or> fst (reply_section req desc s) = Inl (- EMSGSIZE)
   \<or> (\<exists>a. fst (reply_section req desc s) = Inr a)"
  by (simp add: reply_section_def Let_def split: option.split)

lemma ask_run_sections:
  "ask_run s (snd (cancel_section a n s))" "ask_run s (snd (reply_section req desc s))"
  "ask_run s (snd (reply_error_section req s))" "ask_run s (snd (expire_section a n s))"
  "ask_run s (expire_undo_section a n s)" "ask_run s (snd (take_pending self msg s))"
proof -
  show "ask_run s (snd (cancel_section a n s))"
  proof (cases "fst (cancel_section a n s) = 0")
    case True
    then have "cancel_section a n s = (0, snd (cancel_section a n s))" by (simp add: prod_eq_iff)
    then show ?thesis by (rule ask_run_step [OF step_cancel])
  next
    case False
    moreover have "snd (cancel_section a n s) = s \<or> fst (cancel_section a n s) = 0"
      by (simp add: cancel_section_def split: option.split)
    ultimately show ?thesis by (auto simp: ask_run_refl)
  qed
  show "ask_run s (snd (reply_section req desc s))"
  proof -
    consider "snd (reply_section req desc s) = s"
      | "fst (reply_section req desc s) = Inl (- EMSGSIZE)"
      | a where "fst (reply_section req desc s) = Inr a"
      using reply_section_results [of req desc s] by blast
    then show ?thesis
    proof cases
      case 1
      then show ?thesis by (simp add: ask_run_refl)
    next
      case 2
      then have "reply_section req desc s = (Inl (- EMSGSIZE), snd (reply_section req desc s))"
        by (simp add: prod_eq_iff)
      then show ?thesis by (rule ask_run_step [OF step_reply_too_big])
    next
      case (3 a)
      then have "reply_section req desc s = (Inr a, snd (reply_section req desc s))"
        by (simp add: prod_eq_iff)
      then show ?thesis by (rule ask_run_step [OF step_reply])
    qed
  qed
  show "ask_run s (snd (reply_error_section req s))"
  proof (cases "fst (reply_error_section req s)")
    case (Inl rc)
    moreover have "snd (reply_error_section req s) = s \<or> (\<exists>r. fst (reply_error_section req s) = Inr r)"
      by (simp add: reply_error_section_def Let_def split: option.split)
    ultimately show ?thesis by (auto simp: ask_run_refl)
  next
    case (Inr r)
    then have "reply_error_section req s = (Inr r, snd (reply_error_section req s))" by (simp add: prod_eq_iff)
    then show ?thesis by (rule ask_run_step [OF step_reply_error])
  qed
  show "ask_run s (snd (expire_section a n s))"
  proof (cases "fst (expire_section a n s)")
    case True
    then have "expire_section a n s = (True, snd (expire_section a n s))" by (simp add: prod_eq_iff)
    then show ?thesis by (rule ask_run_step [OF step_expire])
  next
    case False
    moreover have "snd (expire_section a n s) = s \<or> fst (expire_section a n s)"
      by (simp add: expire_section_def Let_def split: option.split)
    ultimately show ?thesis by (auto simp: ask_run_refl)
  qed
  show "ask_run s (expire_undo_section a n s)"
  proof (cases "\<exists>i. find_pending_ask n s = Some i \<and> q_actor (ask_table s ! i) = a")
    case True
    then show ?thesis using ask_run_step [OF step_undo] by blast
  next
    case False
    then have "expire_undo_section a n s = s"
      by (auto simp: expire_undo_section_def Let_def split: option.split)
    then show ?thesis by (simp add: ask_run_refl)
  qed
  show "ask_run s (snd (take_pending self msg s))"
  proof (cases "fst (take_pending self msg s)")
    case None
    moreover have "snd (take_pending self msg s) = s \<or> fst (take_pending self msg s) \<noteq> None"
      by (simp add: take_pending_cases split: option.split)
    ultimately show ?thesis by (auto simp: ask_run_refl)
  next
    case (Some cb)
    then have "take_pending self msg s = (Some cb, snd (take_pending self msg s))" by (simp add: prod_eq_iff)
    then show ?thesis by (rule ask_run_step [OF step_take])
  qed
qed

lemma ask_run_reserve:
  assumes "reserve_ask self reply_id cb now_ms timeout_ms s = (r, t)"
  shows "ask_run s t"
proof (cases r)
  case (Inl rc)
  have "conf t = conf s \<and> ask_table t = ask_table s"
  proof (cases "alloc_pending_ask s")
    case None
    then show ?thesis using assms by (simp add: reserve_ask_full)
  next
    case (Some i)
    obtain r1 s1 where a: "alloc_ask_id s = (r1, s1)" by (cases "alloc_ask_id s")
    with assms Inl Some have "r1 = Inl rc" "s1 = t"
      by (simp_all add: reserve_ask_def split: sum.splits)
    with a show ?thesis using alloc_ask_id_loop_Inl [of 0 s rc t] by (simp add: alloc_ask_id_def)
  qed
  then show ?thesis by (simp add: ask_run_quiet)
next
  case (Inr n)
  with assms show ?thesis using ask_run_step [OF step_reserve] by blast
qed

lemma ask_run_tail:
  assumes "ask_tail P self timeout_ms target msg n s = (rc, out, t)"
  shows "ask_run s t"
proof (cases "rc = 0")
  case True
  with ask_tail_frame [OF assms] show ?thesis using ask_run_quiet by metis
next
  case False
  with ask_tail_frame [OF assms] obtain u where "ask_table u = ask_table s" "conf u = conf s"
    "t = clear_ask n u" by auto
  then show ?thesis using ask_run_trans [OF ask_run_quiet ask_run_clear] by blast
qed

lemma ask_run_ask:
  "ask_run s (snd (snd (ipc_ask_with_id_raw P (Some self) (Some rq) payload (Some rp) (Some cb) timeout_ms s)))"
proof (cases "\<exists>target. ask_accepted self rq rp target s")
  case False
  obtain rc out t where r: "ipc_ask_with_id_raw P (Some self) (Some rq) payload (Some rp) (Some cb)
      timeout_ms s = (rc, out, t)" by (rule prod_cases3)
  from False ask_rejected [OF _ r] show ?thesis by (simp add: r ask_run_quiet)
next
  case True
  then obtain target where acc: "ask_accepted self rq rp target s" by blast
  let ?s2 = "ipc_ensure_id rp (ipc_ensure_id rq s)"
  let ?rid = "eventual_id (descs (ipc_ensure_id rq s) rp)"
  obtain r s3 where res: "reserve_ask self ?rid cb (port_now_ms P (port_st s)) timeout_ms ?s2 = (r, s3)"
    by (cases "reserve_ask self ?rid cb (port_now_ms P (port_st s)) timeout_ms ?s2")
  have "ask_run s ?s2" using ask_run_trans [OF ask_run_ensure_id ask_run_ensure_id] .
  also have "ask_run ?s2 s3" by (rule ask_run_reserve [OF res])
  finally have s3: "ask_run s s3" .
  have eq: "ipc_ask_with_id_raw P (Some self) (Some rq) payload (Some rp) (Some cb) timeout_ms s
      = (case (r, s3) of (Inl rc, s3) \<Rightarrow> (rc, 0, s3)
         | (Inr n, s3) \<Rightarrow> ask_tail P self timeout_ms target (ask_request s rq rp payload n) n s3)"
    using acc unfolding res [symmetric] by (intro ipc_ask_with_id_raw_tail) (simp_all add: ask_accepted_def)
  show ?thesis
  proof (cases r)
    case (Inl rc)
    then show ?thesis using s3 by (simp add: eq)
  next
    case (Inr n)
    obtain rc out t where tail: "ask_tail P self timeout_ms target (ask_request s rq rp payload n) n s3
        = (rc, out, t)" by (rule prod_cases3)
    show ?thesis using ask_run_trans [OF s3 ask_run_tail [OF tail]] by (simp add: eq Inr tail)
  qed
qed

lemma ask_run_reply: "ask_run s (snd (ipc_reply_raw P (Some req) (Some d) payload s))"
proof -
  let ?s1 = "ipc_ensure_id d s"
  obtain r s2 where sec: "reply_section req (descs ?s1 d) ?s1 = (r, s2)"
    by (cases "reply_section req (descs ?s1 d) ?s1")
  have s2: "ask_run s s2"
    using ask_run_trans [OF ask_run_ensure_id [of s d] ask_run_sections(2) [of ?s1 req "descs ?s1 d"]]
    by (simp add: sec)
  show ?thesis
  proof (cases r)
    case (Inl rc)
    then show ?thesis using s2 by (simp add: ipc_reply_raw_def Let_def sec ask_run_refl)
  next
    case (Inr target)
    let ?m = "(make_msg (descs ?s1 d) payload)\<lparr> m_ask_id := m_ask_id req \<rparr>"
    obtain rc s3 where del: "apply_mailbox_overflow_policy target (ipc_port_send P target ?m s2) = (rc, s3)"
      by (cases "apply_mailbox_overflow_policy target (ipc_port_send P target ?m s2)")
    have "ask_run s s3"
      using ask_run_trans [OF s2 ask_run_delivery [of s2 target P ?m]] by (simp add: del)
    then show ?thesis
      using ask_run_trans [OF _ ask_run_clear, of s]
      by (simp add: ipc_reply_raw_def Let_def sec Inr del ask_run_refl)
  qed
qed

lemma ask_run_reply_error: "ask_run s (snd (ipc_reply_error_raw P (Some req) result s))"
proof -
  obtain r s1 where sec: "reply_error_section req s = (r, s1)" by (cases "reply_error_section req s")
  have s1: "ask_run s s1" using ask_run_sections(3) [of s req] by (simp add: sec)
  show ?thesis
  proof (cases r)
    case (Inl rc)
    then show ?thesis using s1 by (simp add: ipc_reply_error_raw_def sec ask_run_refl)
  next
    case (Inr x)
    obtain target reply_id where x: "x = (target, reply_id)" by (cases x)
    let ?m = "reply_error_msg reply_id (m_ask_id req) result"
    obtain rc s2 where del: "ipc_port_send P target ?m s1 = (rc, s2)" by (cases "ipc_port_send P target ?m s1")
    have "ask_run s s2"
      using ask_run_trans [OF s1 ask_run_port_send [of s1 P target ?m]] by (simp add: del)
    then show ?thesis
      using ask_run_trans [OF _ ask_run_clear, of s]
      by (simp add: ipc_reply_error_raw_def sec Inr x del ask_run_refl)
  qed
qed

lemma ask_run_timeout: "ask_run s (ipc_ask_timeout_expired P a n s)"
proof -
  obtain b s1 where sec: "expire_section a n s = (b, s1)" by (cases "expire_section a n s")
  obtain rc s2 where del: "ipc_port_send P a (timeout_msg n) s1 = (rc, s2)"
    by (cases "ipc_port_send P a (timeout_msg n) s1")
  have s1: "ask_run s s1" using ask_run_sections(4) [of s a n] by (simp add: sec)
  have "ask_run s s2"
    using ask_run_trans [OF s1 ask_run_port_send [of s1 P a "timeout_msg n"]] by (simp add: del)
  then show ?thesis
    using s1 ask_run_trans [OF _ ask_run_sections(5), of s]
    by (cases b) (simp_all add: ipc_ask_timeout_expired_def sec del ask_run_refl)
qed

lemma ask_run_cancel: "ask_run s (snd (ipc_ask_cancel a n s))"
  by (simp add: ipc_ask_cancel_def ask_run_refl ask_run_sections(1))

text \<open>Dispatch is a sequence of steps whenever the application code it calls is.\<close>

lemma ask_run_dispatch:
  assumes "\<And>c t. ask_run t (U c t)"
  shows "ask_run s (ipc_dispatch_actor_handlers U (Some self) (Some msg) s)"
proof -
  have h: "ask_run t (dispatch_to_handler U self msg t)" for t
    by (simp add: dispatch_to_handler_def assms ask_run_refl split: option.split)
  obtain r s1 where take: "take_pending self msg s = (r, s1)" by (cases "take_pending self msg s")
  then have "ask_run s s1" using ask_run_sections(6) [of s self msg] by simp
  then show ?thesis
    using assms h ask_run_trans [of s s1]
    by (simp add: ipc_dispatch_actor_handlers_def take split: option.split)
qed

section \<open>Properties\<close>

text \<open>
  C1: no ask is lost or answered twice, under every interleaving of threads. In any sequence of
  critical sections and other steps from the zeroed program, for every ask ID \<open>n\<close>: the number of
  times \<open>n\<close> was reserved equals the number of callbacks taken for it plus the number of times it was
  cancelled or dropped after a failure, plus one if it is still pending; replies are accepted at most
  once per reservation, except for one more after each timeout that could not be queued; and the
  table invariant (distinct nonzero IDs, zeroed free entries) holds.
\<close>

theorem ask_conservation:
  assumes "ask_exec (ipc_initial c as ds p u) evs s"
  shows "ask_inv s
    \<and> count_list evs (Reserved n)
       = count_list evs (Taken n) + count_list evs (Dropped n) + (if n \<in> used_ids s then 1 else 0)
    \<and> count_list evs (Answered n) \<le> count_list evs (Reserved n) + count_list evs (Undone n)"
proof -
  have "used_ids (ipc_initial c as ds p u) = {}" by (auto simp: used_ids_def ipc_initial_def)
  from ask_exec_conserves [OF assms ask_inv_initial this]
  have "ask_inv s" "conserved s evs n" by blast+
  then show ?thesis by (simp add: conserved_def)
qed

theorem ask_conservation_witness:
  "\<exists>s. ask_exec (ex_initial () ()) [Reserved 1] s
     \<and> count_list [Reserved 1] (Reserved 1)
        = count_list [Reserved 1] (Taken 1) + count_list [Reserved 1] (Dropped 1)
          + (if 1 \<in> used_ids s then 1 else 0)"
proof -
  obtain s where "reserve_ask 1 12 61 0 0 (ex_initial () ()) = (Inr 1, s)"
    by (simp add: reserve_ask_def alloc_pending_ask_def alloc_ask_id_def alloc_ask_id_loop.simps
        find_pending_ask_def ex_defs zero_pending_ask_def)
  then have "ask_step (ex_initial () ()) (Reserved 1) s" by (rule step_reserve)
  then have run: "ask_exec (ex_initial () ()) [Reserved 1] s"
    using exec_step [OF exec_done] by fastforce
  with ask_conservation [OF run [unfolded ex_initial_def], of 1] show ?thesis by blast
qed


end
