(* ===== verification/Ring_Buffer.thy ===== *)
theory Ring_Buffer
  imports Ipc_Routing
begin

text \<open>
  What the POSIX port and the test port share: the queue slot (\<^verbatim>\<open>ipc_msg_slot_header_t\<close> followed by
  the payload area), writing and reading one, a ring of slots as the sequence it holds, and the
  contract of a bounded FIFO with the history lemma its users need.
\<close>

section \<open>Slots\<close>

text \<open>\<open>slot_bytes\<close> is the payload area, which has the slot's size less the header's.\<close>

record slot =
  h_id :: u32
  h_kind :: ipc_msg_kind_t
  h_size :: nat
  h_ask_id :: u32
  h_reply_id :: u32
  h_result :: int
  slot_bytes :: "u8 list"

text \<open>\<^verbatim>\<open>calloc\<close>: a zeroed slot (kind 0 is \<open>IPC_EVENT\<close>).\<close>

definition zero_slot :: "nat \<Rightarrow> slot" where
  "zero_slot n =
     \<lparr> h_id = 0, h_kind = IPC_EVENT, h_size = 0, h_ask_id = 0, h_reply_id = 0, h_result = 0,
       slot_bytes = replicate n 0 \<rparr>"

definition payload_area :: "u64 \<Rightarrow> nat" where
  "payload_area slot_size = unat (slot_size - IPC_MSG_SLOT_HEADER_SIZE)"

lemma slot_header_size: "IPC_MSG_SLOT_HEADER_SIZE = 32"
  by (simp add: IPC_MSG_SLOT_HEADER_SIZE_def IPC_ALIGN_UP_def alignof_max_align_t_def
      sizeof_ipc_msg_slot_header_t_def)

lemma payload_area_slot_size:
  assumes "n + 48 \<le> 2 ^ 64"
  shows "n \<le> payload_area (IPC_MSG_SLOT_SIZE (of_nat n))"
proof -
  have "32 + n \<le> unat (IPC_MSG_SLOT_SIZE (of_nat n))"
    unfolding ipc_msg_slot_size_unat [OF assms] using round_up_bounds(2) [of 16 "32 + n"] by simp
  then show ?thesis
    by (simp add: payload_area_def slot_header_size unat_sub word_le_nat_alt)
qed

text \<open>
  \<^verbatim>\<open>memcpy(dst, src, n)\<close> and \<^verbatim>\<open>memset(dst, 0, n)\<close>; \<open>copy_payload\<close> is the block both ports use to fill
  a payload area (\<^verbatim>\<open>if (msg->size > 0) ...\<close>).
\<close>

definition memcpy :: "u8 list \<Rightarrow> u8 list \<Rightarrow> nat \<Rightarrow> u8 list" where
  "memcpy dst src n = take n src @ drop (min n (length src)) dst"

definition memset_0 :: "u8 list \<Rightarrow> nat \<Rightarrow> u8 list" where
  "memset_0 dst n = replicate n 0 @ drop n dst"

definition copy_payload :: "u8 list \<Rightarrow> ipc_msg \<Rightarrow> u8 list" where
  "copy_payload dst msg =
     (if m_size msg > 0 then
        (case m_payload msg of
           Some src \<Rightarrow> memcpy dst src (m_size msg)
         | None \<Rightarrow> memset_0 dst (m_size msg))
      else dst)"

definition write_slot :: "ipc_msg \<Rightarrow> slot \<Rightarrow> slot" where
  "write_slot msg s =
     \<lparr> h_id = m_id msg, h_kind = m_kind msg, h_size = m_size msg, h_ask_id = m_ask_id msg,
       h_reply_id = m_reply_id msg, h_result = m_result msg,
       slot_bytes = copy_payload (slot_bytes s) msg \<rparr>"

text \<open>\<^verbatim>\<open>store_msg\<close> of the POSIX port: the slot and the return code.\<close>

definition store_msg :: "u64 \<Rightarrow> slot \<Rightarrow> ipc_msg \<Rightarrow> slot \<times> int" where
  "store_msg slot_size s msg =
     (if m_size msg > payload_area slot_size then (s, - EMSGSIZE) else (write_slot msg s, 0))"

text \<open>The payload pointer of a loaded message points at the whole payload area.\<close>

definition load_msg :: "slot \<Rightarrow> ipc_msg" where
  "load_msg s =
     \<lparr> m_id = h_id s, m_kind = h_kind s, m_size = h_size s, m_payload = Some (slot_bytes s),
       m_ask_id = h_ask_id s, m_reply_id = h_reply_id s, m_result = h_result s \<rparr>"

lemma take_memcpy: "n \<le> length src \<Longrightarrow> take n (memcpy dst src n) = take n src"
  by (simp add: memcpy_def min_def)

lemma length_memcpy: "n \<le> length dst \<Longrightarrow> length (memcpy dst src n) = length dst"
  by (simp add: memcpy_def min_def)

lemma length_copy_payload: "m_size m \<le> length dst \<Longrightarrow> length (copy_payload dst m) = length dst"
  by (simp add: copy_payload_def length_memcpy memset_0_def split: option.splits)

lemma take_copy_payload: "msg_readable m \<Longrightarrow> take (m_size m) (copy_payload dst m) = msg_bytes m"
  by (auto simp: copy_payload_def msg_bytes_def msg_readable_def take_memcpy memset_0_def
      split: option.splits)

text \<open>A message written to a slot and read back is the sent message with its own payload bytes.\<close>

lemma received_load_write_slot:
  assumes "msg_readable m"
  shows "received (load_msg (write_slot m s)) = received m"
proof -
  have "msg_bytes (load_msg (write_slot m s)) = msg_bytes m"
    using take_copy_payload [OF assms] by (simp add: msg_bytes_def load_msg_def write_slot_def)
  then show ?thesis
    by (simp add: received_def) (simp add: load_msg_def write_slot_def)
qed

section \<open>A ring as a sequence\<close>

definition ring_contents :: "slot list \<Rightarrow> nat \<Rightarrow> nat \<Rightarrow> ipc_msg list" where
  "ring_contents slots head cnt =
     map (\<lambda>i. received (load_msg (slots ! ((head + i) mod length slots)))) [0..<cnt]"

lemma length_ring_contents [simp]: "length (ring_contents slots head cnt) = cnt"
  by (simp add: ring_contents_def)

lemma ring_contents_0 [simp]: "ring_contents slots head 0 = []"
  by (simp add: ring_contents_def)

lemma ring_index_inj:
  assumes "i < c" "j < c" "(h + i) mod c = (h + j) mod (c::nat)"
  shows "i = j"
proof (rule ccontr)
  assume "i \<noteq> j"
  then consider "i < j" | "j < i" by linarith
  then show False
  proof cases
    case 1
    then have "c dvd (h + j) - (h + i)" using assms(3) by (metis mod_eq_dvd_iff_nat nat_add_left_cancel_le nat_less_le)
    with 1 assms(2) show False by (auto dest: dvd_imp_le)
  next
    case 2
    then have "c dvd (h + i) - (h + j)" using assms(3) by (metis mod_eq_dvd_iff_nat nat_add_left_cancel_le nat_less_le)
    with 2 assms(1) show False by (auto dest: dvd_imp_le)
  qed
qed

lemma ring_contents_enqueue:
  assumes "cnt < length slots" "tail = (head + cnt) mod length slots" "msg_readable m"
  shows "ring_contents (slots[tail := write_slot m (slots ! tail)]) head (cnt + 1)
       = ring_contents slots head cnt @ [received m]"
proof -
  let ?slots = "slots[tail := write_slot m (slots ! tail)]"
  have "?slots ! ((head + i) mod length slots) = slots ! ((head + i) mod length slots)"
    if "i < cnt" for i
  proof -
    have "(head + i) mod length slots \<noteq> tail"
      using ring_index_inj [of i "length slots" cnt head] that assms(1,2) by auto
    then show ?thesis by simp
  qed
  moreover have "tail < length slots" using assms(1,2) by (metis gr_zeroI mod_less_divisor not_less0)
  ultimately show ?thesis
    using assms by (simp add: ring_contents_def received_load_write_slot)
qed

lemma ring_contents_dequeue:
  assumes "0 < cnt" "0 < length slots" "head < length slots"
  shows "ring_contents slots head cnt
       = received (load_msg (slots ! head))
         # ring_contents slots ((head + 1) mod length slots) (cnt - 1)"
proof -
  obtain n where n: "cnt = Suc n" using assms(1) by (cases cnt) auto
  have upt: "[0..<Suc n] = 0 # map Suc [0..<n]" by (simp add: map_Suc_upt upt_conv_Cons)
  have step: "((head + 1) mod c + i) mod c = (head + Suc i) mod c" for i c :: nat
    using mod_add_left_eq [of "head + 1" c i] by simp
  show ?thesis
    unfolding n ring_contents_def upt list.map step using assms(3) by (simp add: comp_def)
qed

text \<open>
  A well-formed ring: indices in range, the tail where head and count put it, payload areas of the
  slot's size, and stored sizes that fit them.
\<close>

definition ring_ok :: "nat \<Rightarrow> slot list \<Rightarrow> nat \<Rightarrow> nat \<Rightarrow> nat \<Rightarrow> nat \<Rightarrow> bool" where
  "ring_ok area slots cap head tail cnt \<longleftrightarrow>
     length slots = cap \<and> head < cap \<and> cnt \<le> cap \<and> tail = (head + cnt) mod cap
     \<and> list_all (\<lambda>sl. length (slot_bytes sl) = area \<and> h_size sl \<le> area) slots"

lemma ring_ok_empty: "0 < cap \<Longrightarrow> ring_ok area (replicate cap (zero_slot area)) cap 0 0 0"
  by (simp add: ring_ok_def list_all_iff zero_slot_def)

lemma ring_ok_reset: "ring_ok area slots cap head tail cnt \<Longrightarrow> ring_ok area slots cap 0 0 0"
  by (auto simp: ring_ok_def)

lemma ring_ok_enqueue:
  assumes "ring_ok area slots cap head tail cnt" "cnt < cap" "m_size m \<le> area"
  shows "ring_ok area (slots[tail := write_slot m (slots ! tail)]) cap head ((tail + 1) mod cap) (cnt + 1)"
    "msg_readable m \<Longrightarrow>
       ring_contents (slots[tail := write_slot m (slots ! tail)]) head (cnt + 1)
         = ring_contents slots head cnt @ [received m]"
proof -
  let ?sl = "write_slot m (slots ! tail)"
  note ok = assms(1) [unfolded ring_ok_def]
  have tail: "tail < length slots" using ok assms(2) by simp
  then have "length (slot_bytes ?sl) = area"
    using ok assms(3) by (simp add: write_slot_def length_copy_payload list_all_length)
  then have "list_all (\<lambda>sl. length (slot_bytes sl) = area \<and> h_size sl \<le> area) (slots[tail := ?sl])"
    using ok assms(3) by (auto simp: list_all_iff write_slot_def dest!: set_list_update_cases)
  moreover have "(tail + 1) mod cap = (head + (cnt + 1)) mod cap"
    using mod_add_left_eq [of "head + cnt" cap 1] ok by (simp add: add.assoc)
  ultimately show "ring_ok area (slots[tail := ?sl]) cap head ((tail + 1) mod cap) (cnt + 1)"
    using ok assms(2) by (simp add: ring_ok_def)
  show "msg_readable m \<Longrightarrow> ring_contents (slots[tail := ?sl]) head (cnt + 1)
      = ring_contents slots head cnt @ [received m]"
    by (rule ring_contents_enqueue) (use ok assms(2) in simp_all)
qed

lemma ring_ok_dequeue:
  assumes "ring_ok area slots cap head tail cnt" "0 < cnt"
  shows "ring_ok area slots cap ((head + 1) mod cap) tail (cnt - 1)"
    "ring_contents slots head cnt
       = received (load_msg (slots ! head)) # ring_contents slots ((head + 1) mod cap) (cnt - 1)"
    "msg_readable (load_msg (slots ! head))"
proof -
  note ok = assms(1) [unfolded ring_ok_def]
  have "((head + 1) mod cap + (cnt - 1)) mod cap = tail"
    using mod_add_left_eq [of "head + 1" cap "cnt - 1"] assms(2) ok by simp
  moreover have "cnt \<le> cap" using ok by blast
  then have "cnt - 1 \<le> cap" by linarith
  ultimately show "ring_ok area slots cap ((head + 1) mod cap) tail (cnt - 1)"
    using ok by (simp add: ring_ok_def)
  show "ring_contents slots head cnt
      = received (load_msg (slots ! head)) # ring_contents slots ((head + 1) mod cap) (cnt - 1)"
    using ring_contents_dequeue [of cnt slots head] ok assms(2) by simp
  show "msg_readable (load_msg (slots ! head))"
    using ok by (simp add: load_msg_def msg_readable_def list_all_length)
qed

section \<open>Bounded FIFO\<close>

text \<open>
  The contract of a mailbox queue: \<open>enq\<close> gives the return code of the send, \<open>deq\<close> the message the
  receiver loop takes next, \<open>None\<close> when it finds the queue empty.
\<close>

locale bounded_fifo =
  fixes inv :: "'q \<Rightarrow> bool"
    and contents :: "'q \<Rightarrow> ipc_msg list"
    and limit :: "'q \<Rightarrow> nat"
    and fits :: "'q \<Rightarrow> ipc_msg \<Rightarrow> bool"
    and enq :: "ipc_msg \<Rightarrow> 'q \<Rightarrow> 'q \<times> int"
    and deq :: "'q \<Rightarrow> (ipc_msg \<times> 'q) option"
  assumes enq_inv: "inv q \<Longrightarrow> inv (fst (enq m q))"
    and enq_limit: "limit (fst (enq m q)) = limit q"
    and enq_fits: "inv q \<Longrightarrow> fits (fst (enq m q)) k = fits q k"
    and enq_room: "inv q \<Longrightarrow> msg_readable m \<Longrightarrow> fits q m \<Longrightarrow> length (contents q) < limit q \<Longrightarrow>
      snd (enq m q) = 0 \<and> contents (fst (enq m q)) = contents q @ [received m]"
    and enq_no_room: "inv q \<Longrightarrow> \<not> (fits q m \<and> length (contents q) < limit q) \<Longrightarrow>
      snd (enq m q) < 0 \<and> contents (fst (enq m q)) = contents q"
    and bounded: "inv q \<Longrightarrow> length (contents q) \<le> limit q"
    and deq_None: "inv q \<Longrightarrow> deq q = None \<longleftrightarrow> contents q = []"
    and deq_Some: "inv q \<Longrightarrow> deq q = Some (m, q') \<Longrightarrow>
      inv q' \<and> contents q = received m # contents q' \<and> limit q' = limit q \<and> fits q' k = fits q k"
begin

text \<open>
  A history of the queue: sends with their return codes and takes, oldest first.
\<close>

inductive history :: "'q \<Rightarrow> (ipc_msg \<times> int) list \<Rightarrow> ipc_msg list \<Rightarrow> 'q \<Rightarrow> bool" where
  start: "history q [] [] q"
| sent: "history q snd_log taken r \<Longrightarrow> msg_readable m \<Longrightarrow>
    history q (snd_log @ [(m, snd (enq m r))]) taken (fst (enq m r))"
| took: "history q snd_log taken r \<Longrightarrow> deq r = Some (m, r') \<Longrightarrow>
    history q snd_log (taken @ [received m]) r'"

lemma history_inv: "history q ss ts r \<Longrightarrow> inv q \<Longrightarrow> inv r"
  by (induction rule: history.induct) (auto simp: enq_inv dest: deq_Some)

text \<open>Exactly the accepted messages come out, each once, in the order they were accepted.\<close>

lemma history_fifo:
  assumes "history q ss ts r" "inv q"
  shows "ts @ contents r = contents q @ map (received \<circ> fst) (filter (\<lambda>(m, rc). rc = 0) ss)"
  using assms
proof (induction rule: history.induct)
  case (start q)
  then show ?case by simp
next
  case (sent q ss ts r m)
  then have "inv r" using history_inv by blast
  show ?case
  proof (cases "fits r m \<and> length (contents r) < limit r")
    case True
    then have "snd (enq m r) = 0 \<and> contents (fst (enq m r)) = contents r @ [received m]"
      using enq_room [OF \<open>inv r\<close> sent.hyps(2)] by blast
    with sent.IH sent.prems show ?thesis by (simp flip: append_assoc)
  next
    case False
    from enq_no_room [OF \<open>inv r\<close> this]
    have "snd (enq m r) < 0" and "contents (fst (enq m r)) = contents r" by simp_all
    with sent.IH sent.prems show ?thesis by simp
  qed
next
  case (took q ss ts r m r')
  then have "inv r" using history_inv by blast
  from deq_Some [OF this took.hyps(2)] took.IH took.prems show ?case by simp
qed

lemma history_bounded: "history q ss ts r \<Longrightarrow> inv q \<Longrightarrow> length (contents r) \<le> limit q"
proof -
  assume h: "history q ss ts r" and "inv q"
  then have "limit r = limit q"
    by (induction rule: history.induct) (auto simp: enq_limit dest!: deq_Some [OF history_inv])
  with bounded [OF history_inv [OF h \<open>inv q\<close>]] show ?thesis by simp
qed

end

text \<open>A message for the concrete runs.\<close>

definition ex_message :: ipc_msg where
  "ex_message = \<lparr> m_id = 10, m_kind = IPC_CMD, m_size = 2, m_payload = Some [7, 8], m_ask_id = 0,
                 m_reply_id = 0, m_result = 0 \<rparr>"

end
