(* ===== verification/Posix_Port.thy ===== *)
theory Posix_Port
  imports Ring_Buffer
begin

text \<open>
  The POSIX port, \<^verbatim>\<open>src/port/posix/posix_ipc_port.c\<close>: the per-actor state, the mailbox ring, the one
  delayed message per actor, and the port functions the core calls.

  Each function below is one stretch of code under a mutex, or the composition of such stretches.
  The threads are values: \<open>p_thread\<close> is where the actor's thread is (its steps are in
  \<^verbatim>\<open>Posix_Thread\<close>), \<open>p_delay_thread\<close> where the delayed-send thread is; \<^verbatim>\<open>pthread_join\<close> on the latter
  runs it to its end. Calls that can fail in the operating system (\<^verbatim>\<open>calloc\<close>, \<^verbatim>\<open>malloc\<close>,
  \<^verbatim>\<open>pthread_create\<close>) take their outcome from \<open>os_result\<close>: 0, or the error number of the \<open>k\<close>-th
  such call. A write through a \<^verbatim>\<open>NULL\<close> queue pointer, undefined in C, sets \<open>fault\<close> for good.
  Creating and destroying the mutexes and condition variables is left out.
\<close>

section \<open>State\<close>

datatype actor_thread =
    No_thread
  | T_start
  | T_blocked
  | T_handling ipc_msg
  | T_returned
  | T_exited

datatype delay_thread =
    No_delay_thread
  | D_waiting
  | D_posting ipc_msg
  | D_exited

record ipc_port_state =
  p_thread :: actor_thread
  p_ring :: "slot list option"
  p_recv_slot :: "slot option"
  p_slot_size :: u64
  p_capacity :: nat
  p_head :: nat
  p_tail :: nat
  p_count :: nat
  p_running :: bool
  p_joined :: bool
  p_delay_thread :: delay_thread
  p_delay_active :: bool
  p_delay_msg :: ipc_msg
  p_delay_payload :: "u8 list option"
  p_delay_ms :: u32
  p_delay_cancel :: bool
  p_owner :: "aptr option"

text \<open>\<^verbatim>\<open>IPC_ACTOR_DEFINE\<close> makes it a static variable: all zero.\<close>

definition zero_port_state :: ipc_port_state where
  "zero_port_state =
     \<lparr> p_thread = No_thread, p_ring = None, p_recv_slot = None, p_slot_size = 0, p_capacity = 0,
       p_head = 0, p_tail = 0, p_count = 0, p_running = False, p_joined = False,
       p_delay_thread = No_delay_thread, p_delay_active = False,
       p_delay_msg = \<lparr> m_id = 0, m_kind = IPC_EVENT, m_size = 0, m_payload = None, m_ask_id = 0,
                       m_reply_id = 0, m_result = 0 \<rparr>,
       p_delay_payload = None, p_delay_ms = 0, p_delay_cancel = False, p_owner = None \<rparr>"

record ipc_ask_timeout_t =
  t_actor :: aptr
  t_ask_id :: u32
  t_timeout_ms :: u32

record posix =
  port_of :: "aptr \<Rightarrow> ipc_port_state"
  ask_timeouts :: "ipc_ask_timeout_t list"
  clock_monotonic :: "nat \<times> nat"
  os_result :: "nat \<Rightarrow> int"
  os_calls :: nat
  fault :: bool

definition posix_initial :: "(nat \<Rightarrow> int) \<Rightarrow> posix" where
  "posix_initial os =
     \<lparr> port_of = (\<lambda>_. zero_port_state), ask_timeouts = [], clock_monotonic = (0, 0),
       os_result = os, os_calls = 0, fault = False \<rparr>"

text \<open>The next operating-system call that may fail.\<close>

definition os_call :: "posix \<Rightarrow> int \<times> posix" where
  "os_call s = (os_result s (os_calls s), s\<lparr> os_calls := os_calls s + 1 \<rparr>)"

abbreviation set_port :: "aptr \<Rightarrow> ipc_port_state \<Rightarrow> posix \<Rightarrow> posix" where
  "set_port a p s \<equiv> s\<lparr> port_of := (port_of s)(a := p) \<rparr>"

section \<open>The mailbox\<close>

text \<open>The critical section of \<^verbatim>\<open>ipc_port_send\<close>; \<open>None\<close> stands for a write through a \<^verbatim>\<open>NULL\<close> ring.\<close>

definition ring_send :: "ipc_msg \<Rightarrow> ipc_port_state \<Rightarrow> (ipc_port_state \<times> int) option" where
  "ring_send msg p =
     (if p_count p \<ge> p_capacity p then Some (p, - ENOMEM)
      else
        (case p_ring p of
           None \<Rightarrow> if m_size msg > payload_area (p_slot_size p) then Some (p, - EMSGSIZE) else None
         | Some slots \<Rightarrow>
             (case store_msg (p_slot_size p) (slots ! p_tail p) msg of
                (sl, rc) \<Rightarrow>
                  Some (if rc = 0
                        then p\<lparr> p_ring := Some (slots[p_tail p := sl]),
                                p_tail := (p_tail p + 1) mod p_capacity p,
                                p_count := p_count p + 1 \<rparr>
                        else p, rc))))"

definition posix_send :: "aptr \<Rightarrow> ipc_msg \<Rightarrow> posix \<Rightarrow> posix \<times> int" where
  "posix_send a msg s =
     (case ring_send msg (port_of s a) of
        None \<Rightarrow> (s\<lparr> fault := True \<rparr>, 0)
      | Some (p, rc) \<Rightarrow> (set_port a p s, rc))"

text \<open>The receiving half of the thread loop: copy the head slot out and advance.\<close>

definition ring_take :: "ipc_port_state \<Rightarrow> (ipc_msg \<times> ipc_port_state) option" where
  "ring_take p =
     (if p_count p > 0 then
        (case p_ring p of
           None \<Rightarrow> None
         | Some slots \<Rightarrow>
             (let sl = slots ! p_head p
              in Some (load_msg sl,
                   p\<lparr> p_recv_slot := Some sl, p_head := (p_head p + 1) mod p_capacity p,
                      p_count := p_count p - 1 \<rparr>)))
      else None)"

section \<open>Delayed sends\<close>

text \<open>
  The deadline of \<^verbatim>\<open>delay_thread_fn\<close> and of the ask timeout: seconds and nanoseconds, normalised.
\<close>

definition delay_deadline :: "int \<times> int \<Rightarrow> u32 \<Rightarrow> int \<times> int" where
  "delay_deadline now ms =
     (case now of (sec, nsec) \<Rightarrow>
        (let sec1 = sec + uint (ms div 1000);
             nsec1 = nsec + uint (ms mod 1000) * 1000000
         in if nsec1 \<ge> 1000000000 then (sec1 + 1, nsec1 - 1000000000) else (sec1, nsec1)))"

text \<open>The thread leaves its wait: cancelled, or with the message to send outside the lock.\<close>

definition delay_wakes :: "ipc_port_state \<Rightarrow> ipc_port_state" where
  "delay_wakes p =
     (let cancelled = p_delay_cancel p;
          msg = (p_delay_msg p)\<lparr> m_payload := p_delay_payload p \<rparr>
      in p\<lparr> p_delay_cancel := False,
            p_delay_thread := (if cancelled then D_exited else D_posting msg) \<rparr>)"

text \<open>The tail of the thread: an ordinary send to the owner, without a lock of the delay slot.\<close>

definition delay_posts :: "aptr \<Rightarrow> posix \<Rightarrow> posix" where
  "delay_posts a s =
     (case p_delay_thread (port_of s a) of
        D_posting msg \<Rightarrow>
          (let s1 = (case p_owner (port_of s a) of
                       None \<Rightarrow> s\<lparr> fault := True \<rparr>
                     | Some b \<Rightarrow> fst (posix_send b msg s))
           in set_port a ((port_of s1 a)\<lparr> p_delay_thread := D_exited \<rparr>) s1)
      | _ \<Rightarrow> s)"

text \<open>\<^verbatim>\<open>pthread_join(p->delay_thread)\<close> after the cancel flag is set.\<close>

definition join_delay_thread :: "aptr \<Rightarrow> posix \<Rightarrow> posix" where
  "join_delay_thread a s =
     (let s1 = (if p_delay_thread (port_of s a) = D_waiting
                then set_port a (delay_wakes (port_of s a)) s else s)
      in delay_posts a s1)"

definition cancel_delayed_send :: "aptr \<Rightarrow> posix \<Rightarrow> posix" where
  "cancel_delayed_send a s =
     (if p_delay_active (port_of s a) then
        (let s1 = join_delay_thread a
                    (set_port a ((port_of s a)\<lparr> p_delay_cancel := True \<rparr>) s)
         in set_port a ((port_of s1 a)\<lparr> p_delay_cancel := False, p_delay_active := False \<rparr>) s1)
      else s)"

text \<open>
  The part of \<^verbatim>\<open>ipc_port_send_after\<close> that fills the slot; \<open>None\<close> stands for a copy to a \<^verbatim>\<open>NULL\<close>
  \<^verbatim>\<open>delay_payload\<close>.
\<close>

definition fill_delay_slot :: "ipc_msg \<Rightarrow> u32 \<Rightarrow> ipc_port_state \<Rightarrow> ipc_port_state option" where
  "fill_delay_slot msg ms p =
     (case p_delay_payload p of
        None \<Rightarrow>
          if m_size msg > 0 then None
          else Some (p\<lparr> p_delay_msg := msg\<lparr> m_payload := None \<rparr>, p_delay_ms := ms \<rparr>)
      | Some buf \<Rightarrow>
          Some (p\<lparr> p_delay_msg := msg\<lparr> m_payload := Some (copy_payload buf msg) \<rparr>,
                   p_delay_payload := Some (copy_payload buf msg), p_delay_ms := ms \<rparr>))"

definition posix_send_after ::
    "aptr \<Rightarrow> ipc_actor \<Rightarrow> ipc_msg \<Rightarrow> u32 \<Rightarrow> posix \<Rightarrow> posix \<times> int" where
  "posix_send_after a x msg ms s =
     (let s1 = cancel_delayed_send a s
      in if m_size msg > max_payload_size (a_cfg x) then (s1, - EMSGSIZE)
         else
           (case fill_delay_slot msg ms (port_of s1 a) of
              None \<Rightarrow> (s1\<lparr> fault := True \<rparr>, 0)
            | Some p \<Rightarrow>
                (case os_call (set_port a p s1) of
                   (rc, s2) \<Rightarrow>
                     if rc = 0
                     then (set_port a (p\<lparr> p_delay_active := True, p_delay_thread := D_waiting \<rparr>) s2, 0)
                     else (s2, if rc \<le> 0 then rc else - rc))))"

section \<open>Life cycle\<close>

text \<open>\<^verbatim>\<open>ipc_port_actor_init\<close>; the third block has at least one byte.\<close>

definition posix_actor_init :: "aptr \<Rightarrow> ipc_actor \<Rightarrow> posix \<Rightarrow> posix \<times> int" where
  "posix_actor_init a x s =
     (let cap = queue_depth (a_cfg x);
          max_payload = max_payload_size (a_cfg x);
          size = IPC_MSG_SLOT_SIZE (of_nat max_payload);
          p = (port_of s a)\<lparr> p_joined := True, p_owner := Some a, p_slot_size := size \<rparr>;
          (r1, s1) = os_call s; (r2, s2) = os_call s1; (r3, s3) = os_call s2
      in if r1 \<noteq> 0 \<or> r2 \<noteq> 0 \<or> r3 \<noteq> 0
         then (set_port a (p\<lparr> p_ring := None, p_recv_slot := None, p_delay_payload := None \<rparr>) s3,
               - ENOMEM)
         else
           (let p1 = p\<lparr> p_ring := Some (replicate cap (zero_slot (payload_area size))),
                        p_recv_slot := Some (zero_slot (payload_area size)),
                        p_delay_payload := Some (replicate (max max_payload 1) 0),
                        p_capacity := cap, p_head := 0, p_tail := 0, p_count := 0,
                        p_running := True, p_joined := False,
                        p_delay_active := False, p_delay_cancel := False \<rparr>;
                (rc, s4) = os_call s3
            in if rc \<noteq> 0
               then (set_port a (p1\<lparr> p_ring := None, p_recv_slot := None, p_delay_payload := None,
                                     p_running := False, p_joined := True \<rparr>) s4, - rc)
               else (set_port a (p1\<lparr> p_thread := T_start \<rparr>) s4, 0)))"

definition posix_start :: "aptr \<Rightarrow> ipc_actor \<Rightarrow> posix \<Rightarrow> posix \<times> int" where
  "posix_start a x s = (s, 0)"

text \<open>The sections of stop and restart under \<^verbatim>\<open>p->lock\<close>.\<close>

definition stop_section :: "ipc_port_state \<Rightarrow> ipc_port_state" where
  "stop_section p = p\<lparr> p_running := False \<rparr>"

definition restart_section :: "ipc_port_state \<Rightarrow> ipc_port_state" where
  "restart_section p = p\<lparr> p_head := 0, p_tail := 0, p_count := 0, p_running := True \<rparr>"

definition posix_stop_actor :: "aptr \<Rightarrow> posix \<Rightarrow> posix" where
  "posix_stop_actor a s =
     (let s1 = cancel_delayed_send a s in set_port a (stop_section (port_of s1 a)) s1)"

definition posix_restart_actor :: "aptr \<Rightarrow> posix \<Rightarrow> posix \<times> int" where
  "posix_restart_actor a s =
     (let s1 = cancel_delayed_send a s in (set_port a (restart_section (port_of s1 a)) s1, 0))"

definition posix_schedule_ask_timeout :: "aptr \<Rightarrow> u32 \<Rightarrow> u32 \<Rightarrow> posix \<Rightarrow> posix \<times> int" where
  "posix_schedule_ask_timeout a ask_id ms s =
     (case os_call s of
        (r1, s1) \<Rightarrow>
          if r1 \<noteq> 0 then (s1, - ENOMEM)
          else
            (case os_call s1 of
               (rc, s2) \<Rightarrow>
                 if rc \<noteq> 0 then (s2, - rc)
                 else (s2\<lparr> ask_timeouts := ask_timeouts s2
                             @ [\<lparr> t_actor = a, t_ask_id = ask_id, t_timeout_ms = ms \<rparr>] \<rparr>, 0)))"

definition cleanup_actor :: "ipc_port_state \<Rightarrow> ipc_port_state" where
  "cleanup_actor p =
     p\<lparr> p_ring := None, p_recv_slot := None, p_delay_payload := None, p_owner := None \<rparr>"

text \<open>\<^verbatim>\<open>pthread_join\<close> of an actor's thread comes back once the thread has exited; \<open>None\<close>: it blocks.\<close>

fun posix_run_all :: "aptr list \<Rightarrow> posix \<Rightarrow> (posix \<times> int) option" where
  "posix_run_all [] s = Some (s, 0)"
| "posix_run_all (a # as) s =
     (if p_joined (port_of s a) then posix_run_all as s
      else if p_thread (port_of s a) = T_exited
      then posix_run_all as (set_port a (cleanup_actor ((port_of s a)\<lparr> p_joined := True \<rparr>)) s)
      else None)"

definition posix_now_ms :: "posix \<Rightarrow> u32" where
  "posix_now_ms s =
     (case clock_monotonic s of (sec, nsec) \<Rightarrow>
        ucast ((of_nat sec :: u64) * 1000 + of_nat nsec div 1000000))"

definition posix_port :: "posix port_ops" where
  "posix_port =
     \<lparr> port_actor_init = posix_actor_init, port_start = posix_start,
       port_stop_actor = (\<lambda>a x. posix_stop_actor a),
       port_restart_actor = (\<lambda>a x. posix_restart_actor a),
       port_send = (\<lambda>a x. posix_send a), port_send_isr = (\<lambda>a x. posix_send a),
       port_send_after = posix_send_after,
       port_schedule_ask_timeout = (\<lambda>a x. posix_schedule_ask_timeout a),
       port_run_all = posix_run_all, port_now_ms = posix_now_ms \<rparr>"

lemma posix_port_simps [simp]:
  "port_actor_init posix_port = posix_actor_init" "port_start posix_port = posix_start"
  "port_stop_actor posix_port a x = posix_stop_actor a"
  "port_restart_actor posix_port a x = posix_restart_actor a"
  "port_send posix_port a x = posix_send a" "port_send_isr posix_port a x = posix_send a"
  "port_send_after posix_port = posix_send_after"
  "port_schedule_ask_timeout posix_port a x = posix_schedule_ask_timeout a"
  "port_run_all posix_port = posix_run_all" "port_now_ms posix_port = posix_now_ms"
  by (simp_all add: posix_port_def)

section \<open>The mailbox as a bounded FIFO\<close>

definition ring_inv :: "ipc_port_state \<Rightarrow> bool" where
  "ring_inv p \<longleftrightarrow>
     (case p_ring p of
        None \<Rightarrow> False
      | Some slots \<Rightarrow>
          ring_ok (payload_area (p_slot_size p)) slots (p_capacity p) (p_head p) (p_tail p) (p_count p))"

lemma ring_invE:
  assumes "ring_inv p"
  obtains slots where "p_ring p = Some slots"
    "ring_ok (payload_area (p_slot_size p)) slots (p_capacity p) (p_head p) (p_tail p) (p_count p)"
  using assms by (auto simp: ring_inv_def split: option.splits)

lemma ring_inv_count: "ring_inv p \<Longrightarrow> p_count p \<le> p_capacity p"
  by (auto simp: ring_inv_def ring_ok_def split: option.splits)

definition port_mail :: "ipc_port_state \<Rightarrow> ipc_msg list" where
  "port_mail p =
     (case p_ring p of None \<Rightarrow> [] | Some slots \<Rightarrow> ring_contents slots (p_head p) (p_count p))"

lemma length_port_mail: "ring_inv p \<Longrightarrow> length (port_mail p) = p_count p"
  by (simp add: ring_inv_def port_mail_def split: option.splits)

text \<open>Fields the ring does not read.\<close>

lemma ring_inv_cong:
  assumes "p_ring q = p_ring p" "p_capacity q = p_capacity p" "p_head q = p_head p"
    "p_count q = p_count p" "p_tail q = p_tail p" "p_slot_size q = p_slot_size p"
  shows "ring_inv q \<longleftrightarrow> ring_inv p" "port_mail q = port_mail p"
  unfolding ring_inv_def port_mail_def assms by (rule refl)+

lemma delay_wakes_fields [simp]:
  "p_ring (delay_wakes p) = p_ring p" "p_capacity (delay_wakes p) = p_capacity p"
  "p_head (delay_wakes p) = p_head p" "p_tail (delay_wakes p) = p_tail p"
  "p_count (delay_wakes p) = p_count p" "p_slot_size (delay_wakes p) = p_slot_size p"
  "p_owner (delay_wakes p) = p_owner p" "p_running (delay_wakes p) = p_running p"
  by (simp_all add: delay_wakes_def Let_def)

lemma ring_inv_update [simp]:
  "ring_inv (p\<lparr> p_delay_thread := t \<rparr>) \<longleftrightarrow> ring_inv p" "port_mail (p\<lparr> p_delay_thread := t \<rparr>) = port_mail p"
  "ring_inv (p\<lparr> p_delay_cancel := b \<rparr>) \<longleftrightarrow> ring_inv p" "port_mail (p\<lparr> p_delay_cancel := b \<rparr>) = port_mail p"
  "ring_inv (p\<lparr> p_delay_active := b \<rparr>) \<longleftrightarrow> ring_inv p" "port_mail (p\<lparr> p_delay_active := b \<rparr>) = port_mail p"
  "ring_inv (p\<lparr> p_delay_msg := dm \<rparr>) \<longleftrightarrow> ring_inv p" "port_mail (p\<lparr> p_delay_msg := dm \<rparr>) = port_mail p"
  "ring_inv (p\<lparr> p_delay_payload := dp \<rparr>) \<longleftrightarrow> ring_inv p"
  "port_mail (p\<lparr> p_delay_payload := dp \<rparr>) = port_mail p"
  "ring_inv (p\<lparr> p_delay_ms := ms \<rparr>) \<longleftrightarrow> ring_inv p" "port_mail (p\<lparr> p_delay_ms := ms \<rparr>) = port_mail p"
  "ring_inv (p\<lparr> p_running := b \<rparr>) \<longleftrightarrow> ring_inv p" "port_mail (p\<lparr> p_running := b \<rparr>) = port_mail p"
  "ring_inv (p\<lparr> p_thread := th \<rparr>) \<longleftrightarrow> ring_inv p" "port_mail (p\<lparr> p_thread := th \<rparr>) = port_mail p"
  "ring_inv (delay_wakes p) \<longleftrightarrow> ring_inv p" "port_mail (delay_wakes p) = port_mail p"
  by (rule ring_inv_cong; simp)+

lemma ring_send_room:
  assumes "ring_inv p" "p_count p < p_capacity p" "m_size m \<le> payload_area (p_slot_size p)"
  obtains q where "ring_send m p = Some (q, 0)" "ring_inv q"
    "msg_readable m \<Longrightarrow> port_mail q = port_mail p @ [received m]"
    "p_capacity q = p_capacity p" "p_slot_size q = p_slot_size p" "p_owner q = p_owner p"
    "p_count q = p_count p + 1" "p_running q = p_running p"
proof -
  from assms(1) obtain slots where slots: "p_ring p = Some slots"
    and ok: "ring_ok (payload_area (p_slot_size p)) slots (p_capacity p) (p_head p) (p_tail p) (p_count p)"
    by (rule ring_invE)
  let ?q = "p\<lparr> p_ring := Some (slots[p_tail p := write_slot m (slots ! p_tail p)]),
               p_tail := (p_tail p + 1) mod p_capacity p, p_count := p_count p + 1 \<rparr>"
  have send: "ring_send m p = Some (?q, 0)"
    using assms(2,3) slots by (simp add: ring_send_def store_msg_def)
  have inv: "ring_inv ?q" using ring_ok_enqueue(1) [OF ok assms(2,3)] by (simp add: ring_inv_def)
  have mail: "port_mail ?q = port_mail p @ [received m]" if "msg_readable m"
    using ring_ok_enqueue(2) [OF ok assms(2,3) that] slots by (simp add: port_mail_def)
  show ?thesis by (rule that [OF send inv mail]) simp_all
qed

lemma ring_send_refused:
  assumes "ring_inv p" "\<not> (m_size m \<le> payload_area (p_slot_size p) \<and> p_count p < p_capacity p)"
  shows "ring_send m p = Some (p, if p_count p < p_capacity p then - EMSGSIZE else - ENOMEM)"
  using assms by (auto simp: ring_send_def ring_inv_def store_msg_def split: option.splits)

lemma ring_take_cases:
  assumes "ring_inv p"
  shows "ring_take p = None \<longleftrightarrow> port_mail p = []"
    "ring_take p = Some (m, q) \<Longrightarrow>
       ring_inv q \<and> port_mail p = received m # port_mail q \<and> p_capacity q = p_capacity p
       \<and> p_slot_size q = p_slot_size p \<and> p_running q = p_running p \<and> p_count p = Suc (p_count q)
       \<and> msg_readable m \<and> p_owner q = p_owner p"
proof -
  from assms obtain slots where slots: "p_ring p = Some slots"
    and ok: "ring_ok (payload_area (p_slot_size p)) slots (p_capacity p) (p_head p) (p_tail p) (p_count p)"
    by (rule ring_invE)
  show "ring_take p = None \<longleftrightarrow> port_mail p = []"
    using length_port_mail [OF assms] slots by (auto simp: ring_take_def Let_def)
  assume take: "ring_take p = Some (m, q)"
  then have pos: "0 < p_count p" by (simp add: ring_take_def split: if_splits)
  from take pos slots have m: "m = load_msg (slots ! p_head p)"
    and q: "q = p\<lparr> p_recv_slot := Some (slots ! p_head p),
                   p_head := (p_head p + 1) mod p_capacity p, p_count := p_count p - 1 \<rparr>"
    by (simp_all add: ring_take_def Let_def)
  note deq = ring_ok_dequeue [OF ok pos]
  show "ring_inv q \<and> port_mail p = received m # port_mail q
       \<and> p_capacity q = p_capacity p \<and> p_slot_size q = p_slot_size p \<and> p_running q = p_running p
       \<and> p_count p = Suc (p_count q) \<and> msg_readable m \<and> p_owner q = p_owner p"
    using deq pos slots by (simp add: q m ring_inv_def port_mail_def)
qed

definition ring_enq :: "ipc_msg \<Rightarrow> ipc_port_state \<Rightarrow> ipc_port_state \<times> int" where
  "ring_enq m p = (case ring_send m p of None \<Rightarrow> (p, 0) | Some r \<Rightarrow> r)"

lemma ring_enq_room:
  assumes "ring_inv p" "p_count p < p_capacity p" "m_size m \<le> payload_area (p_slot_size p)"
  shows "snd (ring_enq m p) = 0 \<and> ring_inv (fst (ring_enq m p))
      \<and> (msg_readable m \<longrightarrow> port_mail (fst (ring_enq m p)) = port_mail p @ [received m])
      \<and> p_slot_size (fst (ring_enq m p)) = p_slot_size p
      \<and> p_capacity (fst (ring_enq m p)) = p_capacity p
      \<and> p_owner (fst (ring_enq m p)) = p_owner p"
  by (rule ring_send_room [OF assms]) (simp add: ring_enq_def)

lemma ring_enq_refused:
  assumes "ring_inv p" "\<not> (m_size m \<le> payload_area (p_slot_size p) \<and> p_count p < p_capacity p)"
  shows "snd (ring_enq m p) < 0 \<and> fst (ring_enq m p) = p"
  using ring_send_refused [OF assms] by (simp add: ring_enq_def)

lemma ring_enq_inv:
  assumes "ring_inv p"
  shows "ring_inv (fst (ring_enq m p)) \<and> p_slot_size (fst (ring_enq m p)) = p_slot_size p
      \<and> p_capacity (fst (ring_enq m p)) = p_capacity p
      \<and> p_owner (fst (ring_enq m p)) = p_owner p"
  using ring_enq_room [OF assms, of m] ring_enq_refused [OF assms, of m] assms
  by (metis)

interpretation posix_ring: bounded_fifo ring_inv port_mail p_capacity
  "\<lambda>p m. m_size m \<le> payload_area (p_slot_size p)" ring_enq ring_take
proof (unfold_locales, goal_cases)
  case (1 p m)
  then show ?case using ring_enq_inv by blast
next
  case (2 m p)
  then show ?case by (simp add: ring_enq_def ring_send_def split: option.splits prod.splits)
next
  case (3 p m k)
  then show ?case using ring_enq_inv by simp
next
  case (4 p m)
  then show ?case using ring_enq_room [of p m] by (simp add: length_port_mail)
next
  case (5 p m)
  then show ?case using ring_enq_refused [of p m] by (simp add: length_port_mail)
next
  case (6 p)
  then show ?case by (simp add: length_port_mail ring_inv_count)
next
  case (7 p)
  then show ?case by (rule ring_take_cases(1))
next
  case (8 p m q k)
  from ring_take_cases(2) [OF this] show ?case by simp
qed

section \<open>The port contract\<close>

definition posix_ready :: "posix \<Rightarrow> aptr \<Rightarrow> ipc_actor_cfg \<Rightarrow> bool" where
  "posix_ready s a c \<longleftrightarrow>
     ring_inv (port_of s a) \<and> p_capacity (port_of s a) = queue_depth c
     \<and> p_slot_size (port_of s a) = IPC_MSG_SLOT_SIZE (of_nat (max_payload_size c))
     \<and> max_payload_size c + 48 \<le> 2 ^ 64 \<and> p_owner (port_of s a) = Some a"

definition posix_mail :: "posix \<Rightarrow> aptr \<Rightarrow> ipc_msg list" where
  "posix_mail s a = port_mail (port_of s a)"

lemma posix_ready_fits:
  "posix_ready s a c \<Longrightarrow> m_size m \<le> max_payload_size c \<Longrightarrow>
     m_size m \<le> payload_area (p_slot_size (port_of s a))"
  using payload_area_slot_size [of "max_payload_size c"] by (simp add: posix_ready_def)

lemma posix_send_eq:
  "snd (posix_send a m s) = snd (ring_enq m (port_of s a))"
  "port_of (fst (posix_send a m s)) = (port_of s)(a := fst (ring_enq m (port_of s a)))"
  by (simp_all add: posix_send_def ring_enq_def split: option.splits prod.splits)

lemma posix_send_ready:
  "posix_ready s b c \<Longrightarrow> posix_ready (fst (posix_send a m s)) b c"
  using ring_enq_inv [of "port_of s a" m]
  by (auto simp: posix_ready_def posix_send_eq)

text \<open>Cancelling a delayed message never breaks a mailbox, even when the thread still posts it.\<close>

lemma posix_ready_set_port:
  assumes "posix_ready s b c" "ring_inv (port_of s a) \<Longrightarrow> ring_inv p"
    "p_capacity p = p_capacity (port_of s a)" "p_slot_size p = p_slot_size (port_of s a)"
    "p_owner p = p_owner (port_of s a)"
  shows "posix_ready (set_port a p s) b c"
  using assms by (auto simp: posix_ready_def)

lemma posix_ready_fault: "posix_ready (s\<lparr> fault := f \<rparr>) b c \<longleftrightarrow> posix_ready s b c"
  by (simp add: posix_ready_def)

lemma delay_posts_ready:
  assumes "posix_ready s b c"
  shows "posix_ready (delay_posts a s) b c"
proof (cases "p_delay_thread (port_of s a)")
  case (D_posting msg)
  define s1 where "s1 = (case p_owner (port_of s a) of None \<Rightarrow> s\<lparr> fault := True \<rparr>
                         | Some b \<Rightarrow> fst (posix_send b msg s))"
  have "posix_ready s1 b c"
    using assms by (simp add: s1_def posix_ready_fault posix_send_ready split: option.splits)
  then have "posix_ready (set_port a ((port_of s1 a)\<lparr> p_delay_thread := D_exited \<rparr>) s1) b c"
    by (rule posix_ready_set_port) simp_all
  then show ?thesis using D_posting by (simp add: delay_posts_def s1_def Let_def)
qed (simp_all add: delay_posts_def assms)

lemma join_delay_thread_ready:
  assumes "posix_ready s b c"
  shows "posix_ready (join_delay_thread a s) b c"
  unfolding join_delay_thread_def Let_def
  by (rule delay_posts_ready, simp, intro conjI impI assms posix_ready_set_port)
     simp_all

lemma cancel_delayed_send_ready:
  assumes "posix_ready s b c"
  shows "posix_ready (cancel_delayed_send a s) b c"
proof (cases "p_delay_active (port_of s a)")
  case True
  define s1 where "s1 = join_delay_thread a (set_port a ((port_of s a)\<lparr> p_delay_cancel := True \<rparr>) s)"
  have "posix_ready (set_port a ((port_of s a)\<lparr> p_delay_cancel := True \<rparr>) s) b c"
    by (rule posix_ready_set_port [OF assms]) simp_all
  then have "posix_ready s1 b c" unfolding s1_def by (rule join_delay_thread_ready)
  then have "posix_ready (set_port a ((port_of s1 a)\<lparr> p_delay_cancel := False,
      p_delay_active := False \<rparr>) s1) b c"
    by (rule posix_ready_set_port) simp_all
  then show ?thesis using True by (simp add: cancel_delayed_send_def s1_def Let_def)
qed (simp add: cancel_delayed_send_def assms)

lemma posix_restart_ready:
  assumes "posix_ready s a c"
  shows "posix_ready (fst (posix_restart_actor a s)) a c"
    "posix_mail (fst (posix_restart_actor a s)) a = []"
proof -
  have "posix_ready (cancel_delayed_send a s) a c" by (rule cancel_delayed_send_ready [OF assms])
  then show "posix_ready (fst (posix_restart_actor a s)) a c"
    "posix_mail (fst (posix_restart_actor a s)) a = []"
    by (auto simp: posix_restart_actor_def restart_section_def posix_ready_def posix_mail_def port_mail_def
        ring_inv_def Let_def ring_ok_reset split: option.splits)
qed

text \<open>A restart ends the delayed message of the actor and touches no other actor.\<close>

lemma posix_restart_others:
  assumes "posix_ready s a c"
  shows "\<not> p_delay_active (port_of (fst (posix_restart_actor a s)) a)"
    "b \<noteq> a \<Longrightarrow> posix_mail (fst (posix_restart_actor a s)) b = posix_mail s b"
proof -
  have posts: "port_of (delay_posts a t) b = port_of t b" if "b \<noteq> a" "p_owner (port_of t a) = Some a" for t b
    using that by (cases "p_delay_thread (port_of t a)") (simp_all add: delay_posts_def posix_send_eq Let_def)
  have owner: "p_owner (port_of s a) = Some a" using assms by (simp add: posix_ready_def)
  show "b \<noteq> a \<Longrightarrow> posix_mail (fst (posix_restart_actor a s)) b = posix_mail s b"
    using owner by (simp add: posix_restart_actor_def cancel_delayed_send_def join_delay_thread_def Let_def posts
        delay_wakes_def posix_mail_def)
  show "\<not> p_delay_active (port_of (fst (posix_restart_actor a s)) a)"
    by (simp add: posix_restart_actor_def cancel_delayed_send_def restart_section_def Let_def)
qed

lemma posix_actor_init_ready:
  assumes "0 < queue_depth (a_cfg x)" "snd (posix_actor_init a x s) = 0"
    "max_payload_size (a_cfg x) + 48 \<le> 2 ^ 64"
  shows "posix_ready (fst (posix_actor_init a x s)) a (a_cfg x)"
    "posix_mail (fst (posix_actor_init a x s)) a = []"
  using assms
  by (auto simp: posix_actor_init_def os_call_def posix_ready_def posix_mail_def port_mail_def
      ring_inv_def ring_ok_empty Let_def split: if_splits)

interpretation posix: initialising_port posix_port posix_ready posix_mail "\<lambda>_ _ _. True"
proof (unfold_locales, goal_cases)
  case (1 p a x m)
  then have "p_count (port_of p a) < p_capacity (port_of p a)" "ring_inv (port_of p a)"
    by (auto simp: posix_ready_def posix_mail_def length_port_mail)
  with 1 ring_enq_room [of "port_of p a" m] posix_ready_fits [OF 1(1,3)] show ?case
    by (simp add: posix_send_eq posix_mail_def)
next
  case (2 p a x m)
  then have full: "\<not> p_count (port_of p a) < p_capacity (port_of p a)" "ring_inv (port_of p a)"
    by (auto simp: posix_ready_def posix_mail_def length_port_mail)
  then show ?case
    using ring_send_refused [of "port_of p a" m] posix_ready_fits [OF 2(1,2)]
    by (simp add: posix_send_eq posix_mail_def ring_enq_def)
next
  case (3 b a x m p)
  then show ?case by (simp add: posix_send_eq posix_mail_def)
next
  case (4 p a x b c m)
  then show ?case by (simp add: posix_send_ready)
next
  case 5
  then show ?case by (simp add: posix_port_def)
next
  case (6 p a c)
  then show ?case
    using posix_ring.bounded [of "port_of p a"] by (simp add: posix_ready_def posix_mail_def)
next
  case (7 a x n ms p)
  then show ?case
    by (simp add: posix_schedule_ask_timeout_def posix_mail_def os_call_def Let_def fun_eq_iff)
next
  case (8 p b c a x n ms)
  then show ?case
    by (simp add: posix_schedule_ask_timeout_def posix_ready_def os_call_def Let_def)
next
  case (9 p a x)
  then show ?case using posix_restart_ready [OF 9] by (simp add: posix_restart_actor_def Let_def)
next
  case (10 p a x)
  then show ?case using posix_actor_init_ready [of x a p] by simp
qed

section \<open>A started port\<close>

text \<open>A started POSIX port: every actor has an empty ring of two slots for 8-byte payloads.\<close>

definition ex_ring_state :: "aptr \<Rightarrow> ipc_port_state" where
  "ex_ring_state a = zero_port_state
     \<lparr> p_thread := T_start, p_ring := Some (replicate 2 (zero_slot 16)),
       p_recv_slot := Some (zero_slot 16), p_slot_size := 48, p_capacity := 2, p_running := True,
       p_delay_payload := Some (replicate 8 0), p_owner := Some a \<rparr>"

definition ex_posix :: posix where
  "ex_posix = (posix_initial (\<lambda>_. 0))\<lparr> port_of := ex_ring_state \<rparr>"

lemma ex_ring_state_inv: "ring_inv (ex_ring_state a)" "port_mail (ex_ring_state a) = []"
  by (simp_all add: ex_ring_state_def zero_port_state_def ring_inv_def port_mail_def ring_ok_def
      replicate_two zero_slot_def payload_area_def slot_header_size)

lemma ex_posix_ready:
  "queue_depth c = 2 \<Longrightarrow> max_payload_size c = 8 \<Longrightarrow> posix_ready ex_posix a c"
  by (simp add: posix_ready_def ex_posix_def ex_ring_state_def zero_port_state_def ring_inv_def ring_ok_def replicate_two zero_slot_def
      payload_area_def slot_header_size IPC_MSG_SLOT_SIZE_def IPC_ALIGN_UP_def
      alignof_max_align_t_def)

lemma ex_posix_mail: "posix_mail ex_posix a = []"
  by (simp add: posix_mail_def ex_posix_def ex_ring_state_def port_mail_def zero_port_state_def)


end
