(* ===== verification/Posix_Lifetime.thy ===== *)
theory Posix_Lifetime
  imports Posix_Port
begin

text \<open>
  The POSIX port around the mailbox: setting an actor up, delayed messages and their deadline, the
  millisecond clock, and the final join.
\<close>

section \<open>Clocks\<close>

text \<open>
  The deadline of a delayed message is exact and well-formed. For a clock reading with
  nanoseconds below \<open>10 ^ 9\<close> and every delay, the deadline is the reading plus the delay, to the
  nanosecond, and its nanoseconds are again below \<open>10 ^ 9\<close>, as \<^verbatim>\<open>pthread_cond_timedwait\<close> needs.
\<close>

theorem delay_deadline_exact:
  assumes "0 \<le> nsec" "nsec < 10 ^ 9" "delay_deadline (sec, nsec) ms = (sec2, nsec2)"
  shows "0 \<le> nsec2 \<and> nsec2 < 10 ^ 9
    \<and> sec2 * 10 ^ 9 + nsec2 = sec * 10 ^ 9 + nsec + uint ms * 10 ^ 6"
proof -
  define q r where "q = uint (ms div 1000)" and "r = uint (ms mod 1000)"
  have "uint ms = q * 1000 + r" "0 \<le> r" "r < 1000"
    by (simp_all add: q_def r_def uint_div uint_mod)
  moreover have "(sec2, nsec2) = (if nsec + r * 1000000 \<ge> 1000000000
      then (sec + q + 1, nsec + r * 1000000 - 1000000000) else (sec + q, nsec + r * 1000000))"
    using assms(3) by (simp add: delay_deadline_def q_def r_def Let_def split: if_splits)
  ultimately show ?thesis using assms(1,2) by (auto split: if_splits)
qed

theorem delay_deadline_exact_witness:
  "delay_deadline (7, 999999999) 1500 = (9, 499999999) \<and> (499999999::int) < 10 ^ 9"
proof -
  have eq: "delay_deadline (7, 999999999) 1500 = (9, 499999999)"
    by (simp add: delay_deadline_def Let_def uint_div uint_mod)
  from delay_deadline_exact [OF _ _ this] eq show ?thesis by simp
qed

lemma ucast_of_nat_u64: "ucast (of_nat n :: u64) = (of_nat n :: u32)"
  by (rule bit_word_eqI) (simp add: bit_simps)

text \<open>
  \<^verbatim>\<open>ipc_port_now_ms\<close> is the monotonic clock in milliseconds modulo \<open>2 ^ 32\<close>; the wrap-around of
  the 64-bit intermediate result does not show.
\<close>

theorem posix_now_ms_is_clock:
  assumes "clock_monotonic s = (sec, nsec)" "nsec < 10 ^ 9"
  shows "unat (posix_now_ms s) = (sec * 1000 + nsec div 10 ^ 6) mod 2 ^ 32"
proof -
  have "of_nat nsec div (1000000 :: u64) = of_nat (nsec div 1000000)"
    using assms(2) by (intro word_unat_eq_iff [THEN iffD2]) (simp add: unat_div unat_of_nat take_bit_nat_def)
  then have "posix_now_ms s = ucast (of_nat (sec * 1000 + nsec div 1000000) :: u64)"
    using assms(1) by (simp add: posix_now_ms_def)
  also have "\<dots> = (of_nat (sec * 1000 + nsec div 1000000) :: u32)"
    by (rule ucast_of_nat_u64)
  finally have "unat (posix_now_ms s) = (sec * 1000 + nsec div 1000000) mod 2 ^ 32"
    by (simp only: unat_of_nat) simp
  then show ?thesis by simp
qed


theorem posix_now_ms_is_clock_witness:
  "unat (posix_now_ms (ex_posix\<lparr> clock_monotonic := (4294968, 500000000) \<rparr>)) = 1204"
proof -
  have "clock_monotonic (ex_posix\<lparr> clock_monotonic := (4294968, 500000000) \<rparr>) = (4294968, 500000000)"
    by simp
  from posix_now_ms_is_clock [OF this] show ?thesis by simp
qed

section \<open>Setting an actor up\<close>

lemma posix_actor_init_no_memory:
  fixes s :: posix
  defines "r \<equiv> \<lambda>k. os_result s (os_calls s + k)"
  assumes "r 0 \<noteq> 0 \<or> r 1 \<noteq> 0 \<or> r 2 \<noteq> 0"
  shows "posix_actor_init a x s =
    (set_port a ((port_of s a)\<lparr> p_joined := True, p_owner := Some a,
       p_slot_size := IPC_MSG_SLOT_SIZE (of_nat (max_payload_size (a_cfg x))),
       p_ring := None, p_recv_slot := None, p_delay_payload := None \<rparr>)
       (s\<lparr> os_calls := os_calls s + 3 \<rparr>), - ENOMEM)"
proof -
  have "os_result s (os_calls s) \<noteq> 0 \<or> os_result s (Suc (os_calls s)) \<noteq> 0
      \<or> os_result s (Suc (Suc (os_calls s))) \<noteq> 0"
    using assms(2) by (simp add: r_def)
  then show ?thesis
    unfolding posix_actor_init_def os_call_def Let_def by (simp add: numeral_eq_Suc)
qed

lemma posix_actor_init_memory:
  fixes s :: posix
  defines "r \<equiv> \<lambda>k. os_result s (os_calls s + k)"
  assumes "r 0 = 0" "r 1 = 0" "r 2 = 0" "posix_actor_init a x s = (t, rc)"
  shows "rc = - r 3"
    "p_thread (port_of t a) = (if r 3 = 0 then T_start else p_thread (port_of s a))"
    "p_running (port_of t a) = (r 3 = 0)" "p_joined (port_of t a) = (r 3 \<noteq> 0)"
    "r 3 \<noteq> 0 \<Longrightarrow> p_ring (port_of t a) = None \<and> p_recv_slot (port_of t a) = None
       \<and> p_delay_payload (port_of t a) = None"
proof -
  have ok: "os_result s (os_calls s) = 0" "os_result s (Suc (os_calls s)) = 0"
    "os_result s (Suc (Suc (os_calls s))) = 0" "r 3 = os_result s (Suc (Suc (Suc (os_calls s))))"
    using assms(2-4) by (simp_all add: r_def numeral_eq_Suc)
  show "rc = - r 3"
    "p_thread (port_of t a) = (if r 3 = 0 then T_start else p_thread (port_of s a))"
    "p_running (port_of t a) = (r 3 = 0)" "p_joined (port_of t a) = (r 3 \<noteq> 0)"
    "r 3 \<noteq> 0 \<Longrightarrow> p_ring (port_of t a) = None \<and> p_recv_slot (port_of t a) = None
       \<and> p_delay_payload (port_of t a) = None"
    using assms(5) unfolding posix_actor_init_def os_call_def Let_def ok(4)
    by (auto simp: ok(1-3) split: if_splits)
qed

text \<open>
  Initialising an actor takes effect completely or not at all. When the three allocations and
  the thread creation succeed the code is 0, the mailbox is ready and empty and the thread exists;
  when any fails, the code is an error, no buffer is left, and no join or thread is pending.
\<close>

theorem posix_actor_init_all_or_nothing:
  assumes "0 < queue_depth (a_cfg x)" "max_payload_size (a_cfg x) + 48 \<le> 2 ^ 64"
    and "\<forall>k. 0 \<le> os_result s k" "p_running (port_of s a) = False"
    and "posix_actor_init a x s = (t, rc)"
  shows "if \<forall>k < 4. os_result s (os_calls s + k) = 0
    then rc = 0 \<and> posix_ready t a (a_cfg x) \<and> posix_mail t a = []
      \<and> p_thread (port_of t a) = T_start \<and> p_running (port_of t a) \<and> \<not> p_joined (port_of t a)
    else rc < 0 \<and> p_ring (port_of t a) = None \<and> p_recv_slot (port_of t a) = None
      \<and> p_delay_payload (port_of t a) = None \<and> p_thread (port_of t a) = p_thread (port_of s a)
      \<and> \<not> p_running (port_of t a) \<and> p_joined (port_of t a)"
proof -
  let ?r = "\<lambda>k. os_result s (os_calls s + k)"
  have four: "(\<forall>k < 4. ?r k = 0) \<longleftrightarrow> ?r 0 = 0 \<and> ?r 1 = 0 \<and> ?r 2 = 0 \<and> ?r 3 = 0"
    by (auto simp: numeral_eq_Suc All_less_Suc)
  show ?thesis
  proof (cases "?r 0 = 0 \<and> ?r 1 = 0 \<and> ?r 2 = 0")
    case True
    note mem = posix_actor_init_memory [OF _ _ _ assms(5)]
    show ?thesis
    proof (cases "?r 3 = 0")
      case ok: True
      have "snd (posix_actor_init a x s) = 0" using mem(1) True ok assms(5) by simp
      from posix_actor_init_ready [OF assms(1) this assms(2)] assms(5)
      have "posix_ready t a (a_cfg x)" "posix_mail t a = []" by simp_all
      with mem True ok show ?thesis unfolding four by simp
    next
      case False
      moreover have "0 \<le> ?r 3" using assms(3) by simp
      ultimately show ?thesis using mem True unfolding four by simp
    qed
  next
    case False
    then have "?r 0 \<noteq> 0 \<or> ?r 1 \<noteq> 0 \<or> ?r 2 \<noteq> 0" by blast
    from posix_actor_init_no_memory [OF this, of a x] False assms(4,5) show ?thesis
      unfolding four by auto
  qed
qed

theorem posix_actor_init_all_or_nothing_witness:
  "\<exists>t rc. posix_actor_init 1 (ex_actors 1) (posix_initial (\<lambda>k. if k = 2 then 12 else 0)) = (t, rc)
    \<and> rc < 0 \<and> p_ring (port_of t 1) = None"
proof -
  let ?s = "posix_initial (\<lambda>k. if k = 2 then 12 else 0)"
  obtain t rc where run: "posix_actor_init 1 (ex_actors 1) ?s = (t, rc)"
    by (cases "posix_actor_init 1 (ex_actors 1) ?s")
  have bad: "\<not> (\<forall>k < 4. os_result ?s (os_calls ?s + k) = 0)"
    by (auto simp: posix_initial_def)
  have "\<forall>k. 0 \<le> os_result ?s k" "p_running (port_of ?s 1) = False"
    by (simp_all add: posix_initial_def zero_port_state_def)
  from posix_actor_init_all_or_nothing [OF _ _ this run] bad run show ?thesis
    by (simp add: ex_defs)
qed

section \<open>The final join\<close>

definition join_one :: "aptr \<Rightarrow> posix \<Rightarrow> posix" where
  "join_one b s = (if p_joined (port_of s b) then s
     else set_port b (cleanup_actor ((port_of s b)\<lparr> p_joined := True \<rparr>)) s)"

lemma posix_run_all_Cons:
  "posix_run_all (b # as) s =
     (if p_joined (port_of s b) \<or> p_thread (port_of s b) = T_exited
      then posix_run_all as (join_one b s) else None)"
  by (simp add: join_one_def)

declare posix_run_all.simps(2) [simp del]

lemma join_one_other: "a \<noteq> b \<or> p_joined (port_of s a) \<Longrightarrow> port_of (join_one b s) a = port_of s a"
  by (auto simp: join_one_def)

lemma posix_run_all_frame:
  "posix_run_all as s = Some (t, rc) \<Longrightarrow> a \<notin> set as \<or> p_joined (port_of s a) \<Longrightarrow> port_of t a = port_of s a"
proof (induction as arbitrary: s)
  case (Cons b as)
  have run: "posix_run_all as (join_one b s) = Some (t, rc)"
    using Cons.prems(1) by (simp add: posix_run_all_Cons split: if_splits)
  have same: "port_of (join_one b s) a = port_of s a"
    by (rule join_one_other) (use Cons.prems(2) in auto)
  from Cons.IH [OF run] Cons.prems(2) show ?case unfolding same by auto
qed simp

definition joined_actor :: "ipc_port_state \<Rightarrow> ipc_port_state \<Rightarrow> bool" where
  "joined_actor p q \<longleftrightarrow>
     p_joined q \<and> (\<not> p_joined p \<longrightarrow> p_ring q = None \<and> p_owner q = None)"

abbreviation ended :: "posix \<Rightarrow> aptr \<Rightarrow> bool" where
  "ended s a \<equiv> p_joined (port_of s a) \<or> p_thread (port_of s a) = T_exited"

lemma posix_run_all_result:
  "distinct as \<Longrightarrow>
   (if \<forall>a \<in> set as. ended s a
    then \<exists>t. posix_run_all as s = Some (t, 0) \<and> (\<forall>a \<in> set as. joined_actor (port_of s a) (port_of t a))
    else posix_run_all as s = None)"
proof (induction as arbitrary: s)
  case (Cons b as)
  have new: "\<forall>a \<in> set as. port_of (join_one b s) a = port_of s a"
    using Cons.prems by (auto intro: join_one_other)
  note IH = Cons.IH [of "join_one b s"]
  show ?case
  proof (cases "\<forall>a \<in> set (b # as). ended s a")
    case True
    with IH new Cons.prems obtain t where t: "posix_run_all as (join_one b s) = Some (t, 0)"
      "\<forall>a \<in> set as. joined_actor (port_of s a) (port_of t a)"
      by auto
    have "port_of t b = port_of (join_one b s) b"
      using posix_run_all_frame [OF t(1), of b] Cons.prems by auto
    then have "joined_actor (port_of s b) (port_of t b)"
      by (simp add: joined_actor_def join_one_def cleanup_actor_def)
    with True t show ?thesis by (simp add: posix_run_all_Cons)
  next
    case False
    then have "posix_run_all (b # as) s = None"
      using IH new Cons.prems by (auto simp: posix_run_all_Cons split: if_split_asm)
    with False show ?thesis by (simp only: if_False)
  qed
qed simp

text \<open>
  The final join returns exactly when every actor thread has ended. It blocks as long as one
  thread that was not joined is still in its loop; when it returns, the code is 0 and every actor
  it joined has its buffers freed and its owner cleared; actors joined before, or never created, are
  untouched.
\<close>

theorem posix_run_all_joins:
  assumes "distinct as"
  shows "(if \<forall>a \<in> set as. p_joined (port_of s a) \<or> p_thread (port_of s a) = T_exited
    then \<exists>t. posix_run_all as s = Some (t, 0)
      \<and> (\<forall>a \<in> set as. joined_actor (port_of s a) (port_of t a))
      \<and> (\<forall>a. a \<notin> set as \<or> p_joined (port_of s a) \<longrightarrow> port_of t a = port_of s a)
    else posix_run_all as s = None)"
proof (cases "\<forall>a \<in> set as. ended s a")
  case True
  then obtain t where t: "posix_run_all as s = Some (t, 0)"
    "\<forall>a \<in> set as. joined_actor (port_of s a) (port_of t a)"
    using posix_run_all_result [OF assms, of s] by auto
  have "\<forall>a. a \<notin> set as \<or> p_joined (port_of s a) \<longrightarrow> port_of t a = port_of s a"
    using posix_run_all_frame [OF t(1)] by blast
  with t have "\<exists>t. posix_run_all as s = Some (t, 0)
      \<and> (\<forall>a \<in> set as. joined_actor (port_of s a) (port_of t a))
      \<and> (\<forall>a. a \<notin> set as \<or> p_joined (port_of s a) \<longrightarrow> port_of t a = port_of s a)"
    by blast
  then show ?thesis by (subst if_P [OF True])
next
  case False
  with posix_run_all_result [OF assms, of s] show ?thesis by (simp only: if_False)
qed

theorem posix_run_all_joins_witness:
  "posix_run_all [1, 2] ex_posix = None"
proof -
  have live: "\<not> ended ex_posix 1" by (simp add: ex_posix_def ex_ring_state_def zero_port_state_def)
  have "distinct [1, 2 :: aptr]" by simp
  from posix_run_all_joins [OF this, of ex_posix] live show ?thesis by (auto split: if_splits)
qed


section \<open>Delayed messages\<close>

text \<open>The delay has passed without a cancel: the thread wakes and posts.\<close>

definition delay_fires :: "aptr \<Rightarrow> posix \<Rightarrow> posix" where
  "delay_fires a s = delay_posts a (set_port a (delay_wakes (port_of s a)) s)"

lemma cancel_delayed_send_eq:
  assumes "\<forall>m. p_delay_thread (port_of s a) \<noteq> D_posting m"
    and "p_delay_active (port_of s a) \<or> p_delay_thread (port_of s a) \<noteq> D_waiting"
    and "p_delay_active (port_of s a) \<or> \<not> p_delay_cancel (port_of s a)"
  shows "\<exists>d. d \<noteq> D_waiting
    \<and> port_of (cancel_delayed_send a s) = (port_of s)(a := (port_of s a)
         \<lparr> p_delay_thread := d, p_delay_cancel := False, p_delay_active := False \<rparr>)
    \<and> fault (cancel_delayed_send a s) = fault s"
proof (cases "p_delay_active (port_of s a)")
  case False
  with assms(2,3) show ?thesis
    by (intro exI [of _ "p_delay_thread (port_of s a)"]) (auto simp: cancel_delayed_send_def fun_eq_iff)
next
  case active: True
  let ?s0 = "set_port a ((port_of s a)\<lparr> p_delay_cancel := True \<rparr>) s"
  show ?thesis
  proof (cases "p_delay_thread (port_of s a) = D_waiting")
    case True
    have "join_delay_thread a ?s0 = set_port a ((port_of s a)
        \<lparr> p_delay_cancel := False, p_delay_thread := D_exited \<rparr>) s"
      using True by (simp add: join_delay_thread_def delay_wakes_def delay_posts_def Let_def)
    with active show ?thesis
      by (intro exI [of _ D_exited]) (simp add: cancel_delayed_send_def)
  next
    case False
    with assms(1) have "join_delay_thread a ?s0 = ?s0"
      by (simp add: join_delay_thread_def delay_posts_def Let_def split: delay_thread.split)
    with active False show ?thesis
      by (intro exI [of _ "p_delay_thread (port_of s a)"]) (simp add: cancel_delayed_send_def fun_eq_iff)
  qed
qed

lemma received_delayed:
  assumes "msg_readable msg"
  shows "received (msg\<lparr> m_payload := Some (copy_payload buf msg) \<rparr>) = received msg"
proof -
  have "msg_bytes (msg\<lparr> m_payload := Some (copy_payload buf msg) \<rparr>) = msg_bytes msg"
    using take_copy_payload [OF assms, of buf] by (simp add: msg_bytes_def)
  then show ?thesis by (simp add: received_def)
qed



end
