(* ===== verification/Posix_Delivery.thy ===== *)
theory Posix_Delivery
  imports Posix_Port
begin

text \<open>
  The core's send paths on the POSIX port: what \<^verbatim>\<open>ipc_send\<close>, \<^verbatim>\<open>ipc_publish\<close> and \<^verbatim>\<open>ipc_send_to\<close> do to
  the mailbox rings, from the lemmas of the locale \<open>mailbox_port\<close> through its interpretation
  \<open>posix\<close>; a burst of sends.
\<close>

section \<open>Bursts\<close>

text \<open>One call of \<^verbatim>\<open>ipc_send\<close> per payload, with the codes in order.\<close>

fun send_burst ::
    "'p port_ops \<Rightarrow> dptr \<Rightarrow> u8 list option list \<Rightarrow> ('p, 'u) sys \<Rightarrow> int list \<times> ('p, 'u) sys" where
  "send_burst P d [] s = ([], s)"
| "send_burst P d (x # xs) s =
     (case ipc_send_raw P (Some d) x s of
        (rc, t) \<Rightarrow> (case send_burst P d xs t of (rcs, u) \<Rightarrow> (rc # rcs, u)))"

text \<open>What a send leaves as it was for the next one.\<close>

lemma cmd_route_after:
  assumes "delivery_only (ipc_ensure_id d s) t" "cmd_route s d a"
  shows "cmd_route t d a" "call_msg t d x = call_msg s d x"
    "eventual_id (descs t d) = eventual_id (descs s d)"
proof -
  note f = delivery_only_fields [OF assms(1)]
  have ev: "eventual_id (descs t d) = eventual_id (descs s d)"
    unfolding f(2) by (rule eventual_id_ensured)
  then show "eventual_id (descs t d) = eventual_id (descs s d)" .
  show "cmd_route t d a"
    using assms(2) find_registered_cong [OF f(5)] by (simp add: cmd_route_def f(2) ensure_id_desc eventual_id_ensured)
  have "descs (ipc_ensure_id d t) d = descs (ipc_ensure_id d s) d"
    using ensure_id_idem [of d s] f(2) by (simp add: ipc_ensure_id_def split: option.splits)
  then show "call_msg t d x = call_msg s d x" by (simp add: call_msg_def)
qed

section \<open>Properties\<close>

text \<open>
  C14: a command sent on the POSIX port is enqueued once, at the back of the mailbox of the actor
  its ID is routed to, or it changes no mailbox. The code is 0 exactly when it was enqueued; a full
  mailbox gives \<^verbatim>\<open>-ENOMEM\<close>, or 1 under the DROP policy, which counts one drop; a message larger than
  the receiver allows gives \<^verbatim>\<open>-EMSGSIZE\<close>. The queued copy owns its payload bytes.
\<close>

theorem posix_send_outcome:
  assumes "cmd_route s d a" "posix_ready (port_st s) a (a_cfg (actors s a))"
    and "msg_readable (call_msg s d payload)"
    and "ipc_send_raw posix_port (Some d) payload s = (rc, t)"
  shows "rc = delivery_code (actors s a) (length (posix_mail (port_st s) a)) (call_msg s d payload)
    \<and> (\<forall>b. posix_mail (port_st t) b
          = posix_mail (port_st s) b
            @ (if b = a then delivered rc (call_msg s d payload) else []))
    \<and> (\<forall>b. a_dropped_messages (actors t b)
          = a_dropped_messages (actors s b) + (if b = a then dropped rc else 0))
    \<and> delivery_only (ipc_ensure_id d s) t"
  using posix.send_raw_delivers [OF assms(1-3)] assms(4) by auto


text \<open>
  A burst of sends of one command fills the receiver's ring and no more. Of \<open>n\<close> messages that
  the receiver allows, the first \<open>k\<close>, as many as there is room for, return 0 and are in its
  mailbox in the order of the calls; each of the others returns \<^verbatim>\<open>-ENOMEM\<close>, or 1 under the DROP
  policy, and then the drop counter has grown by exactly their number (modulo \<open>2 ^ 32\<close>).
\<close>

theorem posix_send_burst_outcome:
  assumes "cmd_route s d a" "posix_ready (port_st s) a (a_cfg (actors s a))"
    and "d_size (descs s d) \<le> actor_max_payload_size (actors s a)"
    and "\<forall>x \<in> set xs. msg_readable (call_msg s d x)"
    and "k = min (length xs) (queue_depth (a_cfg (actors s a)) - length (posix_mail (port_st s) a))"
    and "dropping = (a_mailbox_overflow_policy (actors s a) = IPC_MAILBOX_OVERFLOW_DROP)"
    and "send_burst posix_port d xs s = (rcs, t)"
  shows "rcs = replicate k 0 @ replicate (length xs - k) (if dropping then 1 else - ENOMEM)
    \<and> posix_mail (port_st t) a
      = posix_mail (port_st s) a @ map (\<lambda>x. received (call_msg s d x)) (take k xs)
    \<and> a_dropped_messages (actors t a)
      = a_dropped_messages (actors s a) + (if dropping then of_nat (length xs - k) else 0)"
  using assms
proof (induction xs arbitrary: s k rcs t)
  case Nil
  then show ?case by simp
next
  case (Cons x xs)
  obtain rc s1 rcs1 where step: "ipc_send_raw posix_port (Some d) x s = (rc, s1)"
    and rest: "send_burst posix_port d xs s1 = (rcs1, t)" and rcs: "rcs = rc # rcs1"
    using Cons.prems(7) by (auto split: prod.splits)
  note one = posix.send_raw_delivers [OF Cons.prems(1,2), of x, unfolded step fst_conv snd_conv]
  have read: "msg_readable (call_msg s d x)" using Cons.prems(4) by simp
  note after = cmd_route_after [OF one(4) [OF read] Cons.prems(1)]
  note same = delivery_only_actors [OF one(4) [OF read], of a, unfolded frame_simps]
  let ?free = "queue_depth (a_cfg (actors s a)) - length (posix_mail (port_st s) a)"
  define full where "full = (if dropping then 1 else - ENOMEM)"
  have full: "full \<noteq> 0" by (simp add: full_def)
  have rc: "rc = (if 0 < ?free then 0 else full)"
    using one(1) [OF read] Cons.prems(3,6)
    by (auto simp: delivery_code_def full_def IPC_DELIVERY_DROPPED_def)
  have ready: "posix_ready (port_st s1) a (a_cfg (actors s1 a))"
    using one(5) [OF read Cons.prems(2)] by (simp add: same)
  have size: "d_size (descs s1 d) \<le> actor_max_payload_size (actors s1 a)"
    using Cons.prems(3) delivery_only_fields(2) [OF one(4) [OF read]]
    by (simp add: actor_max_payload_size_def same ensure_id_desc)
  have mail: "posix_mail (port_st s1) a
      = posix_mail (port_st s) a @ (if 0 < ?free then [received (call_msg s d x)] else [])"
    using one(2) [OF read, of a] one(1) [OF read, symmetric] rc full by (simp add: delivered_def)
  have drops: "a_dropped_messages (actors s1 a)
      = a_dropped_messages (actors s a) + (if 0 < ?free \<or> \<not> dropping then 0 else 1)"
    using one(3) [OF read, of a] one(1) [OF read, symmetric] rc
    by (simp add: dropped_def full_def IPC_DELIVERY_DROPPED_def)
  have reads: "\<forall>y \<in> set xs. msg_readable (call_msg s1 d y)"
    using Cons.prems(4) by (simp add: after(2))
  have policy: "dropping = (a_mailbox_overflow_policy (actors s1 a) = IPC_MAILBOX_OVERFLOW_DROP)"
    using Cons.prems(6) by (simp add: same)
  note IH = Cons.IH [OF after(1) ready size reads refl policy rest, folded full_def]
  show ?case
  proof (cases "0 < ?free")
    case True
    define m where "m = min (length xs) (?free - 1)"
    have "min (length xs) (queue_depth (a_cfg (actors s1 a)) - length (posix_mail (port_st s1) a)) = m"
      using True by (simp add: m_def mail same)
    moreover have "k = Suc m" using Cons.prems(5) True by (simp add: m_def)
    ultimately show ?thesis
      using IH True by (simp add: rcs rc mail drops after(2) flip: full_def)
  next
    case False
    then have "k = 0"
      "min (length xs) (queue_depth (a_cfg (actors s1 a)) - length (posix_mail (port_st s1) a)) = 0"
      using Cons.prems(5) by (simp_all add: mail same)
    then show ?thesis
      using IH False by (simp add: rcs rc mail drops flip: full_def)
  qed
qed


text \<open>
  C15: a published event reaches every subscriber that can take it. On the POSIX port, with
  well-formed tables, each subscriber of the event's ID gets exactly one copy at the back of its
  mailbox unless its own mailbox is full or the event is too large for it, whatever happens to the
  other subscribers; no other mailbox changes. The call returns the first nonzero code in
  subscription order, an error or a drop.
\<close>

theorem posix_publish_outcome:
  assumes "d_kind (descs s d) = IPC_EVENT" "d_name (descs s d) \<noteq> None" "tables_inv s"
    and "msg = call_msg s d payload" "msg_readable msg"
    and "subscribed = subscribers (subs s) (eventual_id (descs s d))"
    and "\<forall>a \<in> set subscribed. posix_ready (port_st s) a (a_cfg (actors s a))"
    and "code = (\<lambda>b. delivery_code (actors s b) (length (posix_mail (port_st s) b)) msg)"
    and "ipc_publish_raw posix_port (Some d) payload s = (rc, t)"
  shows "rc = first_nonzero (map code subscribed) \<and> distinct subscribed
    \<and> (\<forall>b. posix_mail (port_st t) b
          = posix_mail (port_st s) b @ (if b \<in> set subscribed then delivered (code b) msg else []))
    \<and> (\<forall>b. a_dropped_messages (actors t b)
          = a_dropped_messages (actors s b) + (if b \<in> set subscribed then dropped (code b) else 0))
    \<and> delivery_only (ipc_ensure_id d s) t"
proof -
  have code: "posix.publish_code s msg = code" by (simp add: fun_eq_iff posix.publish_code_def assms(8))
  have dist: "distinct subscribed"
    unfolding assms(6)
    using distinct_subscribers tables_inv_unique_route [OF assms(3)] by blast
  show ?thesis
    using posix.publish_raw_fans_out [OF assms(1-3) assms(7) [unfolded assms(6)]
        assms(5) [unfolded assms(4)], folded assms(4,6), unfolded code] assms(9) dist
    by auto
qed

text \<open>
  Direct posting delivers without a route. Once the framework runs and the descriptor has an
  ID, \<^verbatim>\<open>ipc_send_to\<close> on the POSIX port puts the command or event at the back of the named actor's
  mailbox exactly when it returns 0, touches no other mailbox, and neither reads the routing tables
  nor changes a descriptor.
\<close>

theorem posix_send_to_outcome:
  assumes "d_kind (descs s d) \<in> {IPC_CMD, IPC_EVENT}" "lifecycle_state s = IPC_LIFECYCLE_RUNNING"
    and "d_id (descs s d) \<noteq> 0" "posix_ready (port_st s) a (a_cfg (actors s a))"
    and "msg = make_msg (descs s d) payload" "msg_readable msg"
    and "ipc_send_to_raw posix_port (Some a) (Some d) payload s = (rc, t)"
  shows "rc = delivery_code (actors s a) (length (posix_mail (port_st s) a)) msg
    \<and> (\<forall>b. posix_mail (port_st t) b
          = posix_mail (port_st s) b @ (if b = a then delivered rc msg else []))
    \<and> delivery_only s t"
  using posix.send_to_raw_delivers [OF assms(1-4), of payload, folded assms(5), OF assms(6)] assms(7)
  by auto

section \<open>Concrete runs\<close>

abbreviation ex_sys :: "(posix, unit) sys" where
  "ex_sys \<equiv> ex_running ex_posix ()"

lemma ex_sys_ready: "posix_ready (port_st ex_sys) a (a_cfg (actors ex_sys a))"
  by (simp add: ex_posix_ready ex_defs)

lemma ex_sys_mail: "posix_mail (port_st ex_sys) a = []"
  by (simp add: ex_posix_mail ex_defs)

lemma ex_sys_route: "cmd_route ex_sys 0 1"
  by (simp add: cmd_route_def find_registered_def eventual_id_def ex_defs)

lemma ex_sys_actor: "queue_depth (a_cfg (actors ex_sys a)) = 2" "actor_max_payload_size (actors ex_sys a) = 8"
  "a_mailbox_overflow_policy (actors ex_sys a) = IPC_MAILBOX_OVERFLOW_FAIL"
  "a_dropped_messages (actors ex_sys a) = 0"
  by (simp_all add: actor_max_payload_size_def ex_defs)

lemma ex_sys_descs: "d_size (descs ex_sys d) = 4" "d_id (descs ex_sys 0) = 10"
  "d_kind (descs ex_sys 0) = IPC_CMD" "d_kind (descs ex_sys 1) = IPC_EVENT"
  "eventual_id (descs ex_sys 1) = 11" "d_name (descs ex_sys 1) \<noteq> None"
  by (simp_all add: eventual_id_def ex_defs)

lemma ex_sys_readable: "msg_readable (call_msg ex_sys d (Some [1, 2, 3, 4]))"
  by (simp add: msg_readable_def ex_sys_descs)

theorem posix_send_outcome_witness:
  "\<exists>t. ipc_send_raw posix_port (Some 0) (Some [1, 2, 3, 4]) ex_sys = (0, t)
    \<and> posix_mail (port_st t) 1 = [received (call_msg ex_sys 0 (Some [1, 2, 3, 4]))]
    \<and> posix_mail (port_st t) 2 = []"
proof -
  obtain rc t where run: "ipc_send_raw posix_port (Some 0) (Some [1, 2, 3, 4]) ex_sys = (rc, t)"
    by (cases "ipc_send_raw posix_port (Some 0) (Some [1, 2, 3, 4]) ex_sys")
  from posix_send_outcome [OF ex_sys_route ex_sys_ready ex_sys_readable run]
  have "rc = 0" "posix_mail (port_st t) 1 = [received (call_msg ex_sys 0 (Some [1, 2, 3, 4]))]"
    "posix_mail (port_st t) 2 = []"
    by (simp_all add: delivery_code_def delivered_def ex_sys_actor ex_sys_mail ex_sys_descs)
  with run show ?thesis by blast
qed

theorem posix_send_burst_outcome_witness:
  "\<exists>t. send_burst posix_port 0 (replicate 3 (Some [1, 2, 3, 4])) ex_sys = ([0, 0, - ENOMEM], t)
    \<and> posix_mail (port_st t) 1 = replicate 2 (received (call_msg ex_sys 0 (Some [1, 2, 3, 4])))
    \<and> a_dropped_messages (actors t 1) = 0"
proof -
  let ?xs = "replicate 3 (Some [1, 2, 3, 4]) :: u8 list option list"
  obtain rcs t where run: "send_burst posix_port 0 ?xs ex_sys = (rcs, t)"
    by (cases "send_burst posix_port 0 ?xs ex_sys")
  have xs: "?xs = [Some [1, 2, 3, 4], Some [1, 2, 3, 4], Some [1, 2, 3, 4]]"
    by (simp add: numeral_3_eq_3)
  from posix_send_burst_outcome [OF ex_sys_route ex_sys_ready _ _ refl refl run]
  have "rcs = [0, 0, - ENOMEM]"
    "posix_mail (port_st t) 1 = replicate 2 (received (call_msg ex_sys 0 (Some [1, 2, 3, 4])))"
    "a_dropped_messages (actors t 1) = 0"
    by (simp_all add: xs ex_sys_actor ex_sys_mail ex_sys_descs ex_sys_readable replicate_two)
  with run show ?thesis by blast
qed

lemma ex_sys_subscribers: "[1, 2] = subscribers (subs ex_sys) (eventual_id (descs ex_sys 1))"
  unfolding ex_sys_descs(5) by (simp add: ex_defs numeral_2_eq_2)

lemma ex_sys_tables: "tables_inv ex_sys"
  using ex_running_inv [of ex_posix "()"] by (simp add: registration_inv_def)

theorem posix_publish_outcome_witness:
  "\<exists>t. ipc_publish_raw posix_port (Some 1) (Some [1, 2, 3, 4]) ex_sys = (0, t)
    \<and> posix_mail (port_st t) 1 = [received (call_msg ex_sys 1 (Some [1, 2, 3, 4]))]
    \<and> posix_mail (port_st t) 2 = [received (call_msg ex_sys 1 (Some [1, 2, 3, 4]))]
    \<and> posix_mail (port_st t) 3 = []"
proof -
  obtain rc t where run: "ipc_publish_raw posix_port (Some 1) (Some [1, 2, 3, 4]) ex_sys = (rc, t)"
    by (cases "ipc_publish_raw posix_port (Some 1) (Some [1, 2, 3, 4]) ex_sys")
  from posix_publish_outcome [OF ex_sys_descs(4,6) ex_sys_tables refl ex_sys_readable ex_sys_subscribers
      _ refl run]
  have "rc = 0" "posix_mail (port_st t) 1 = [received (call_msg ex_sys 1 (Some [1, 2, 3, 4]))]"
    "posix_mail (port_st t) 2 = [received (call_msg ex_sys 1 (Some [1, 2, 3, 4]))]"
    "posix_mail (port_st t) 3 = []"
    by (simp_all add: ex_sys_ready delivery_code_def delivered_def
        ex_sys_actor ex_sys_mail ex_sys_descs(1))
  with run show ?thesis by blast
qed

theorem posix_send_to_outcome_witness:
  "\<exists>t. ipc_send_to_raw posix_port (Some 2) (Some 0) None ex_sys = (0, t)
    \<and> posix_mail (port_st t) 2 = [received (make_msg (descs ex_sys 0) None)]
    \<and> posix_mail (port_st t) 1 = []"
proof -
  obtain rc t where run: "ipc_send_to_raw posix_port (Some 2) (Some 0) None ex_sys = (rc, t)"
    by (cases "ipc_send_to_raw posix_port (Some 2) (Some 0) None ex_sys")
  have "lifecycle_state ex_sys = IPC_LIFECYCLE_RUNNING" by (simp add: ex_defs)
  from posix_send_to_outcome [OF _ this _ ex_sys_ready refl _ run]
  have "rc = 0" "posix_mail (port_st t) 2 = [received (make_msg (descs ex_sys 0) None)]"
    "posix_mail (port_st t) 1 = []"
    by (simp_all add: ex_sys_descs delivery_code_def delivered_def ex_sys_actor ex_sys_mail
        make_msg_def msg_readable_def)
  with run show ?thesis by blast
qed


text \<open>
  The same program with two faulty receivers: the mailbox of actor 1 is full and drops, actor 2
  allows no more than 2 bytes of the event's 4.
\<close>

definition ex_two_faults :: "(posix, unit) sys" where
  "ex_two_faults = ex_sys
     \<lparr> actors := (actors ex_sys)
         (1 := (actors ex_sys 1)\<lparr> a_mailbox_overflow_policy := IPC_MAILBOX_OVERFLOW_DROP \<rparr>,
          2 := IPC_ACTOR_DEFINE ''app'' 1024 0 2 2),
       port_st := ex_posix\<lparr> port_of := ex_ring_state(1 := (ex_ring_state 1)\<lparr> p_count := 2 \<rparr>) \<rparr> \<rparr>"

lemma ex_two_faults_ready:
  "\<forall>a \<in> set [1, 2]. posix_ready (port_st ex_two_faults) a (a_cfg (actors ex_two_faults a))"
  by (simp add: ex_two_faults_def posix_ready_def ex_ring_state_def zero_port_state_def ring_inv_def
      ring_ok_def zero_slot_def payload_area_def slot_header_size IPC_MSG_SLOT_SIZE_def
      IPC_ALIGN_UP_def alignof_max_align_t_def ex_defs)

lemma ex_two_faults_code:
  "delivery_code (actors ex_two_faults 1) (length (posix_mail (port_st ex_two_faults) 1))
     (call_msg ex_two_faults 1 None) = IPC_DELIVERY_DROPPED"
  "delivery_code (actors ex_two_faults 2) n (call_msg ex_two_faults 1 None) = - EMSGSIZE"
  by (simp_all add: delivery_code_def ex_two_faults_def actor_max_payload_size_def posix_mail_def
      length_port_mail ring_inv_def ring_ok_def port_mail_def ex_ring_state_def zero_port_state_def ex_defs)

text \<open>
  The code of a publish can hide an error. With a dropping subscriber in front, \<^verbatim>\<open>ipc_publish\<close>
  returns 1 although the next subscriber was refused with \<^verbatim>\<open>-EMSGSIZE\<close>: the first nonzero code is
  returned, not the first negative one that \<^verbatim>\<open>ipc.h\<close> documents.
\<close>

theorem posix_publish_hides_error:
  "\<exists>t. ipc_publish_raw posix_port (Some 1) None ex_two_faults = (IPC_DELIVERY_DROPPED, t)
    \<and> 2 \<in> set (subscribers (subs ex_two_faults) (eventual_id (descs ex_two_faults 1)))
    \<and> delivery_code (actors ex_two_faults 2) 0 (call_msg ex_two_faults 1 None) = - EMSGSIZE
    \<and> posix_mail (port_st t) 2 = []"
proof -
  have same: "same_tables ex_sys ex_two_faults" "descs ex_two_faults = descs ex_sys"
    by (simp_all add: same_tables_def ex_two_faults_def)
  have subs: "[1, 2] = subscribers (subs ex_two_faults) (eventual_id (descs ex_two_faults 1))"
    using ex_sys_subscribers same by (simp add: same_tables_def)
  have "msg_readable (call_msg ex_two_faults 1 None)" by (simp add: msg_readable_def)
  note pub = posix.publish_raw_fans_out [of ex_two_faults 1, folded subs, unfolded same(2),
      OF ex_sys_descs(4,6) tables_inv_cong [OF same(1), THEN iffD2, OF ex_sys_tables]
        ex_two_faults_ready this]
  have "fst (ipc_publish_raw posix_port (Some 1) None ex_two_faults) = IPC_DELIVERY_DROPPED"
    using pub(1) ex_two_faults_code by (simp add: posix.publish_code_def IPC_DELIVERY_DROPPED_def)
  moreover have "posix_mail (port_st ex_two_faults) 2 = []"
    by (simp add: ex_two_faults_def posix_mail_def port_mail_def ex_ring_state_def zero_port_state_def)
  then have "posix_mail (port_st (snd (ipc_publish_raw posix_port (Some 1) None ex_two_faults))) 2 = []"
    using pub(2) [of 2] ex_two_faults_code by (simp add: posix.publish_code_def delivered_def)
  ultimately show ?thesis
    using subs [symmetric] ex_two_faults_code(2) [of 0]
    by (intro exI [of _ "snd (ipc_publish_raw posix_port (Some 1) None ex_two_faults)"])
       (simp add: prod_eq_iff)
qed

end
