(* ===== verification/Ask_Delivery.thy ===== *)
theory Ask_Delivery
  imports Ipc_Dispatch
begin

text \<open>
  Asks over any port that keeps the mailbox contract: what an expired timeout does to the asker's
  mailbox, and the way of a reply from \<^verbatim>\<open>ipc_reply\<close> through a mailbox to the callback of its ask.
\<close>

section \<open>Timeouts\<close>

lemma timeout_msg_fields [simp]:
  "m_size (timeout_msg n) = 0" "msg_readable (timeout_msg n)" "m_ask_id (timeout_msg n) = n"
  "m_id (timeout_msg n) = ipc_ask_timeout_msg_id" "m_result (timeout_msg n) = - ETIMEDOUT"
  by (simp_all add: timeout_msg_def msg_readable_def)

lemma expire_section_open:
  assumes "ask_inv s" "pending_at s n i" "q_actor (ask_table s ! i) = a"
    "\<not> q_timeout_queued (ask_table s ! i)"
  shows "expire_section a n s
    = (True, set_ask i ((ask_table s ! i)\<lparr> q_reply_sent := True, q_timeout_queued := True \<rparr>) s)"
  using find_pending_ask_iff [OF assms(1), THEN iffD2, OF assms(2)] assms(3,4)
  by (simp add: expire_section_def)

text \<open>What an expiry does with any port that keeps the mailbox contract.\<close>

context mailbox_port
begin

lemma timeout_expired:
  assumes "ask_inv s" "IPC_CONFIG_ENABLE_ASK (conf s)" "pending_at s n i"
    and "q_actor (ask_table s ! i) = a" "\<not> q_timeout_queued (ask_table s ! i)" "ready_in s a"
  defines "room \<equiv> queued s a < queue_depth (a_cfg (actors s a))"
    and "t \<equiv> ipc_ask_timeout_expired P a n s"
  shows "mail (port_st t) b
      = mail (port_st s) b @ (if b = a \<and> room then [received (timeout_msg n)] else [])"
    "ask_table t = (ask_table s)[i := (ask_table s ! i)
       \<lparr> q_reply_sent := room, q_timeout_queued := room \<rparr>]"
    "port_st t = fst (port_send P a (actors s a) (timeout_msg n) (port_st s))"
proof -
  let ?s1 = "set_ask i ((ask_table s ! i)\<lparr> q_reply_sent := True, q_timeout_queued := True \<rparr>) s"
  obtain rc s2 where send: "ipc_port_send P a (timeout_msg n) ?s1 = (rc, s2)"
    by (cases "ipc_port_send P a (timeout_msg n) ?s1")
  have "ready (port_st ?s1) a (a_cfg (actors ?s1 a))" using assms(6) by simp
  note out = ipc_port_send_cases [OF this, of "timeout_msg n", simplified, unfolded send, simplified]
  have frame: "ask_table s2 = ask_table ?s1" "port_st s2 = fst (port_send P a (actors s a) (timeout_msg n) (port_st s))"
    using ipc_port_send_frame(13) [of P a "timeout_msg n" ?s1] send
      on_port_result(2) [of "port_send P a (actors ?s1 a) (timeout_msg n)" ?s1]
    by (simp_all add: ipc_port_send_def)
  have i: "i < length (ask_table s)" using assms(3) by (simp add: pending_at_def)
  have inv1: "ask_inv ?s1"
    using ask_inv_mark [OF assms(1,3)] assms(3) by (simp add: pending_at_def)
  have "ask_inv s2" using inv1 ask_inv_cong [of s2 ?s1] frame(1) send
      ipc_port_send_frame(1) [of P a "timeout_msg n" ?s1] by simp
  moreover have "pending_at s2 n i"
    using assms(3) by (simp add: pending_at_def frame)
  ultimately have "find_pending_ask n s2 = Some i" by (rule find_pending_ask_iff [THEN iffD2])
  then have undo: "expire_undo_section a n s2
      = set_ask i ((ask_table s2 ! i)\<lparr> q_reply_sent := False, q_timeout_queued := False \<rparr>) s2"
    using assms(4) i by (simp add: expire_undo_section_def frame)
  have t: "t = (if rc \<noteq> 0 then expire_undo_section a n s2 else s2)"
    using assms(2) send unfolding t_def
    by (simp add: ipc_ask_timeout_expired_def expire_section_open [OF assms(1,3-5)])
  show "mail (port_st t) b
      = mail (port_st s) b @ (if b = a \<and> room then [received (timeout_msg n)] else [])"
    "ask_table t = (ask_table s)[i := (ask_table s ! i)
       \<lparr> q_reply_sent := room, q_timeout_queued := room \<rparr>]"
    "port_st t = fst (port_send P a (actors s a) (timeout_msg n) (port_st s))"
    using out i by (auto simp: t undo room_def frame)
qed

end


section \<open>Replies\<close>

text \<open>
  The way of an accepted reply: into the asker's mailbox, and from there to the callback.
\<close>

lemma call_msg_result [simp]: "m_result (call_msg s d payload) = 0"
  by (simp add: call_msg_def make_msg_def)

lemma accepted_reply_answers:
  assumes "reply_accepted req d i s" "ask_table u = (ask_table s)[i := (ask_table s ! i)\<lparr> q_reply_sent := True \<rparr>]"
  shows "pending_at u (m_ask_id (received (reply_msg s req d payload))) i"
    "answers (ask_table u ! i) (q_actor (ask_table s ! i)) (received (reply_msg s req d payload))"
    "q_callback (ask_table u ! i) = q_callback (ask_table s ! i)"
  using assms
  by (simp_all add: reply_accepted_def pending_at_def answers_def reply_msg_def)

context mailbox_port
begin

lemma reply_round_trip:
  assumes "ask_inv s" "reply_accepted req d i s"
    and "a = q_actor (ask_table s ! i)" "ready_in s a"
    and "msg_readable (reply_msg s req d payload)" "msg = received (reply_msg s req d payload)"
    and "ipc_reply_raw P (Some req) (Some d) payload s = (0, t)"
    and "ask_table u = ask_table t" "conf u = conf t"
  shows "mail (port_st t) a = mail (port_st s) a @ [msg]
    \<and> ipc_dispatch_actor_handlers U (Some a) (Some msg) u
      = U (Call_callback (q_callback (ask_table s ! i)) a 0
             (Some (msg_bytes (reply_msg s req d payload))) (d_size (descs s d)) msg)
          (set_ask i zero_pending_ask u)"
proof -
  let ?s1 = "mark_answered i (ipc_ensure_id d s)" and ?m = "reply_msg s req d payload"
  obtain t1 where run: "apply_mailbox_overflow_policy a (ipc_port_send P a ?m ?s1) = (0, t1)" "t = t1"
    using ipc_reply_raw_accepted [OF assms(1,2), of P payload] assms(3,7)
    by (auto split: prod.splits if_splits)
  have size: "m_size ?m \<le> actor_max_payload_size (actors ?s1 a)"
    using assms(2,3) by (simp add: reply_msg_def reply_accepted_def mark_answered_def frame_simps)
  have ready: "ready_in ?s1 a" using assms(4) by (simp add: mark_answered_def frame_simps)
  note one = deliver_one [OF ready assms(5) size, unfolded run, simplified]
  have "mail (port_st t) a = mail (port_st s) a @ [msg]"
    using one(1) one(2) [of a] run(2) assms(6)
    by (simp add: delivered_def mark_answered_def frame_simps)
  moreover have only: "delivery_only ?s1 t"
    using delivery_only_send [of ?s1 a P ?m] run by simp
  have tab: "ask_table u = (ask_table s)[i := (ask_table s ! i)\<lparr> q_reply_sent := True \<rparr>]"
    "conf u = conf s"
    using delivery_only_fields(1,7) [OF only] assms(8,9) by (simp_all add: mark_answered_def frame_simps)
  have pend: "pending_at s (m_ask_id req) i" using assms(2) by (simp add: reply_accepted_def)
  have "ask_inv u"
    using ask_inv_mark [OF assms(1) pend, of "(ask_table s ! i)\<lparr> q_reply_sent := True \<rparr>"] pend
      ask_inv_cong [of u "set_ask i ((ask_table s ! i)\<lparr> q_reply_sent := True \<rparr>) s"] tab
    by (simp add: pending_at_def)
  note ans = accepted_reply_answers(1,2) [where payload = payload, OF assms(2) tab(1), folded assms(3,6)]
  note cb = accepted_reply_answers(3) [OF assms(2) tab(1)]
  have "IPC_CONFIG_ENABLE_ASK (conf u)" using assms(2) tab(2) by (simp add: reply_accepted_def)
  note call = dispatch_pending_answer(2) [where U = U, OF \<open>ask_inv u\<close> this ans(1,2)]
  ultimately show ?thesis
    using call cb assms(6) by (simp add: reply_msg_def)
qed

lemma reply_goes_out:
  assumes "ask_inv s" "reply_accepted req d i s" "a = q_actor (ask_table s ! i)" "ready_in s a"
    and "msg_readable (reply_msg s req d payload)" "queued s a < queue_depth (a_cfg (actors s a))"
  shows "fst (ipc_reply_raw P (Some req) (Some d) payload s) = 0"
proof -
  let ?s1 = "mark_answered i (ipc_ensure_id d s)" and ?m = "reply_msg s req d payload"
  have size: "m_size ?m \<le> actor_max_payload_size (actors s a)"
    using assms(2,3) by (simp add: reply_msg_def reply_accepted_def)
  then have "fst (apply_mailbox_overflow_policy a (ipc_port_send P a ?m ?s1)) = 0"
    using deliver_one(1) [where s = ?s1, OF _ assms(5)] assms(4,6)
    by (simp add: mark_answered_def frame_simps delivery_code_def)
  then show ?thesis
    unfolding ipc_reply_raw_accepted [OF assms(1,2)] assms(3) by (auto split: prod.split)
qed

text \<open>The same way for an error reply: its message has no payload and the result passed by the responder.\<close>

lemma error_reply_round_trip:
  assumes "ask_inv s" "IPC_CONFIG_ENABLE_ASK (conf s)" "m_ask_id req \<noteq> 0" "pending_at s (m_ask_id req) i"
    and "m_reply_id req = q_reply_id (ask_table s ! i)" "m_reply_id req \<noteq> 0"
    and "\<not> q_reply_sent (ask_table s ! i)" "result \<noteq> 0"
    and "a = q_actor (ask_table s ! i)" "ready_in s a" "queued s a < queue_depth (a_cfg (actors s a))"
    and "msg = received (reply_error_msg (m_reply_id req) (m_ask_id req) result)"
    and "t = snd (ipc_reply_error_raw P (Some req) result s)"
    and "ask_table u = ask_table t" "conf u = conf t"
  shows "fst (ipc_reply_error_raw P (Some req) result s) = 0"
    and "mail (port_st t) a = mail (port_st s) a @ [msg]"
    and "ipc_dispatch_actor_handlers U (Some a) (Some msg) u
      = U (Call_callback (q_callback (ask_table s ! i)) a result (Some []) 0 msg)
          (set_ask i zero_pending_ask u)"
proof -
  let ?s1 = "set_ask i ((ask_table s ! i)\<lparr> q_reply_sent := True \<rparr>) s"
    and ?m = "reply_error_msg (m_reply_id req) (m_ask_id req) result"
  have find: "find_pending_ask (m_ask_id req) s = Some i"
    by (rule find_pending_ask_iff [OF assms(1), THEN iffD2, OF assms(4)])
  then have sec: "reply_error_section req s = (Inr (a, m_reply_id req), ?s1)"
    using assms(5,7,9) by (simp add: reply_error_section_def Let_def)
  have m: "msg_readable ?m" "m_size ?m = 0" "msg_bytes ?m = []"
    by (simp_all add: reply_error_msg_def msg_readable_def msg_bytes_def)
  note send = ipc_port_send_cases [of ?s1 a ?m, simplified, OF assms(10) m(1)]
  have rc: "fst (ipc_port_send P a ?m ?s1) = 0" using send(1) m(2) assms(11) by simp
  then have run: "ipc_reply_error_raw P (Some req) result s = (0, snd (ipc_port_send P a ?m ?s1))"
    using assms(2,3,6,8) sec by (simp add: ipc_reply_error_raw_def case_prod_beta)
  then show "fst (ipc_reply_error_raw P (Some req) result s) = 0" by simp
  show "mail (port_st t) a = mail (port_st s) a @ [msg]"
    using send(2) [of a] m(2) assms(11,12,13) run by simp
  have u: "ask_table u = ask_table ?s1" "conf u = conf s"
    using assms(13-15) run by (simp_all add: ipc_port_send_frame)
  have i: "i < length (ask_table s)" using assms(4) by (simp add: pending_at_def)
  have "ask_inv u"
    using ask_inv_mark [OF assms(1,4), of "(ask_table s ! i)\<lparr> q_reply_sent := True \<rparr>"] assms(4) u
      ask_inv_cong [of u ?s1] by (simp add: pending_at_def)
  moreover have "pending_at u (m_ask_id msg) i" "answers (ask_table u ! i) a msg"
    using assms(4,5,9,12) u i by (simp_all add: pending_at_def answers_def reply_error_msg_def)
  ultimately show "ipc_dispatch_actor_handlers U (Some a) (Some msg) u
      = U (Call_callback (q_callback (ask_table s ! i)) a result (Some []) 0 msg)
          (set_ask i zero_pending_ask u)"
    using dispatch_pending_answer(2) [where U = U and s = u and msg = msg and i = i and self = a] assms(2,12) u i m
    by (simp add: reply_error_msg_def)
qed

end

end
