(* ===== verification/Posix_Ask.thy ===== *)
theory Posix_Ask
  imports Posix_Delivery Ask_Delivery
begin

text \<open>
  Asks on the POSIX port: the timer threads of \<^verbatim>\<open>ask_timeout_thread_fn\<close>, what an expired timer does
  to the asker's mailbox, and the way of a reply from \<^verbatim>\<open>ipc_reply\<close> through the mailbox ring to the
  callback.
\<close>

section \<open>Timers\<close>

text \<open>The argument of \<^verbatim>\<open>nanosleep\<close>: seconds and nanoseconds.\<close>

definition ask_timeout_delay :: "u32 \<Rightarrow> int \<times> int" where
  "ask_timeout_delay ms = (uint (ms div 1000), uint (ms mod 1000) * 1000000)"

text \<open>The \<open>k\<close>-th timer thread wakes up, expires its ask and ends.\<close>

definition ask_timeout_fires :: "nat \<Rightarrow> (posix, 'u) sys \<Rightarrow> (posix, 'u) sys" where
  "ask_timeout_fires k s =
     (let timers = ask_timeouts (port_st s)
      in if k < length timers
         then ipc_ask_timeout_expired posix_port (t_actor (timers ! k)) (t_ask_id (timers ! k))
                (s\<lparr> port_st := (port_st s)\<lparr> ask_timeouts := take k timers @ drop (Suc k) timers \<rparr> \<rparr>)
         else s)"

lemma posix_send_timers: "ask_timeouts (fst (posix_send a m s)) = ask_timeouts s"
  by (simp add: posix_send_def split: option.split prod.split)

section \<open>Properties\<close>

text \<open>
  C23: a timer that fires for an unanswered ask either queues the timeout or gives up for good. On
  the POSIX port the timer thread ends in any case. With room in the asker's mailbox exactly one
  message, with the timeout ID, the ask's number and the result \<^verbatim>\<open>-ETIMEDOUT\<close>, is put at its back, and
  replies are refused from then on. With a full mailbox nothing is queued, the entry goes back to
  unanswered although it may have been answered, and no timer for it is left.
\<close>

theorem posix_ask_timeout_fires:
  assumes "ask_inv s" "IPC_CONFIG_ENABLE_ASK (conf s)"
    and "ask_timeouts (port_st s) = us @ timer # vs" "a = t_actor timer" "n = t_ask_id timer"
    and "pending_at s n i" "q_actor (ask_table s ! i) = a" "\<not> q_timeout_queued (ask_table s ! i)"
    and "posix_ready (port_st s) a (a_cfg (actors s a))"
    and "room = (length (posix_mail (port_st s) a) < queue_depth (a_cfg (actors s a)))"
    and "t = ask_timeout_fires (length us) s"
  shows "ask_timeouts (port_st t) = us @ vs
    \<and> (\<forall>b. posix_mail (port_st t) b
         = posix_mail (port_st s) b @ (if b = a \<and> room then [received (timeout_msg n)] else []))
    \<and> ask_table t = (ask_table s)[i := (ask_table s ! i)\<lparr> q_reply_sent := room, q_timeout_queued := room \<rparr>]"
proof -
  let ?s = "s\<lparr> port_st := (port_st s)\<lparr> ask_timeouts := us @ vs \<rparr> \<rparr>"
  have t: "t = ipc_ask_timeout_expired posix_port a n ?s"
    using assms(3-5,11) by (simp add: ask_timeout_fires_def Let_def)
  have "ask_inv ?s" using assms(1) ask_inv_cong [of ?s s] by simp
  moreover have "posix_ready (port_st ?s) a (a_cfg (actors ?s a))"
    using assms(9) by (simp add: posix_ready_def)
  moreover have "pending_at ?s n i" using assms(6) by (simp add: pending_at_def)
  ultimately show ?thesis
    using mailbox_port.timeout_expired [OF posix.mailbox_port_axioms, of ?s n i a] assms(2,7,8,10)
    by (simp add: t posix_send_timers posix_mail_def)
qed

text \<open>
  C22: a reply reaches the callback of the ask it answers, with its payload. An accepted reply that
  returns 0 on the POSIX port is one message at the back of the asker's mailbox; when the asker
  dispatches that message, from any state that has the same asks, the ask's callback (and nothing
  else) is called with result 0, the reply's size and a copy of the bytes passed to
  \<^verbatim>\<open>ipc_reply\<close>, and the ask is gone.
\<close>

theorem posix_reply_round_trip:
  assumes "ask_inv s" "reply_accepted req d i s"
    and "a = q_actor (ask_table s ! i)" "posix_ready (port_st s) a (a_cfg (actors s a))"
    and "msg_readable (reply_msg s req d payload)" "msg = received (reply_msg s req d payload)"
    and "ipc_reply_raw posix_port (Some req) (Some d) payload s = (0, t)"
    and "ask_table u = ask_table t" "conf u = conf t"
  shows "posix_mail (port_st t) a = posix_mail (port_st s) a @ [msg]
    \<and> ipc_dispatch_actor_handlers U (Some a) (Some msg) u
      = U (Call_callback (q_callback (ask_table s ! i)) a 0
             (Some (msg_bytes (reply_msg s req d payload))) (d_size (descs s d)) msg)
          (set_ask i zero_pending_ask u)"
  by (rule mailbox_port.reply_round_trip [OF posix.mailbox_port_axioms assms])

section \<open>Concrete runs\<close>

text \<open>The ask of \<open>ex_asking\<close> with its timer running.\<close>

definition ex_timed :: "(posix, unit) sys" where
  "ex_timed = ex_asking (ex_posix
     \<lparr> ask_timeouts := [\<lparr> t_actor = 2, t_ask_id = 7, t_timeout_ms = 100 \<rparr>] \<rparr>) ()"

lemma ex_timed_ready: "posix_ready (port_st ex_timed) a (a_cfg (actors ex_timed a))"
  "posix_mail (port_st ex_timed) a = []" "queue_depth (a_cfg (actors ex_timed a)) = 2"
  using ex_posix_ready [of "a_cfg (actors ex_timed a)" a] ex_posix_mail [of a]
  by (simp_all add: ex_timed_def ex_asking_def posix_ready_def posix_mail_def ex_defs)

lemma ex_timed_pending: "pending_at ex_timed 7 0" "q_actor (ask_table ex_timed ! 0) = 2"
  "\<not> q_timeout_queued (ask_table ex_timed ! 0)" "IPC_CONFIG_ENABLE_ASK (conf ex_timed)"
  by (simp_all add: ex_timed_def ex_asking_def pending_at_def pending_entry_def ex_defs)

lemma ex_timed_inv: "ask_inv ex_timed"
  unfolding ex_timed_def by (rule ex_asking_inv)

theorem posix_ask_timeout_fires_witness:
  "posix_mail (port_st (ask_timeout_fires 0 ex_timed)) 2 = [received (timeout_msg 7)]
    \<and> ask_timeouts (port_st (ask_timeout_fires 0 ex_timed)) = []"
proof -
  have timers: "ask_timeouts (port_st ex_timed) = [] @ \<lparr> t_actor = 2, t_ask_id = 7, t_timeout_ms = 100 \<rparr> # []"
    by (simp add: ex_timed_def ex_asking_def ex_defs)
  have "ask_timeout_fires 0 ex_timed = ask_timeout_fires (length []) ex_timed" by simp
  from posix_ask_timeout_fires [OF ex_timed_inv ex_timed_pending(4) timers _ _ ex_timed_pending(1,2,3)
      ex_timed_ready(1) refl this]
  show ?thesis by (simp add: ex_timed_ready)
qed

lemma ex_reply_accepted: "reply_accepted ex_request 2 0 ex_timed"
  by (simp add: ex_timed_def reply_accepted_def pending_at_def eventual_id_def ex_asking_def ex_request_def
      pending_entry_def actor_max_payload_size_def ex_defs)

theorem posix_reply_round_trip_witness:
  "\<exists>t msg. ipc_reply_raw posix_port (Some ex_request) (Some 2) (Some [5, 6, 7, 8]) ex_timed = (0, t)
    \<and> posix_mail (port_st t) 2 = [msg]
    \<and> (\<forall>U. ipc_dispatch_actor_handlers U (Some 2) (Some msg) t
      = U (Call_callback 61 2 0 (Some [5, 6, 7, 8]) 4 msg) (set_ask 0 zero_pending_ask t))"
proof -
  let ?p = "Some [5, 6, 7, 8]" and ?m = "reply_msg ex_timed ex_request 2 (Some [5, 6, 7, 8])"
  let ?s1 = "mark_answered 0 (ipc_ensure_id 2 ex_timed)"
  have d: "d_size (descs ex_timed 2) = 4"
    by (simp add: ex_timed_def ex_asking_def ex_defs)
  have m: "msg_readable ?m" "msg_bytes ?m = [5, 6, 7, 8]" "m_size ?m = 4"
    by (simp_all add: reply_msg_def msg_readable_def msg_bytes_def d)
  have cfg: "actor_max_payload_size (actors ?s1 2) = 8"
    by (simp add: mark_answered_def frame_simps actor_max_payload_size_def ex_timed_def ex_asking_def ex_defs)
  have "posix.ready_in ?s1 2" using ex_timed_ready(1) by (simp add: mark_answered_def frame_simps)
  from posix.deliver_one(1) [OF this m(1)] cfg m(3)
  have "fst (apply_mailbox_overflow_policy 2 (ipc_port_send posix_port 2 ?m ?s1)) = 0"
    by (simp add: delivery_code_def mark_answered_def frame_simps ex_timed_ready)
  then have "fst (ipc_reply_raw posix_port (Some ex_request) (Some 2) ?p ex_timed) = 0"
    unfolding ipc_reply_raw_accepted [OF ex_timed_inv ex_reply_accepted] ex_timed_pending(2)
    by (auto split: prod.split)
  then obtain t where run: "ipc_reply_raw posix_port (Some ex_request) (Some 2) ?p ex_timed = (0, t)"
    by (metis prod.collapse)
  have cb: "q_callback (ask_table ex_timed ! 0) = 61"
    by (simp add: ex_timed_def ex_asking_def pending_entry_def)
  from posix_reply_round_trip [OF ex_timed_inv ex_reply_accepted ex_timed_pending(2) [symmetric]
      ex_timed_ready(1) m(1) refl run refl refl]
  have "posix_mail (port_st t) 2 = [received ?m]"
    "ipc_dispatch_actor_handlers U (Some 2) (Some (received ?m)) t
      = U (Call_callback 61 2 0 (Some [5, 6, 7, 8]) 4 (received ?m)) (set_ask 0 zero_pending_ask t)" for U
    by (simp_all add: ex_timed_ready m cb d)
  with run show ?thesis by blast
qed

end
