(* ===== verification/Posix_Thread.thy ===== *)
theory Posix_Thread
  imports Posix_Port "HOL-Library.Sublist"
begin

text \<open>
  The actor thread of the POSIX port, \<^verbatim>\<open>ipc_thread_fn\<close>, and everything that interleaves with it.

  The thread gives up \<^verbatim>\<open>p->lock\<close> at three places: when it waits on the condition variable
  (\<open>T_blocked\<close>), while the handler runs (\<open>T_handling m\<close>), and when it returns (\<open>T_exited\<close>). Between
  them it runs the three nested loops, \<open>thread_outer\<close>, \<open>thread_wait\<close> and \<open>thread_drain\<close>, under the
  lock. The other parties each hold the lock for one section: a send (from any thread, the delayed
  send included), a stop, a restart. \<open>actor_step\<close> is one such section, in any order; a wake-up of
  the waiting thread may be spurious.
\<close>

section \<open>The loop\<close>

text \<open>\<open>None\<close> stands for a read through a \<^verbatim>\<open>NULL\<close> ring.\<close>

function thread_outer :: "ipc_port_state \<Rightarrow> ipc_port_state option"
  and thread_wait :: "ipc_port_state \<Rightarrow> ipc_port_state option"
  and thread_drain :: "ipc_port_state \<Rightarrow> ipc_port_state option"
where
  "thread_outer p = (if p_running p then thread_wait p else Some (p\<lparr> p_thread := T_exited \<rparr>))"
| "thread_wait p =
     (if p_count p = 0 \<and> p_running p then Some (p\<lparr> p_thread := T_blocked \<rparr>) else thread_drain p)"
| "thread_drain p =
     (if p_count p > 0
      then (case ring_take p of
              None \<Rightarrow> None
            | Some (msg, q) \<Rightarrow> Some (q\<lparr> p_thread := T_handling msg \<rparr>))
      else thread_outer p)"
  by pat_completeness auto
termination
  by (relation "measure (\<lambda>x. case x of
        Inl p \<Rightarrow> 2
      | Inr (Inl p) \<Rightarrow> if p_count p > 0 then 1 else if p_running p then 0 else 4
      | Inr (Inr p) \<Rightarrow> if p_count p > 0 then 0 else 3)")
     auto

lemmas thread_loop_simps = thread_outer.simps thread_wait.simps thread_drain.simps
declare thread_outer.simps [simp del] thread_wait.simps [simp del] thread_drain.simps [simp del]

text \<open>What the thread does next when it gets the lock (or, for \<open>T_handling\<close>, when the handler returns).\<close>

definition thread_advance :: "ipc_port_state \<Rightarrow> ipc_port_state option" where
  "thread_advance p =
     (case p_thread p of
        T_start \<Rightarrow> thread_outer p
      | T_blocked \<Rightarrow> thread_wait p
      | T_handling m \<Rightarrow> Some (p\<lparr> p_thread := T_returned \<rparr>)
      | T_returned \<Rightarrow> thread_drain p
      | _ \<Rightarrow> Some p)"

section \<open>Interleavings\<close>

datatype thread_event =
    E_sent ipc_msg
  | E_refused ipc_msg int
  | E_stop
  | E_restart
  | E_delay
  | E_thread
  | E_handled ipc_msg

inductive actor_step :: "ipc_port_state \<Rightarrow> thread_event \<Rightarrow> ipc_port_state \<Rightarrow> bool" where
  sent: "msg_readable m \<Longrightarrow> ring_send m p = Some (q, 0) \<Longrightarrow> actor_step p (E_sent m) q"
| refused: "ring_send m p = Some (q, rc) \<Longrightarrow> rc \<noteq> 0 \<Longrightarrow> actor_step p (E_refused m rc) q"
| stop: "actor_step p E_stop (stop_section p)"
| restart: "actor_step p E_restart (restart_section p)"
| delay: "actor_step p E_delay (p\<lparr> p_delay_thread := dt, p_delay_active := da, p_delay_msg := dm,
    p_delay_payload := dp, p_delay_ms := ms, p_delay_cancel := dc \<rparr>)"
| runs: "p_thread p \<in> {T_start, T_blocked, T_returned} \<Longrightarrow> thread_advance p = Some q \<Longrightarrow>
    actor_step p E_thread q"
| returns: "p_thread p = T_handling m \<Longrightarrow> thread_advance p = Some q \<Longrightarrow>
    actor_step p (E_handled m) q"

inductive_cases actor_stepE:
  "actor_step p (E_sent m) q" "actor_step p (E_refused m rc) q" "actor_step p E_stop q"
  "actor_step p E_restart q" "actor_step p E_delay q" "actor_step p E_thread q" "actor_step p (E_handled m) q"

inductive actor_run :: "ipc_port_state \<Rightarrow> thread_event list \<Rightarrow> ipc_port_state \<Rightarrow> bool" where
  none: "actor_run p [] p"
| more: "actor_run p es q \<Longrightarrow> actor_step q e r \<Longrightarrow> actor_run p (es @ [e]) r"

text \<open>The accepted messages and the messages whose handler call has returned, oldest first.\<close>

fun sent_of :: "thread_event list \<Rightarrow> ipc_msg list" where
  "sent_of [] = []"
| "sent_of (E_sent m # es) = received m # sent_of es"
| "sent_of (_ # es) = sent_of es"

fun handled_of :: "thread_event list \<Rightarrow> ipc_msg list" where
  "handled_of [] = []"
| "handled_of (E_handled m # es) = received m # handled_of es"
| "handled_of (_ # es) = handled_of es"

definition in_hand :: "ipc_port_state \<Rightarrow> ipc_msg list" where
  "in_hand p = (case p_thread p of T_handling m \<Rightarrow> [received m] | _ \<Rightarrow> [])"

lemma sent_of_append [simp]: "sent_of (xs @ ys) = sent_of xs @ sent_of ys"
  by (induction xs rule: sent_of.induct) simp_all

lemma handled_of_append [simp]: "handled_of (xs @ ys) = handled_of xs @ handled_of ys"
  by (induction xs rule: handled_of.induct) simp_all

section \<open>What the thread leaves behind\<close>

text \<open>One stretch of the thread either takes the next message, or leaves the mailbox as it was.\<close>

lemma thread_drain_cases:
  assumes "ring_inv p"
  shows "thread_drain p =
    (if p_count p > 0
     then map_option (\<lambda>(m, q). q\<lparr> p_thread := T_handling m \<rparr>) (ring_take p)
     else Some (p\<lparr> p_thread := (if p_running p then T_blocked else T_exited) \<rparr>))"
  by (simp add: thread_loop_simps split: option.split)

lemma thread_stretch:
  assumes "ring_inv p" "r \<in> {thread_outer p, thread_wait p, thread_drain p}" "r = Some q"
  shows "ring_inv q \<and> in_hand q @ port_mail q = port_mail p \<and> p_running q = p_running p
    \<and> p_count q \<le> p_count p"
proof -
  have drained: "ring_inv q \<and> in_hand q @ port_mail q = port_mail p \<and> p_running q = p_running p
      \<and> p_count q \<le> p_count p" if "thread_drain p = Some q"
  proof (cases "p_count p > 0")
    case True
    with that assms(1) obtain m p1 where "ring_take p = Some (m, p1)" "q = p1\<lparr> p_thread := T_handling m \<rparr>"
      by (auto simp: thread_drain_cases)
    with ring_take_cases(2) [OF assms(1)] show ?thesis by (simp add: in_hand_def)
  next
    case False
    with that assms(1) show ?thesis by (auto simp: thread_drain_cases in_hand_def)
  qed
  have wait: "ring_inv q \<and> in_hand q @ port_mail q = port_mail p \<and> p_running q = p_running p
      \<and> p_count q \<le> p_count p" if "thread_wait p = Some q"
    using that drained assms(1)
    by (subst (asm) thread_wait.simps) (auto simp: in_hand_def split: if_splits)
  have "ring_inv q \<and> in_hand q @ port_mail q = port_mail p \<and> p_running q = p_running p
      \<and> p_count q \<le> p_count p" if "thread_outer p = Some q"
    using that wait assms(1)
    by (subst (asm) thread_outer.simps) (auto simp: in_hand_def split: if_splits)
  with drained wait assms(2,3) show ?thesis by blast
qed

text \<open>A section keeps the messages in order: sends append, the thread moves the first one on.\<close>

lemma ring_send_outcome:
  assumes "ring_inv p" "ring_send m p = Some (q, rc)"
  shows "rc \<noteq> 0 \<Longrightarrow> q = p"
    "rc = 0 \<Longrightarrow> msg_readable m \<Longrightarrow>
       ring_inv q \<and> port_mail q = port_mail p @ [received m] \<and> p_thread q = p_thread p"
proof -
  have thread: "p_thread q = p_thread p"
    using assms(2) by (auto simp: ring_send_def split: if_splits option.splits prod.splits)
  note cases = ring_send_room [OF assms(1), of m] ring_send_refused [OF assms(1), of m]
  show "rc \<noteq> 0 \<Longrightarrow> q = p" using cases assms(2) by fastforce
  assume "rc = 0" "msg_readable m"
  have "m_size m \<le> payload_area (p_slot_size p) \<and> p_count p < p_capacity p"
  proof (rule ccontr)
    assume "\<not> ?thesis"
    from cases(2) [OF this] assms(2) \<open>rc = 0\<close> show False by (simp split: if_splits)
  qed
  then obtain q1 where "ring_send m p = Some (q1, 0)" "ring_inv q1"
    "port_mail q1 = port_mail p @ [received m]"
    using cases(1) \<open>msg_readable m\<close> by blast
  with assms(2) thread
  show "ring_inv q \<and> port_mail q = port_mail p @ [received m] \<and> p_thread q = p_thread p" by simp
qed

lemma sections_ring [simp]:
  "ring_inv (stop_section p) \<longleftrightarrow> ring_inv p" "port_mail (stop_section p) = port_mail p"
  "in_hand (stop_section p) = in_hand p" "in_hand (restart_section p) = in_hand p"
  "port_mail (restart_section p) = []"
  by (simp_all add: stop_section_def restart_section_def in_hand_def port_mail_def split: option.split)

lemma in_hand_delay [simp]:
  "in_hand (p\<lparr> p_delay_thread := dt \<rparr>) = in_hand p" "in_hand (p\<lparr> p_delay_active := da \<rparr>) = in_hand p"
  "in_hand (p\<lparr> p_delay_msg := dm \<rparr>) = in_hand p" "in_hand (p\<lparr> p_delay_payload := dp \<rparr>) = in_hand p"
  "in_hand (p\<lparr> p_delay_ms := ms \<rparr>) = in_hand p" "in_hand (p\<lparr> p_delay_cancel := dc \<rparr>) = in_hand p"
  by (simp_all add: in_hand_def)

lemma restart_section_inv: "ring_inv p \<Longrightarrow> ring_inv (restart_section p)"
  by (auto simp: restart_section_def ring_inv_def ring_ok_reset split: option.splits)

lemma actor_step_order:
  assumes "actor_step p e q" "ring_inv p"
  shows "ring_inv q
    \<and> (if e = E_restart then in_hand q = in_hand p \<and> port_mail q = []
       else handled_of [e] @ in_hand q @ port_mail q = in_hand p @ port_mail p @ sent_of [e])"
  using assms
proof (induction rule: actor_step.induct)
  case (sent m p q)
  from ring_send_outcome(2) [OF sent.prems sent.hyps(2) refl sent.hyps(1)] show ?case
    by (simp add: in_hand_def)
next
  case (refused m p q rc)
  from ring_send_outcome(1) [OF refused.prems refused.hyps] refused.prems show ?case by simp
next
  case (runs p q)
  then have "\<exists>r. r \<in> {thread_outer p, thread_wait p, thread_drain p} \<and> r = Some q"
    by (auto simp: thread_advance_def)
  moreover have "in_hand p = []" using runs.hyps(1) by (auto simp: in_hand_def)
  ultimately show ?case using thread_stretch [OF runs.prems] by auto
next
  case (returns p m q)
  then show ?case by (auto simp: thread_advance_def in_hand_def)
qed (simp_all add: restart_section_inv)

lemma actor_run_inv: "actor_run p es q \<Longrightarrow> ring_inv p \<Longrightarrow> ring_inv q"
  by (induction rule: actor_run.induct) (simp_all add: actor_step_order(1))

lemma actor_run_order:
  assumes "actor_run p es q" "ring_inv p"
  shows "subseq (handled_of es @ in_hand q @ port_mail q) (in_hand p @ port_mail p @ sent_of es)
    \<and> (E_restart \<notin> set es \<longrightarrow>
         handled_of es @ in_hand q @ port_mail q = in_hand p @ port_mail p @ sent_of es)"
  using assms
proof (induction rule: actor_run.induct)
  case (more p es q e r)
  note IH = more.IH [OF more.prems]
  note step = actor_step_order [OF more.hyps(2) actor_run_inv [OF more.hyps(1) more.prems]]
  show ?case
  proof (cases "e = E_restart")
    case True
    have "subseq (handled_of es @ in_hand q) (handled_of es @ in_hand q @ port_mail q)"
      by (rule prefix_imp_subseq) simp
    from subseq_order.order_trans [OF this conjunct1 [OF IH]] True step
    show ?thesis by simp
  next
    case False
    with step have keep: "handled_of (es @ [e]) @ in_hand r @ port_mail r
        = (handled_of es @ in_hand q @ port_mail q) @ sent_of [e]" by simp
    from conjunct1 [OF IH]
    have "subseq ((handled_of es @ in_hand q @ port_mail q) @ sent_of [e])
            ((in_hand p @ port_mail p @ sent_of es) @ sent_of [e])"
      by (rule list_emb_append_mono) simp
    with IH show ?thesis unfolding keep by simp
  qed
qed simp

section \<open>After a stop\<close>

text \<open>\<open>n\<close> stretches of the thread alone, with the messages whose handler call returned.\<close>

fun advance_n :: "nat \<Rightarrow> ipc_port_state \<Rightarrow> (ipc_msg list \<times> ipc_port_state) option" where
  "advance_n 0 p = Some ([], p)"
| "advance_n (Suc n) p =
     (case thread_advance p of
        None \<Rightarrow> None
      | Some q \<Rightarrow>
          (case advance_n n q of None \<Rightarrow> None | Some (ms, r) \<Rightarrow> Some (in_hand p @ ms, r)))"

lemma advance_n_exited: "p_thread p = T_exited \<Longrightarrow> advance_n n p = Some ([], p)"
  by (induction n) (simp_all add: thread_advance_def in_hand_def)

lemma advance_stopped:
  assumes "ring_inv p" "\<not> p_running p" "p_thread p \<in> {T_blocked, T_returned}"
  shows "thread_advance p = thread_drain p" "in_hand p = []"
  using assms by (auto simp: thread_advance_def thread_wait.simps in_hand_def)

lemma advance_n_stopped:
  assumes "ring_inv p" "\<not> p_running p" "p_thread p \<in> {T_blocked, T_returned}" "2 * p_count p < n"
  shows "\<exists>q. advance_n n p = Some (port_mail p, q) \<and> p_thread q = T_exited \<and> port_mail q = []"
  using assms
proof (induction "p_count p" arbitrary: p n)
  case 0
  then obtain k where n: "n = Suc k" by (cases n) auto
  have "port_mail p = []" using 0 length_port_mail [OF 0(2)] by simp
  then show ?case
    using 0 advance_stopped [OF 0(2-4)] by (simp add: n thread_drain_cases advance_n_exited)
next
  case (Suc c)
  then obtain k where n: "n = Suc (Suc k)" "2 * c < k" by (cases n; cases "n - 1") auto
  have "port_mail p \<noteq> []" using Suc.hyps(2) length_port_mail [OF Suc.prems(1)] by auto
  then obtain m p1 where take: "ring_take p = Some (m, p1)"
    using ring_take_cases(1) [OF Suc.prems(1)] by fastforce
  note q = ring_take_cases(2) [OF Suc.prems(1) take]
  let ?h = "p1\<lparr> p_thread := T_handling m \<rparr>" and ?r = "p1\<lparr> p_thread := T_returned \<rparr>"
  have "thread_advance p = Some ?h"
    using take Suc.hyps(2) advance_stopped(1) [OF Suc.prems(1-3)]
    by (simp add: thread_drain_cases [OF Suc.prems(1)])
  moreover have "thread_advance ?h = Some ?r" by (simp add: thread_advance_def)
  moreover obtain q where "advance_n k ?r = Some (port_mail ?r, q)" "p_thread q = T_exited" "port_mail q = []"
    using Suc.hyps(1) [of ?r k] Suc.hyps(2) Suc.prems(2) q n(2) by auto
  ultimately show ?case
    using advance_stopped(2) [OF Suc.prems(1-3)] q by (simp add: n in_hand_def)
qed

section \<open>The port functions as interleavings\<close>

text \<open>What a delayed message needs: its payload buffer holds it, and holds any message allowed.\<close>

definition delay_inv :: "nat \<Rightarrow> ipc_port_state \<Rightarrow> bool" where
  "delay_inv n p \<longleftrightarrow>
     (case p_delay_payload p of None \<Rightarrow> False | Some buf \<Rightarrow> n \<le> length buf)
     \<and> (case p_delay_thread p of
          D_waiting \<Rightarrow> msg_readable ((p_delay_msg p)\<lparr> m_payload := p_delay_payload p \<rparr>)
        | D_posting m \<Rightarrow> msg_readable m
        | _ \<Rightarrow> True)"

text \<open>\<open>interleaves cap s t\<close>: every actor goes from \<open>s\<close> to \<open>t\<close> by a run, and keeps \<open>delay_inv\<close>.\<close>

definition interleaves :: "(aptr \<Rightarrow> nat) \<Rightarrow> posix \<Rightarrow> posix \<Rightarrow> bool" where
  "interleaves cap s t \<longleftrightarrow>
     (\<forall>b. delay_inv (cap b) (port_of t b) \<and> (\<exists>es. actor_run (port_of s b) es (port_of t b)))"

lemma actor_run_one: "actor_step p e q \<Longrightarrow> actor_run p [e] q"
  using actor_run.more [OF actor_run.none] by simp

lemma actor_run_trans: "actor_run q fs r \<Longrightarrow> actor_run p es q \<Longrightarrow> actor_run p (es @ fs) r"
proof (induction rule: actor_run.induct)
  case (more q fs r f u)
  from actor_run.more [OF more.IH [OF more.prems] more.hyps(2)] show ?case by simp
qed simp

lemma interleaves_refl: "\<forall>b. delay_inv (cap b) (port_of s b) \<Longrightarrow> interleaves cap s s"
  using actor_run.none by (auto simp: interleaves_def)

lemma interleaves_trans: "interleaves cap s t \<Longrightarrow> interleaves cap t u \<Longrightarrow> interleaves cap s u"
  unfolding interleaves_def using actor_run_trans by blast

lemma interleaves_inv: "interleaves cap s t \<Longrightarrow> delay_inv (cap b) (port_of t b)"
  by (simp add: interleaves_def)

lemma interleaves_set_port:
  assumes "\<forall>b. delay_inv (cap b) (port_of s b)" "actor_step (port_of s a) e p" "delay_inv (cap a) p"
    and "port_of t = (port_of s)(a := p)"
  shows "interleaves cap s t"
  using assms actor_run_one [OF assms(2)] actor_run.none by (auto simp: interleaves_def)

text \<open>A change of the delay fields only, in the form the functions write it.\<close>

lemma delay_step:
  assumes "q = p\<lparr> p_delay_thread := p_delay_thread q, p_delay_active := p_delay_active q,
    p_delay_msg := p_delay_msg q, p_delay_payload := p_delay_payload q, p_delay_ms := p_delay_ms q,
    p_delay_cancel := p_delay_cancel q \<rparr>"
  shows "actor_step p E_delay q"
  by (subst assms) (rule actor_step.delay)

lemma interleaves_delay:
  assumes "\<forall>b. delay_inv (cap b) (port_of s b)"
    "p = (port_of s a)\<lparr> p_delay_thread := p_delay_thread p, p_delay_active := p_delay_active p,
      p_delay_msg := p_delay_msg p, p_delay_payload := p_delay_payload p, p_delay_ms := p_delay_ms p,
      p_delay_cancel := p_delay_cancel p \<rparr>"
    "delay_inv (cap a) p"
  shows "interleaves cap s (set_port a p s)"
  by (rule interleaves_set_port [OF assms(1) delay_step [OF assms(2)] assms(3)]) simp

text \<open>Fields \<open>delay_inv\<close> does not read, and the states of the thread in which it asks nothing.\<close>

lemma delay_inv_cong:
  assumes "p_delay_payload q = p_delay_payload p" "p_delay_thread q = p_delay_thread p"
    "p_delay_msg q = p_delay_msg p"
  shows "delay_inv n q = delay_inv n p"
  unfolding delay_inv_def assms by (rule refl)

lemma delay_inv_update [simp]:
  "delay_inv n (p\<lparr> p_delay_cancel := b \<rparr>) = delay_inv n p"
  "delay_inv n (p\<lparr> p_delay_active := b \<rparr>) = delay_inv n p"
  "delay_inv n (stop_section p) = delay_inv n p" "delay_inv n (restart_section p) = delay_inv n p"
  by (rule delay_inv_cong; simp add: stop_section_def restart_section_def)+

lemma delay_inv_exited: "delay_inv n p \<Longrightarrow> delay_inv n (p\<lparr> p_delay_thread := D_exited \<rparr>)"
  by (simp add: delay_inv_def)

lemma delay_inv_wakes: "delay_inv n p \<Longrightarrow> p_delay_thread p = D_waiting \<Longrightarrow> delay_inv n (delay_wakes p)"
  by (simp add: delay_inv_def delay_wakes_def Let_def)

lemma ring_send_delay:
  assumes "ring_send m p = Some (q, rc)"
  shows "delay_inv n q = delay_inv n p"
  by (rule delay_inv_cong)
     (use assms in \<open>auto simp: ring_send_def split: if_splits option.splits prod.splits\<close>)

lemma posix_send_interleaves:
  assumes "\<forall>b. delay_inv (cap b) (port_of s b)" "msg_readable m" "\<not> fault (fst (posix_send a m s))"
  shows "interleaves cap s (fst (posix_send a m s))"
proof (cases "ring_send m (port_of s a)")
  case None
  with assms(3) show ?thesis by (simp add: posix_send_def)
next
  case (Some r)
  obtain p rc where r: "r = (p, rc)" by (cases r)
  have "actor_step (port_of s a) (if rc = 0 then E_sent m else E_refused m rc) p"
    using Some r assms(2) by (auto intro: actor_step.sent actor_step.refused)
  then show ?thesis
    by (rule interleaves_set_port [OF assms(1)])
       (use Some r assms(1) ring_send_delay [of m "port_of s a" p rc] in \<open>simp_all add: posix_send_def\<close>)
qed

lemma delay_posts_interleaves:
  assumes "\<forall>b. delay_inv (cap b) (port_of s b)" "\<not> fault (delay_posts a s)"
  shows "interleaves cap s (delay_posts a s)"
proof (cases "p_delay_thread (port_of s a)")
  case (D_posting msg)
  with assms(2) obtain b where b: "p_owner (port_of s a) = Some b"
    by (auto simp: delay_posts_def Let_def split: option.splits)
  let ?s1 = "fst (posix_send b msg s)"
  have eq: "delay_posts a s = set_port a ((port_of ?s1 a)\<lparr> p_delay_thread := D_exited \<rparr>) ?s1"
    using D_posting b by (simp add: delay_posts_def Let_def)
  have "msg_readable msg" using assms(1) D_posting by (auto simp: delay_inv_def dest: spec [of _ a])
  moreover have "\<not> fault ?s1" using assms(2) eq by simp
  ultimately have one: "interleaves cap s ?s1" by (rule posix_send_interleaves [OF assms(1)])
  have "interleaves cap ?s1 (delay_posts a s)"
    unfolding eq
    by (rule interleaves_delay) (simp_all add: interleaves_inv [OF one] delay_inv_exited)
  with one show ?thesis by (rule interleaves_trans)
qed (simp_all add: delay_posts_def interleaves_refl assms(1))

lemma join_delay_interleaves:
  assumes "\<forall>b. delay_inv (cap b) (port_of s b)" "\<not> fault (join_delay_thread a s)"
  shows "interleaves cap s (join_delay_thread a s)"
proof -
  define s1 where "s1 = (if p_delay_thread (port_of s a) = D_waiting
                         then set_port a (delay_wakes (port_of s a)) s else s)"
  have eq: "join_delay_thread a s = delay_posts a s1" by (simp add: join_delay_thread_def s1_def Let_def)
  have "interleaves cap s s1"
  proof (cases "p_delay_thread (port_of s a) = D_waiting")
    case True
    have "interleaves cap s (set_port a (delay_wakes (port_of s a)) s)"
      by (rule interleaves_delay [OF assms(1)])
         (use True assms(1) in \<open>simp_all add: delay_inv_wakes\<close>, simp add: delay_wakes_def Let_def)
    with True show ?thesis by (simp add: s1_def)
  qed (simp add: s1_def interleaves_refl assms(1))
  moreover from this have "interleaves cap s1 (join_delay_thread a s)"
    unfolding eq using assms(2) interleaves_inv [of cap s s1] delay_posts_interleaves [of cap s1 a] eq
    by simp
  ultimately show ?thesis by (rule interleaves_trans)
qed

lemma cancel_delayed_interleaves:
  assumes "\<forall>b. delay_inv (cap b) (port_of s b)" "\<not> fault (cancel_delayed_send a s)"
  shows "interleaves cap s (cancel_delayed_send a s)"
proof (cases "p_delay_active (port_of s a)")
  case True
  let ?s0 = "set_port a ((port_of s a)\<lparr> p_delay_cancel := True \<rparr>) s"
  let ?s1 = "join_delay_thread a ?s0"
  have eq: "cancel_delayed_send a s
      = set_port a ((port_of ?s1 a)\<lparr> p_delay_cancel := False, p_delay_active := False \<rparr>) ?s1"
    using True by (simp add: cancel_delayed_send_def Let_def)
  have first: "interleaves cap s ?s0"
    by (rule interleaves_delay [OF assms(1)]) (simp_all add: assms(1))
  have second: "interleaves cap ?s0 ?s1"
    by (rule join_delay_interleaves) (use interleaves_inv [OF first] assms(2) eq in simp_all)
  have "interleaves cap ?s1 (cancel_delayed_send a s)"
    unfolding eq
    by (rule interleaves_delay) (simp_all add: interleaves_inv [OF second])
  with first second show ?thesis by (blast intro: interleaves_trans)
qed (simp add: cancel_delayed_send_def interleaves_refl assms(1))

lemma fill_delay_slot_Some:
  assumes "fill_delay_slot msg ms p = Some q" "msg_readable msg" "m_size msg \<le> n" "delay_inv n p"
  shows "delay_inv n (q\<lparr> p_delay_active := True, p_delay_thread := D_waiting \<rparr>)"
    "q = p\<lparr> p_delay_msg := p_delay_msg q, p_delay_payload := p_delay_payload q, p_delay_ms := p_delay_ms q \<rparr>"
    "p_delay_thread p \<noteq> D_waiting \<Longrightarrow> delay_inv n q"
proof -
  from assms(4) obtain buf where buf: "p_delay_payload p = Some buf" "n \<le> length buf"
    by (auto simp: delay_inv_def split: option.splits)
  from assms(1) buf have q: "q = p\<lparr> p_delay_msg := msg\<lparr> m_payload := Some (copy_payload buf msg) \<rparr>,
      p_delay_payload := Some (copy_payload buf msg), p_delay_ms := ms \<rparr>"
    by (simp add: fill_delay_slot_def)
  have len: "length (copy_payload buf msg) = length buf"
    by (rule length_copy_payload) (use assms(3) buf(2) in simp)
  show "delay_inv n (q\<lparr> p_delay_active := True, p_delay_thread := D_waiting \<rparr>)"
    using len buf(2) assms(3) by (simp add: delay_inv_def q msg_readable_def)
  show "q = p\<lparr> p_delay_msg := p_delay_msg q, p_delay_payload := p_delay_payload q, p_delay_ms := p_delay_ms q \<rparr>"
    by (simp add: q)
  assume "p_delay_thread p \<noteq> D_waiting"
  then show "delay_inv n q"
    using len buf assms(4) by (simp add: delay_inv_def q split: delay_thread.split_asm)
qed

lemma cancelled_not_waiting:
  assumes "p_delay_thread (port_of s a) = D_waiting \<Longrightarrow> p_delay_active (port_of s a)"
  shows "p_delay_thread (port_of (cancel_delayed_send a s) a) \<noteq> D_waiting"
proof (cases "p_delay_active (port_of s a)")
  case True
  have posts: "p_delay_thread (port_of (delay_posts a u) a) \<noteq> D_waiting"
    if "p_delay_thread (port_of u a) \<noteq> D_waiting" for u
    using that by (auto simp: delay_posts_def Let_def split: delay_thread.split)
  have "p_delay_thread (port_of (join_delay_thread a u) a) \<noteq> D_waiting" for u
    unfolding join_delay_thread_def Let_def
    by (rule posts) (simp add: delay_wakes_def Let_def)
  with True show ?thesis by (simp add: cancel_delayed_send_def Let_def)
next
  case False
  with assms show ?thesis by (auto simp: cancel_delayed_send_def)
qed

lemma posix_send_after_interleaves:
  assumes "\<forall>b. delay_inv (cap b) (port_of s b)" "msg_readable msg"
    and "max_payload_size (a_cfg x) \<le> cap a"
    and "p_delay_thread (port_of s a) = D_waiting \<Longrightarrow> p_delay_active (port_of s a)"
    and "\<not> fault (fst (posix_send_after a x msg ms s))"
  shows "interleaves cap s (fst (posix_send_after a x msg ms s))"
proof -
  define s1 where "s1 = cancel_delayed_send a s"
  have nofault: "\<not> fault s1"
    using assms(5) by (auto simp: posix_send_after_def s1_def [symmetric] os_call_def Let_def
        split: if_splits option.splits prod.splits)
  have one: "interleaves cap s s1"
    unfolding s1_def by (rule cancel_delayed_interleaves [OF assms(1)]) (use nofault s1_def in simp)
  have inv1: "\<forall>b. delay_inv (cap b) (port_of s1 b)" using interleaves_inv [OF one] by blast
  have "interleaves cap s1 (fst (posix_send_after a x msg ms s))"
  proof (cases "m_size msg > max_payload_size (a_cfg x)")
    case True
    then show ?thesis
      by (simp add: posix_send_after_def s1_def [symmetric] interleaves_refl inv1)
  next
    case False
    with assms(5) obtain p where p: "fill_delay_slot msg ms (port_of s1 a) = Some p"
      by (auto simp: posix_send_after_def s1_def [symmetric] split: option.splits)
    note fill = fill_delay_slot_Some [OF p assms(2) _ inv1 [rule_format]]
    have size: "m_size msg \<le> cap a" using False assms(3) by simp
    have quiet: "p_delay_thread (port_of s1 a) \<noteq> D_waiting"
      unfolding s1_def by (rule cancelled_not_waiting [OF assms(4)])
    define q where "q = (if os_result s1 (os_calls s1) = 0
        then p\<lparr> p_delay_active := True, p_delay_thread := D_waiting \<rparr> else p)"
    have "port_of (fst (posix_send_after a x msg ms s)) = (port_of s1)(a := q)"
      using False p by (simp add: posix_send_after_def s1_def [symmetric] os_call_def q_def)
    moreover have "delay_inv (cap a) q" using fill(1,3) [OF size] quiet by (simp add: q_def)
    moreover have "actor_step (port_of s1 a) E_delay q"
    proof -
      obtain dm dp dms where "p = (port_of s1 a)\<lparr> p_delay_msg := dm, p_delay_payload := dp,
          p_delay_ms := dms \<rparr>"
        using fill(2) [OF size] by blast
      then show ?thesis by (intro delay_step) (simp add: q_def)
    qed
    ultimately show ?thesis using interleaves_set_port [OF inv1] by blast
  qed
  with one show ?thesis by (rule interleaves_trans)
qed

section \<open>Properties\<close>

text \<open>
  C16: an actor handles the accepted messages once each and in the order they were accepted. From an
  actor whose thread has just been created, in every interleaving of sends, stops, restarts and
  thread stretches: the handled messages, the one being handled and those in the ring are together
  exactly the accepted ones, in order, if there was no restart; restarts only leave messages out
  (those then in the ring), never reorder or duplicate. The ring stays well-formed.
\<close>

theorem posix_thread_fifo:
  assumes "ring_inv p" "p_thread p = T_start" "port_mail p = []" "actor_run p es q"
  shows "ring_inv q \<and> subseq (handled_of es @ in_hand q @ port_mail q) (sent_of es)
    \<and> (E_restart \<notin> set es \<longrightarrow> handled_of es @ in_hand q @ port_mail q = sent_of es)"
proof -
  have "in_hand p = []" using assms(2) by (simp add: in_hand_def)
  then show ?thesis
    using actor_run_order [OF assms(4,1)] actor_run_inv [OF assms(4,1)] assms(3) by simp
qed


text \<open>
  C18: a thread that has begun its loop does not exit with work left. It exits only after a stop;
  its ring is then empty, except when the stop came before the thread first got the lock: that
  thread exits at once and leaves every accepted message unhandled.
\<close>

theorem posix_thread_exit_drained:
  assumes "ring_inv p" "actor_step p e q" "p_thread p \<noteq> T_exited" "p_thread q = T_exited"
  shows "\<not> p_running q
    \<and> (if p_thread p = T_start then port_mail q = port_mail p else port_mail q = [] \<and> port_mail p = [])"
proof -
  have "e = E_thread \<and> p_thread p \<in> {T_start, T_blocked, T_returned} \<and> thread_advance p = Some q"
    using assms(2-4)
  proof (cases rule: actor_step.cases)
    case (sent m)
    then show ?thesis using ring_send_outcome(2) [OF assms(1), of m q 0] assms(3,4) by simp
  next
    case (refused m rc)
    then show ?thesis using ring_send_outcome(1) [OF assms(1), of m q rc] assms(3,4) by simp
  qed (auto simp: stop_section_def restart_section_def thread_advance_def)
  then show ?thesis
    using assms(1,4) length_port_mail [OF assms(1)]
    by (auto simp: thread_advance_def thread_outer.simps thread_wait.simps thread_drain_cases
        split: if_splits)
qed


text \<open>
  C19: after a stop the thread drains its ring and ends. If nothing else touches the actor, a
  stopped thread that is past its start hands every message in the ring to the handler, in order
  (after the one in hand), and has exited after at most \<open>2 * count + 2\<close> stretches.
\<close>

theorem posix_thread_stops:
  assumes "ring_inv p" "\<not> p_running p"
    and "p_thread p \<in> {T_blocked, T_returned} \<union> range T_handling"
  shows "\<exists>q. advance_n (2 * p_count p + 2) p = Some (in_hand p @ port_mail p, q)
    \<and> p_thread q = T_exited \<and> port_mail q = []"
proof (cases "p_thread p \<in> {T_blocked, T_returned}")
  case True
  then show ?thesis
    using advance_n_stopped [OF assms(1,2) True, of "2 * p_count p + 2"] advance_stopped(2) [OF assms(1,2)]
    by simp
next
  case False
  then obtain m where m: "p_thread p = T_handling m" using assms(3) by auto
  let ?r = "p\<lparr> p_thread := T_returned \<rparr>"
  have step: "thread_advance p = Some ?r" using m by (simp add: thread_advance_def)
  have n: "2 * p_count p + 2 = Suc (2 * p_count ?r + 1)" by simp
  show ?thesis
    using advance_n_stopped [of ?r "2 * p_count ?r + 1"] assms(1,2)
    unfolding n advance_n.simps step by auto
qed

section \<open>Concrete runs\<close>

lemma ex_sent:
  obtains p where "actor_run (ex_ring_state a) [E_sent ex_message] p" "p_thread p = T_start"
    "p_running p" "p_count p = 1" "ring_inv p" "port_mail p = [received ex_message]"
proof -
  have fits: "m_size ex_message \<le> payload_area (p_slot_size (ex_ring_state a))"
    "p_count (ex_ring_state a) < p_capacity (ex_ring_state a)"
    by (simp_all add: ex_message_def ex_ring_state_def zero_port_state_def payload_area_def slot_header_size)
  have read: "msg_readable ex_message" by (simp add: msg_readable_def ex_message_def)
  obtain q where q: "ring_send ex_message (ex_ring_state a) = Some (q, 0)" "ring_inv q"
    "port_mail q = port_mail (ex_ring_state a) @ [received ex_message]"
    "p_count q = p_count (ex_ring_state a) + 1" "p_running q = p_running (ex_ring_state a)"
    using ring_send_room [OF ex_ring_state_inv(1) fits(2,1)] read by blast
  have "p_thread q = T_start"
    using ring_send_outcome(2) [OF ex_ring_state_inv(1) q(1) refl read]
    by (simp add: ex_ring_state_def)
  moreover have "actor_run (ex_ring_state a) ([] @ [E_sent ex_message]) q"
    by (rule actor_run.more [OF actor_run.none actor_step.sent]) (rule read q(1))+
  ultimately show ?thesis
    using that [of q] q(2-5) ex_ring_state_inv(2) [of a]
    by (simp add: ex_ring_state_def zero_port_state_def)
qed

theorem posix_thread_fifo_witness:
  "\<exists>p q. actor_run (ex_ring_state 1) [E_sent ex_message, E_thread] q
    \<and> in_hand q @ port_mail q = [received ex_message]"
proof -
  obtain p where p: "actor_run (ex_ring_state 1) [E_sent ex_message] p" "p_thread p = T_start"
    "p_running p" "p_count p = 1" "ring_inv p" "port_mail p = [received ex_message]"
    by (rule ex_sent)
  obtain m p1 where "ring_take p = Some (m, p1)"
    using p(6) ring_take_cases(1) [OF p(5)] by fastforce
  then have "thread_advance p = Some (p1\<lparr> p_thread := T_handling m \<rparr>)"
    using p by (simp add: thread_advance_def thread_outer.simps thread_wait.simps thread_drain_cases)
  then have "actor_step p E_thread (p1\<lparr> p_thread := T_handling m \<rparr>)"
    using p(2) by (intro actor_step.runs) simp_all
  from actor_run.more [OF p(1) this]
  have run: "actor_run (ex_ring_state 1) [E_sent ex_message, E_thread] (p1\<lparr> p_thread := T_handling m \<rparr>)"
    by simp
  have "p_thread (ex_ring_state 1) = T_start" by (simp add: ex_ring_state_def)
  from posix_thread_fifo [OF ex_ring_state_inv(1) this ex_ring_state_inv(2) run] run show ?thesis by auto
qed

theorem posix_thread_exit_drained_witness:
  "\<exists>p q. port_mail p = [received ex_message] \<and> actor_step p E_thread q \<and> p_thread q = T_exited
    \<and> \<not> p_running q \<and> port_mail q = [received ex_message]"
proof -
  obtain p where p: "p_thread p = T_start" "ring_inv p" "port_mail p = [received ex_message]"
    by (rule ex_sent)
  let ?p = "stop_section p"
  let ?q = "?p\<lparr> p_thread := T_exited \<rparr>"
  have step: "actor_step ?p E_thread ?q"
    by (intro actor_step.runs)
       (simp_all add: p(1) stop_section_def thread_advance_def thread_outer.simps)
  have "p_thread ?p = T_start" using p(1) by (simp add: stop_section_def)
  with posix_thread_exit_drained [of ?p, OF _ step] p step show ?thesis
    by (intro exI [of _ ?p] exI [of _ ?q]) simp
qed

theorem posix_thread_stops_witness:
  "\<exists>p q. \<not> p_running p \<and> advance_n 4 p = Some ([received ex_message], q) \<and> p_thread q = T_exited"
proof -
  obtain p where p: "p_count p = 1" "ring_inv p" "port_mail p = [received ex_message]"
    by (rule ex_sent)
  let ?p = "(stop_section p)\<lparr> p_thread := T_blocked \<rparr>"
  have "in_hand ?p = []" "p_count ?p = 1" "\<not> p_running ?p" "ring_inv ?p"
    using p by (simp_all add: in_hand_def stop_section_def)
  moreover have "2 * p_count ?p + 2 = 4" "port_mail ?p = [received ex_message]"
    using p by (simp_all add: stop_section_def)
  ultimately obtain q where "advance_n 4 ?p = Some ([received ex_message], q)" "p_thread q = T_exited"
    "\<not> p_running ?p"
    using posix_thread_stops [of ?p] by auto
  then show ?thesis by blast
qed


lemma ex_delayed:
  fixes a :: aptr
  assumes "max_payload_size (a_cfg x) = 8"
  defines "s1 \<equiv> fst (posix_send_after a x ex_message 250 ex_posix)"
  shows "\<not> fault s1" "p_delay_active (port_of s1 a)" "p_delay_thread (port_of s1 a) = D_waiting"
proof -
  have idle: "p_delay_active (port_of ex_posix a) = False"
    "p_delay_payload (port_of ex_posix a) = Some (replicate 8 0)"
    "os_result ex_posix n = 0" "fault ex_posix = False" for n
    by (simp_all add: ex_posix_def posix_initial_def ex_ring_state_def zero_port_state_def)
  show "\<not> fault s1" "p_delay_active (port_of s1 a)" "p_delay_thread (port_of s1 a) = D_waiting"
    using assms(1)
    by (simp_all add: s1_def posix_send_after_def cancel_delayed_send_def fill_delay_slot_def
        os_call_def idle Let_def) (simp_all add: ex_message_def idle)
qed


end
