(* ===== verification/Ipc_Lifecycle.thy ===== *)
theory Ipc_Lifecycle
  imports Ipc_Dispatch
begin

text \<open>
  Start, run, stop and supervision in \<^verbatim>\<open>src/ipc.c\<close>.

  The loops follow the \<^verbatim>\<open>_next\<close> pointers while hooks of the application run, so their models are
  \<open>partial_function\<close>s (\<open>None\<close>: the walk does not end). When the list is well formed and the hooks
  keep the links (\<open>keeps_links\<close>), each walk ends and equals a fold over the actors.
\<close>

section \<open>Definitions\<close>

definition call_hook :: "('p, 'u) user_code \<Rightarrow> (fnptr \<Rightarrow> user_call) \<Rightarrow> fnptr option \<Rightarrow> ('p, 'u) sys \<Rightarrow> ('p, 'u) sys" where
  "call_hook U mk h s = (case h of None \<Rightarrow> s | Some f \<Rightarrow> U (mk f) s)"

text \<open>The body of the stop loops: the stop hook, then the port.\<close>

definition stop_one :: "'p port_ops \<Rightarrow> ('p, 'u) user_code \<Rightarrow> aptr \<Rightarrow> ('p, 'u) sys \<Rightarrow> ('p, 'u) sys" where
  "stop_one P U a s =
     ipc_port_stop_actor P a (call_hook U (\<lambda>f. Call_stop_hook f a) (a_stop_hook (actors s a)) s)"

partial_function (option) stop_actors_from ::
    "'p port_ops \<Rightarrow> ('p, 'u) user_code \<Rightarrow> aptr option \<Rightarrow> aptr option \<Rightarrow> ('p, 'u) sys
     \<Rightarrow> ('p, 'u) sys option" where
  "stop_actors_from P U final p s =
     (case p of
        None \<Rightarrow> Some s
      | Some a \<Rightarrow>
          (let s1 = stop_one P U a s
           in if Some a = final then Some s1
              else stop_actors_from P U final (a_next (actors s1 a)) s1))"

definition stop_actors_through ::
    "'p port_ops \<Rightarrow> ('p, 'u) user_code \<Rightarrow> aptr \<Rightarrow> ('p, 'u) sys \<Rightarrow> ('p, 'u) sys option" where
  "stop_actors_through P U final s = stop_actors_from P U (Some final) (ipc_actor_list s) s"

text \<open>The failure exit of the start loop.\<close>

definition start_failed ::
    "'p port_ops \<Rightarrow> ('p, 'u) user_code \<Rightarrow> int \<Rightarrow> aptr option \<Rightarrow> ('p, 'u) sys
     \<Rightarrow> (int \<times> ('p, 'u) sys) option" where
  "start_failed P U rc last_started s =
     map_option (\<lambda>t. (rc, t\<lparr> lifecycle_state := IPC_LIFECYCLE_STOPPING \<rparr>))
       (case last_started of None \<Rightarrow> Some s | Some l \<Rightarrow> stop_actors_through P U l s)"

partial_function (option) start_actors_from ::
    "'p port_ops \<Rightarrow> ('p, 'u) user_code \<Rightarrow> aptr option \<Rightarrow> aptr option \<Rightarrow> ('p, 'u) sys
     \<Rightarrow> (int \<times> ('p, 'u) sys) option" where
  "start_actors_from P U last_started p s =
     (case p of
        None \<Rightarrow> Some (0, s)
      | Some a \<Rightarrow>
          (case ipc_port_actor_init P a s of
             (rc, s1) \<Rightarrow>
               if rc \<noteq> 0 then start_failed P U rc last_started s1
               else
                 (case ipc_port_start P a
                         (call_hook U (\<lambda>f. Call_start_hook f a) (a_start_hook (actors s1 a)) s1) of
                    (rc, s3) \<Rightarrow>
                      if rc \<noteq> 0 then start_failed P U rc (Some a) s3
                      else start_actors_from P U (Some a) (a_next (actors s3 a)) s3)))"

definition ipc_start_all_actors ::
    "'p port_ops \<Rightarrow> ('p, 'u) user_code \<Rightarrow> ('p, 'u) sys \<Rightarrow> (int \<times> ('p, 'u) sys) option" where
  "ipc_start_all_actors P U s =
     (if lifecycle_state s \<noteq> IPC_LIFECYCLE_STOPPED
      then Some (if lifecycle_state s = IPC_LIFECYCLE_STOPPING then - EBUSY else - EALREADY, s)
      else
        (let s1 = s\<lparr> lifecycle_state := IPC_LIFECYCLE_RUNNING \<rparr>
         in start_actors_from P U None (ipc_actor_list s1) s1))"

text \<open>The port's own walk of the actor list in \<^verbatim>\<open>ipc_port_run_all\<close>.\<close>

partial_function (option) walk_actors :: "('p, 'u) sys \<Rightarrow> aptr option \<Rightarrow> aptr list option" where
  "walk_actors s p =
     (case p of
        None \<Rightarrow> Some []
      | Some a \<Rightarrow> Option.bind (walk_actors s (a_next (actors s a))) (\<lambda>as. Some (a # as)))"

definition ipc_run_all :: "'p port_ops \<Rightarrow> ('p, 'u) sys \<Rightarrow> (int \<times> ('p, 'u) sys) option" where
  "ipc_run_all P s =
     (case walk_actors s (ipc_actor_list s) of
        None \<Rightarrow> None
      | Some xs \<Rightarrow>
          (case port_run_all P xs (port_st s) of
             None \<Rightarrow> None
           | Some (p, rc) \<Rightarrow>
               (let s1 = s\<lparr> port_st := p \<rparr>
                in Some (rc, if rc = 0 \<and> lifecycle_state s1 = IPC_LIFECYCLE_STOPPING
                             then s1\<lparr> lifecycle_state := IPC_LIFECYCLE_STOPPED \<rparr> else s1))))"

definition ipc_stop_all ::
    "'p port_ops \<Rightarrow> ('p, 'u) user_code \<Rightarrow> ('p, 'u) sys \<Rightarrow> ('p, 'u) sys option" where
  "ipc_stop_all P U s =
     (if lifecycle_state s \<noteq> IPC_LIFECYCLE_RUNNING then Some s
      else
        (let s1 = s\<lparr> lifecycle_state := IPC_LIFECYCLE_STOPPING \<rparr>
         in stop_actors_from P U None (ipc_actor_list s1) s1))"

definition ipc_actor_fail ::
    "'p port_ops \<Rightarrow> ('p, 'u) user_code \<Rightarrow> aptr option \<Rightarrow> int \<Rightarrow> ('p, 'u) sys \<Rightarrow> int \<times> ('p, 'u) sys" where
  "ipc_actor_fail P U a reason s =
     (case a of
        None \<Rightarrow> (- EINVAL, s)
      | Some self \<Rightarrow>
          (let s1 = call_hook U (\<lambda>f. Call_failure_hook f self reason) (a_failure_hook (actors s self)) s
           in case a_supervision (actors s1 self) of
                IPC_SUPERVISE_NONE \<Rightarrow> (0, s1)
              | IPC_SUPERVISE_STOP \<Rightarrow> (0, stop_one P U self s1)
              | IPC_SUPERVISE_RESTART \<Rightarrow>
                  (let s2 = call_hook U (\<lambda>f. Call_stop_hook f self) (a_stop_hook (actors s1 self)) s1
                   in case ipc_port_restart_actor P self s2 of
                        (rc, s3) \<Rightarrow>
                          if rc \<noteq> 0 then (rc, s3)
                          else (0, call_hook U (\<lambda>f. Call_start_hook f self)
                                     (a_start_hook (actors s3 self)) s3))
              | Other_strategy n \<Rightarrow> (- EINVAL, s1)))"

section \<open>Walks as folds\<close>

definition keeps_links :: "('p, 'u) user_code \<Rightarrow> bool" where
  "keeps_links U \<longleftrightarrow>
     (\<forall>c s. ipc_actor_list (U c s) = ipc_actor_list s
        \<and> (\<forall>a. a_next (actors (U c s) a) = a_next (actors s a)))"

lemma keeps_links_recording: "keeps_links recording"
  by (simp add: keeps_links_def recording_def)

definition same_links :: "('p, 'u) sys \<Rightarrow> ('p, 'u) sys \<Rightarrow> bool" where
  "same_links s t \<longleftrightarrow>
     ipc_actor_list t = ipc_actor_list s \<and> (\<forall>a. a_next (actors t a) = a_next (actors s a))"

lemma same_links_trans: "same_links s t \<Longrightarrow> same_links t u \<Longrightarrow> same_links s u"
  by (simp add: same_links_def)

lemma same_links_actor_list: "same_links s t \<Longrightarrow> actor_list t xs \<longleftrightarrow> actor_list s xs"
  by (intro actor_list_cong) (simp_all add: same_links_def)

lemma same_links_seg:
  "same_links s t \<Longrightarrow> list_seg (next_of t) p xs \<longleftrightarrow> list_seg (next_of s) p xs"
  by (intro list_seg_cong) (simp add: same_links_def)

lemma call_hook_links: "keeps_links U \<Longrightarrow> same_links s (call_hook U mk h s)"
  by (simp add: call_hook_def keeps_links_def same_links_def split: option.split)

lemma stop_one_links: "keeps_links U \<Longrightarrow> same_links s (stop_one P U a s)"
  using call_hook_links [of U s "\<lambda>f. Call_stop_hook f a" "a_stop_hook (actors s a)"]
  by (simp add: stop_one_def ipc_port_stop_actor_def same_links_def)

lemma on_port_links: "same_links s (snd (on_port f s))"
  by (simp add: same_links_def on_port_fields)

text \<open>The actors a stop loop visits: all, or those up to and including the given one.\<close>

fun up_to :: "aptr option \<Rightarrow> aptr list \<Rightarrow> aptr list" where
  "up_to final [] = []"
| "up_to final (a # xs) = (if Some a = final then [a] else a # up_to final xs)"

lemma up_to_None: "up_to None xs = xs"
  by (induction xs) simp_all

lemma up_to_Some: "a \<notin> set ys \<Longrightarrow> up_to (Some a) (ys @ a # zs) = ys @ [a]"
  by (induction ys) auto

lemma stop_actors_from_fold:
  assumes "keeps_links U" "list_seg (next_of s) p xs"
  shows "stop_actors_from P U final p s = Some (fold (stop_one P U) (up_to final xs) s)"
  using assms(2)
proof (induction xs arbitrary: p s)
  case Nil
  then show ?case by (subst stop_actors_from.simps) simp
next
  case (Cons a xs)
  let ?t = "stop_one P U a s"
  from Cons.prems have p: "p = Some a" and tl: "list_seg (next_of s) (a_next (actors s a)) xs" by auto
  have links: "same_links s ?t" by (rule stop_one_links [OF assms(1)])
  then have "list_seg (next_of ?t) (a_next (actors ?t a)) xs"
    using tl same_links_seg [OF links] by (simp add: same_links_def)
  with Cons.IH [of ?t] p show ?case
    by (subst stop_actors_from.simps) (auto simp: Let_def)
qed

lemma stop_all_fold:
  assumes "keeps_links U" "list_seg (next_of s) p xs"
  shows "stop_actors_from P U None p s = Some (fold (stop_one P U) xs s)"
  using stop_actors_from_fold [OF assms] by (simp add: up_to_None)

lemma stop_through_fold:
  assumes "keeps_links U" "actor_list s (ys @ a # zs)"
  shows "stop_actors_through P U a s = Some (fold (stop_one P U) (ys @ [a]) s)"
  using stop_actors_from_fold [OF assms(1), of s "ipc_actor_list s" "ys @ a # zs" P "Some a"] assms(2)
  by (simp add: stop_actors_through_def actor_list_def up_to_Some)

lemma walk_actors_list:
  "list_seg (next_of s) p xs \<Longrightarrow> walk_actors s p = Some xs"
proof (induction xs arbitrary: p)
  case Nil
  then show ?case by (subst walk_actors.simps) simp
next
  case (Cons a xs)
  then show ?case by (subst walk_actors.simps) auto
qed

section \<open>The calls a start or stop makes\<close>

definition hook_calls :: "(fnptr \<Rightarrow> user_call) \<Rightarrow> fnptr option \<Rightarrow> user_call list" where
  "hook_calls mk h = (case h of None \<Rightarrow> [] | Some f \<Rightarrow> [mk f])"

definition start_calls :: "('p, 'u) sys \<Rightarrow> aptr list \<Rightarrow> user_call list" where
  "start_calls s xs =
     concat (map (\<lambda>a. hook_calls (\<lambda>f. Call_start_hook f a) (a_start_hook (actors s a))) xs)"

definition stop_calls :: "('p, 'u) sys \<Rightarrow> aptr list \<Rightarrow> user_call list" where
  "stop_calls s xs =
     concat (map (\<lambda>a. hook_calls (\<lambda>f. Call_stop_hook f a) (a_stop_hook (actors s a))) xs)"

text \<open>\<open>records s t cs\<close>: from \<open>s\<close> to \<open>t\<close> only the port changed, and the calls \<open>cs\<close> were recorded.\<close>

definition records :: "('p, user_call list) sys \<Rightarrow> ('p, user_call list) sys \<Rightarrow> user_call list \<Rightarrow> bool" where
  "records s t cs \<longleftrightarrow> t = s\<lparr> port_st := port_st t, app_st := app_st s @ cs \<rparr>"

lemma records_fields:
  assumes "records s t cs"
  shows "actors t = actors s" "ipc_actor_list t = ipc_actor_list s"
    "lifecycle_state t = lifecycle_state s" "app_st t = app_st s @ cs"
    "start_calls t = start_calls s" "stop_calls t = stop_calls s" "next_of t = next_of s"
proof -
  from assms have eq: "t = s\<lparr> port_st := port_st t, app_st := app_st s @ cs \<rparr>"
    by (simp add: records_def)
  show "actors t = actors s" by (subst eq) simp
  then show "start_calls t = start_calls s" "stop_calls t = stop_calls s" "next_of t = next_of s"
    by (simp_all add: start_calls_def stop_calls_def fun_eq_iff)
  show "ipc_actor_list t = ipc_actor_list s" by (subst eq) simp
  show "lifecycle_state t = lifecycle_state s" by (subst eq) simp
  show "app_st t = app_st s @ cs" by (subst eq) simp
qed

lemma records_trans:
  assumes "records s t cs" "records t u ds"
  shows "records s u (cs @ ds)"
proof -
  note f = assms [unfolded records_def]
  have "app_st t = app_st s @ cs" by (rule records_fields(4) [OF assms(1)])
  then have "u = t\<lparr> port_st := port_st u, app_st := app_st s @ cs @ ds \<rparr>" using f(2) by simp
  then show ?thesis unfolding records_def by (subst (asm) f(1)) simp
qed

lemma records_on_port: "records s (snd (on_port f s)) []"
  by (simp add: records_def on_port_def split: prod.splits)

lemma records_hook: "records s (call_hook recording mk h s) (hook_calls mk h)"
  by (simp add: records_def call_hook_def hook_calls_def recording_def split: option.split)

lemma call_hook_recording:
  "call_hook recording mk h s = s\<lparr> app_st := app_st s @ hook_calls mk h \<rparr>"
  by (simp add: call_hook_def hook_calls_def recording_def split: option.split)

lemma records_stop_one: "records s (stop_one P recording a s) (stop_calls s [a])"
proof -
  let ?t = "call_hook recording (\<lambda>f. Call_stop_hook f a) (a_stop_hook (actors s a)) s"
  have "records s ?t (stop_calls s [a])" unfolding stop_calls_def by (simp add: records_hook)
  moreover have "records ?t (stop_one P recording a s) []"
    by (simp add: stop_one_def ipc_port_stop_actor_def records_def)
  ultimately show ?thesis using records_trans by fastforce
qed

lemma records_stops: "records s (fold (stop_one P recording) xs s) (stop_calls s xs)"
proof (induction xs arbitrary: s)
  case Nil
  then show ?case by (simp add: records_def stop_calls_def)
next
  case (Cons a xs)
  let ?t = "stop_one P recording a s"
  have 1: "records s ?t (stop_calls s [a])" by (rule records_stop_one)
  have "records ?t (fold (stop_one P recording) xs ?t) (stop_calls s xs)"
    using Cons.IH [of ?t] records_fields(6) [OF 1] by simp
  from records_trans [OF 1 this] show ?case by (simp add: stop_calls_def)
qed

text \<open>
  The start loop: it ends; when it fails, the actors whose start hooks ran are exactly those whose
  stop hooks run.
\<close>

lemma start_failed_records:
  assumes "actor_list s (done @ rest)"
  shows "\<exists>t. start_failed P recording rc (if done = [] then None else Some (last done)) s
      = Some (rc, t\<lparr> lifecycle_state := IPC_LIFECYCLE_STOPPING \<rparr>)
    \<and> records s t (stop_calls s done)"
proof (cases "done = []")
  case True
  then show ?thesis
    by (intro exI [of _ s]) (simp add: start_failed_def records_def stop_calls_def)
next
  case False
  then have d: "done = butlast done @ [last done]" by simp
  then have "actor_list s (butlast done @ last done # rest)"
    using assms by (metis append.assoc append_Cons append_Nil)
  from stop_through_fold [OF keeps_links_recording this, of P]
  have "stop_actors_through P recording (last done) s = Some (fold (stop_one P recording) done s)"
    using d by simp
  then show ?thesis using False records_stops [of s P "done"] by (auto simp: start_failed_def)
qed

lemma start_loop_records:
  assumes "actor_list s (done @ xs)" "list_seg (next_of s) p xs"
  shows "\<exists>rc k t. start_actors_from P recording (if done = [] then None else Some (last done)) p s
      = Some (rc, if rc = 0 then t else t\<lparr> lifecycle_state := IPC_LIFECYCLE_STOPPING \<rparr>)
    \<and> k \<le> length xs \<and> (rc = 0 \<longrightarrow> k = length xs)
    \<and> records s t (start_calls s (take k xs) @ (if rc = 0 then [] else stop_calls s (done @ take k xs)))"
  using assms
proof (induction xs arbitrary: p s "done")
  case Nil
  then have "start_actors_from P recording (if done = [] then None else Some (last done)) p s = Some (0, s)"
    by (subst start_actors_from.simps) simp
  then show ?case by (intro exI [of _ 0] exI [of _ s]) (simp add: records_def start_calls_def)
next
  case (Cons a xs)
  let ?ls = "if done = [] then None else Some (last done)"
  from Cons.prems have p: "p = Some a" and tl: "list_seg (next_of s) (a_next (actors s a)) xs" by auto
  obtain rc1 s1 where i: "ipc_port_actor_init P a s = (rc1, s1)" by (cases "ipc_port_actor_init P a s")
  have r1: "records s s1 []" using records_on_port [of s "port_actor_init P a (actors s a)"] i
    by (simp add: ipc_port_actor_init_def)
  define s2 where "s2 = call_hook recording (\<lambda>f. Call_start_hook f a) (a_start_hook (actors s1 a)) s1"
  have r2: "records s s2 (start_calls s [a])"
    using records_trans [OF r1 records_hook] records_fields(1) [OF r1]
    by (simp add: s2_def start_calls_def)
  obtain rc3 s3 where st: "ipc_port_start P a s2 = (rc3, s3)" by (cases "ipc_port_start P a s2")
  have "records s2 s3 []" using records_on_port [of s2 "port_start P a (actors s2 a)"] st
    by (simp add: ipc_port_start_def)
  with r2 have r3: "records s s3 (start_calls s [a])" using records_trans by fastforce
  have step: "start_actors_from P recording ?ls p s
      = (if rc1 \<noteq> 0 then start_failed P recording rc1 ?ls s1
         else if rc3 \<noteq> 0 then start_failed P recording rc3 (Some a) s3
         else start_actors_from P recording (Some a) (a_next (actors s3 a)) s3)"
    using p i st by (subst start_actors_from.simps) (simp add: s2_def)
  note f1 = records_fields [OF r1] and f3 = records_fields [OF r3]
  have al1: "actor_list s1 (done @ a # xs)" using Cons.prems(1) by (simp add: actor_list_def f1)
  have al3: "actor_list s3 ((done @ [a]) @ xs)" using Cons.prems(1) by (simp add: actor_list_def f3)
  consider "rc1 \<noteq> 0" | "rc1 = 0" "rc3 \<noteq> 0" | "rc1 = 0" "rc3 = 0" by blast
  then show ?case
  proof cases
    case 1
    obtain t where t: "start_failed P recording rc1 ?ls s1
        = Some (rc1, t\<lparr> lifecycle_state := IPC_LIFECYCLE_STOPPING \<rparr>)" "records s1 t (stop_calls s1 done)"
      using start_failed_records [OF al1] by blast
    show ?thesis
      using 1 step t records_trans [OF r1 t(2)]
      by (intro exI [of _ rc1] exI [of _ 0] exI [of _ t]) (simp add: f1 start_calls_def)
  next
    case 2
    obtain t where t: "start_failed P recording rc3 (Some a) s3
        = Some (rc3, t\<lparr> lifecycle_state := IPC_LIFECYCLE_STOPPING \<rparr>)"
      "records s3 t (stop_calls s3 (done @ [a]))"
      using start_failed_records [OF al3, of P rc3] by auto
    show ?thesis
      using 2 step t records_trans [OF r3 t(2)]
      by (intro exI [of _ rc3] exI [of _ 1] exI [of _ t]) (simp add: f3)
  next
    case 3
    have "list_seg (next_of s3) (a_next (actors s3 a)) xs" using tl by (simp add: f3)
    from Cons.IH [OF al3 this] obtain rc k t where
      t: "start_actors_from P recording (Some a) (a_next (actors s3 a)) s3
        = Some (rc, if rc = 0 then t else t\<lparr> lifecycle_state := IPC_LIFECYCLE_STOPPING \<rparr>)"
      "k \<le> length xs" "rc = 0 \<longrightarrow> k = length xs"
      "records s3 t (start_calls s3 (take k xs)
        @ (if rc = 0 then [] else stop_calls s3 ((done @ [a]) @ take k xs)))"
      by auto
    have "start_calls s (a # take k xs) = start_calls s [a] @ start_calls s (take k xs)"
      by (simp add: start_calls_def)
    with 3 step t records_trans [OF r3 t(4)] show ?thesis
      by (intro exI [of _ rc] exI [of _ "Suc k"] exI [of _ t]) (auto simp: f3)
  qed
qed

section \<open>Termination for any hooks\<close>

lemma same_links_refl: "same_links s s"
  by (simp add: same_links_def)

lemma start_failed_returns:
  assumes "keeps_links U" "actor_list s ys"
  shows "\<exists>r. start_failed P U rc l s = Some r"
  using stop_actors_from_fold [OF assms(1), of s "ipc_actor_list s" ys] assms(2)
  by (auto simp: start_failed_def stop_actors_through_def actor_list_def split: option.split)

lemma start_loop_returns:
  assumes "keeps_links U" "actor_list s ys" "list_seg (next_of s) p xs"
  shows "\<exists>r. start_actors_from P U l p s = Some r"
  using assms(2,3)
proof (induction xs arbitrary: l p s)
  case Nil
  then show ?case by (subst start_actors_from.simps) simp
next
  case (Cons a xs)
  from Cons.prems have p: "p = Some a" and tl: "list_seg (next_of s) (a_next (actors s a)) xs" by auto
  obtain rc1 s1 where i: "ipc_port_actor_init P a s = (rc1, s1)" by (cases "ipc_port_actor_init P a s")
  let ?s2 = "call_hook U (\<lambda>f. Call_start_hook f a) (a_start_hook (actors s1 a)) s1"
  obtain rc3 s3 where st: "ipc_port_start P a ?s2 = (rc3, s3)" by (cases "ipc_port_start P a ?s2")
  have l1: "same_links s s1"
    using on_port_links [of s "port_actor_init P a (actors s a)"] i by (simp add: ipc_port_actor_init_def)
  have "same_links ?s2 s3"
    using on_port_links [of ?s2 "port_start P a (actors ?s2 a)"] st by (simp add: ipc_port_start_def)
  then have l3: "same_links s s3"
    using same_links_trans [OF l1 call_hook_links [OF assms(1)]] same_links_trans by blast
  have "actor_list s1 ys" "actor_list s3 ys"
    using Cons.prems(1) same_links_actor_list [OF l1] same_links_actor_list [OF l3] by blast+
  moreover have "list_seg (next_of s3) (a_next (actors s3 a)) xs"
    using tl same_links_seg [OF l3] l3 by (simp add: same_links_def)
  ultimately show ?case
    using Cons.IH [of s3] start_failed_returns [OF assms(1)] p i st
    by (subst start_actors_from.simps) simp
qed

lemma ipc_stop_all_returns:
  assumes "keeps_links U" "actor_list s xs"
  shows "\<exists>t. ipc_stop_all P U s = Some t"
  using stop_all_fold [OF assms(1), of "s\<lparr> lifecycle_state := IPC_LIFECYCLE_STOPPING \<rparr>" "ipc_actor_list s" xs P]
    assms(2)
  by (simp add: ipc_stop_all_def Let_def actor_list_def)

section \<open>Properties\<close>

text \<open>
  C5: starting runs the start hooks in registration order and undoes a failed start completely. From
  a stopped framework with the actors \<open>xs\<close>, for every port: the call returns; the start hooks that
  run are those of a prefix of \<open>xs\<close>, in order; on success the prefix is all of \<open>xs\<close> and the framework
  runs; on a failure the stop hooks of exactly that prefix run, in the same order, and the framework
  is left stopping.
\<close>

theorem ipc_start_all_undoes_failure:
  assumes "actor_list s xs" "lifecycle_state s = IPC_LIFECYCLE_STOPPED"
  shows "\<exists>rc k t. ipc_start_all_actors P recording s = Some (rc, t)
    \<and> k \<le> length xs \<and> (rc = 0 \<longrightarrow> k = length xs)
    \<and> app_st t = app_st s @ start_calls s (take k xs)
        @ (if rc = 0 then [] else stop_calls s (take k xs))
    \<and> lifecycle_state t = (if rc = 0 then IPC_LIFECYCLE_RUNNING else IPC_LIFECYCLE_STOPPING)
    \<and> actor_list t xs"
proof -
  let ?s1 = "s\<lparr> lifecycle_state := IPC_LIFECYCLE_RUNNING \<rparr>"
  have al: "actor_list ?s1 ([] @ xs)" using assms(1) by (simp add: actor_list_def)
  have ls: "list_seg (next_of ?s1) (ipc_actor_list s) xs" using assms(1) by (simp add: actor_list_def)
  have calls: "start_calls ?s1 = start_calls s" "stop_calls ?s1 = stop_calls s"
    by (simp_all add: start_calls_def stop_calls_def fun_eq_iff)
  obtain rc k t where t: "start_actors_from P recording None (ipc_actor_list s) ?s1
      = Some (rc, if rc = 0 then t else t\<lparr> lifecycle_state := IPC_LIFECYCLE_STOPPING \<rparr>)"
    "k \<le> length xs" "rc = 0 \<longrightarrow> k = length xs"
    "records ?s1 t (start_calls s (take k xs) @ (if rc = 0 then [] else stop_calls s (take k xs)))"
    using start_loop_records [OF al ls, of P, unfolded calls append_Nil] by auto
  note f = records_fields [OF t(4)]
  show ?thesis
    using t(1,2,3) assms f
    by (intro exI [of _ rc] exI [of _ k]
        exI [of _ "if rc = 0 then t else t\<lparr> lifecycle_state := IPC_LIFECYCLE_STOPPING \<rparr>"])
       (simp add: ipc_start_all_actors_def actor_list_def)
qed

text \<open>The example program, stopped again.\<close>

definition ex_stopped :: "('p, user_call list) sys \<Rightarrow> ('p, user_call list) sys" where
  "ex_stopped s = s\<lparr> lifecycle_state := IPC_LIFECYCLE_STOPPED \<rparr>"

lemma ex_stopped_sel:
  "lifecycle_state (ex_stopped s) = IPC_LIFECYCLE_STOPPED"
  "app_st (ex_stopped (ex_running p u)) = u"
  by (simp_all add: ex_stopped_def ex_running_def ex_initial_def ipc_initial_def)

lemma ex_running_list: "actor_list (ex_running p u) [1, 2]"
  using ex_running_inv [of p u] by (simp add: registration_inv_def)

lemma ex_stopped_list: "actor_list (ex_stopped (ex_running p u)) [1, 2]"
  using ex_running_list [of p u] by (simp add: actor_list_def ex_stopped_def)

theorem ipc_start_all_undoes_failure_witness:
  "\<exists>rc k t. ipc_start_all_actors ex_port recording (ex_stopped (ex_running () [])) = Some (rc, t)
    \<and> k \<le> length [1, 2 :: aptr]
    \<and> app_st t = [] @ start_calls (ex_stopped (ex_running () [])) (take k [1, 2])
        @ (if rc = 0 then [] else stop_calls (ex_stopped (ex_running () [])) (take k [1, 2]))"
  using ipc_start_all_undoes_failure [OF ex_stopped_list [of "()" "[]"] ex_stopped_sel(1),
      where P = ex_port, unfolded ex_stopped_sel(2)]
  by blast

text \<open>
  C6: starting and stopping end, whatever the hooks and the port do, as long as the hooks leave the
  links of the actor list alone.
\<close>

theorem ipc_start_stop_terminate:
  assumes "keeps_links U" "actor_list s xs"
  shows "(\<exists>r. ipc_start_all_actors P U s = Some r) \<and> (\<exists>t. ipc_stop_all P U s = Some t)"
proof -
  have al: "actor_list (s\<lparr> lifecycle_state := l \<rparr>) xs" for l using assms(2) by (simp add: actor_list_def)
  have "\<exists>r. ipc_start_all_actors P U s = Some r"
    using start_loop_returns [OF assms(1) al [of IPC_LIFECYCLE_RUNNING], of "ipc_actor_list s" xs P None]
      assms(2)
    by (simp add: ipc_start_all_actors_def Let_def actor_list_def)
  then show ?thesis using ipc_stop_all_returns [OF assms] by (rule conjI)
qed

theorem ipc_start_stop_terminate_witness:
  "(\<exists>r. ipc_start_all_actors ex_port recording (ex_running () []) = Some r)
   \<and> (\<exists>t. ipc_stop_all ex_port recording (ex_running () []) = Some t)"
  by (rule ipc_start_stop_terminate [OF keeps_links_recording ex_running_list])

text \<open>
  C7: stopping calls every stop hook once, in registration order, and is idempotent; only a running
  framework is stopped, and only a stopped one is started (\<^verbatim>\<open>-EALREADY\<close> while running, \<^verbatim>\<open>-EBUSY\<close>
  while stopping), with no effect otherwise.
\<close>

theorem ipc_stop_all_once:
  assumes "actor_list s xs"
  shows "\<exists>t. ipc_stop_all P recording s = Some t
    \<and> app_st t = app_st s @ (if lifecycle_state s = IPC_LIFECYCLE_RUNNING then stop_calls s xs else [])
    \<and> lifecycle_state t \<noteq> IPC_LIFECYCLE_RUNNING
    \<and> ipc_stop_all P recording t = Some t
    \<and> (lifecycle_state s \<noteq> IPC_LIFECYCLE_STOPPED \<longrightarrow>
         ipc_start_all_actors P recording s
           = Some (if lifecycle_state s = IPC_LIFECYCLE_RUNNING then - EALREADY else - EBUSY, s))"
proof (cases "lifecycle_state s = IPC_LIFECYCLE_RUNNING")
  case True
  let ?s1 = "s\<lparr> lifecycle_state := IPC_LIFECYCLE_STOPPING \<rparr>"
  have eq: "ipc_stop_all P recording s = Some (fold (stop_one P recording) xs ?s1)"
    using stop_all_fold [OF keeps_links_recording, of ?s1 "ipc_actor_list s" xs P] assms True
    by (simp add: ipc_stop_all_def Let_def actor_list_def)
  note f = records_fields [OF records_stops [of ?s1 P xs]]
  have "stop_calls ?s1 xs = stop_calls s xs" by (simp add: stop_calls_def)
  with f eq True show ?thesis by (simp add: ipc_stop_all_def ipc_start_all_actors_def)
next
  case False
  then show ?thesis
    by (cases "lifecycle_state s") (simp_all add: ipc_stop_all_def ipc_start_all_actors_def)
qed

theorem ipc_stop_all_once_witness:
  "\<exists>t. ipc_stop_all ex_port recording (ex_running () []) = Some t
    \<and> app_st t = [Call_stop_hook 92 1] \<and> ipc_stop_all ex_port recording t = Some t"
  using ipc_stop_all_once [OF ex_running_list [of "()" "[]"], where P = ex_port]
  by (auto simp: ex_defs stop_calls_def hook_calls_def)

text \<open>
  The framework only becomes startable again through a completed run. \<^verbatim>\<open>ipc_run_all\<close> returns to
  stopped exactly when the port's run returned 0 after a stop; a run that blocks or fails, or a run
  without a stop, leaves the life cycle as it was.
\<close>

theorem ipc_run_all_closes_cycle:
  assumes "actor_list s xs"
  shows "ipc_run_all P s
    = (case port_run_all P xs (port_st s) of
         None \<Rightarrow> None
       | Some (p, rc) \<Rightarrow>
           Some (rc, s\<lparr> port_st := p,
                        lifecycle_state :=
                          (if rc = 0 \<and> lifecycle_state s = IPC_LIFECYCLE_STOPPING
                           then IPC_LIFECYCLE_STOPPED else lifecycle_state s) \<rparr>))"
  using walk_actors_list [of s "ipc_actor_list s" xs] assms
  by (simp add: ipc_run_all_def actor_list_def Let_def split: option.split)

theorem ipc_run_all_closes_cycle_witness:
  "\<exists>t. ipc_run_all ex_port (ex_running () ()\<lparr> lifecycle_state := IPC_LIFECYCLE_STOPPING \<rparr>) = Some (0, t)
    \<and> lifecycle_state t = IPC_LIFECYCLE_STOPPED"
proof -
  have "actor_list (ex_running () ()\<lparr> lifecycle_state := IPC_LIFECYCLE_STOPPING \<rparr>) [1, 2]"
    using ex_running_list [of "()" "()"] by (simp add: actor_list_def)
  from ipc_run_all_closes_cycle [OF this, of ex_port] show ?thesis by (simp add: ex_port_def)
qed


end
