(* ===== verification/Posix_Stop.thy ===== *)
theory Posix_Stop
  imports Posix_Thread Posix_Lifetime Ipc_Lifecycle
begin

text \<open>
  Stopping the POSIX port and restarting an actor in it: the two calls share the flag \<^verbatim>\<open>running\<close>, and a
  restart that comes after the stop takes the stop back.
\<close>

text \<open>What a stop leaves alone: the state of every thread, and which threads were joined.\<close>

definition thread_kept :: "aptr \<Rightarrow> posix \<Rightarrow> posix \<Rightarrow> bool" where
  "thread_kept a s t \<longleftrightarrow>
     p_thread (port_of t a) = p_thread (port_of s a) \<and> p_joined (port_of t a) = p_joined (port_of s a)
     \<and> p_running (port_of t a) = p_running (port_of s a)"

lemma thread_kept_refl: "thread_kept a s s"
  by (simp add: thread_kept_def)

lemma thread_kept_trans: "thread_kept a s t \<Longrightarrow> thread_kept a t u \<Longrightarrow> thread_kept a s u"
  by (simp add: thread_kept_def)

lemma ring_send_thread:
  "ring_send m p = Some (q, rc) \<Longrightarrow>
     p_thread q = p_thread p \<and> p_joined q = p_joined p \<and> p_running q = p_running p"
  by (auto simp: ring_send_def split: if_splits option.splits prod.splits)

lemma posix_send_thread: "thread_kept a s (fst (posix_send b m s))"
proof (cases "ring_send m (port_of s b)")
  case (Some r)
  obtain q rc where r: "r = (q, rc)" by (rule prod.exhaust)
  with Some ring_send_thread show ?thesis by (simp add: posix_send_def thread_kept_def)
qed (simp add: posix_send_def thread_kept_def)

lemma delay_posts_thread: "thread_kept a s (delay_posts b s)"
proof (cases "p_delay_thread (port_of s b)")
  case (D_posting m)
  have "thread_kept c s (case p_owner (port_of s b) of None \<Rightarrow> s\<lparr> fault := True \<rparr>
      | Some d \<Rightarrow> fst (posix_send d m s))" for c
    using posix_send_thread by (auto simp: thread_kept_def split: option.split)
  from this [of a] this [of b] D_posting show ?thesis
    by (simp add: delay_posts_def thread_kept_def Let_def)
qed (simp_all add: delay_posts_def thread_kept_refl)

lemma cancel_thread: "thread_kept a s (cancel_delayed_send b s)"
proof -
  let ?s1 = "set_port b ((port_of s b)\<lparr> p_delay_cancel := True \<rparr>) s"
  let ?s2 = "if p_delay_thread (port_of ?s1 b) = D_waiting then set_port b (delay_wakes (port_of ?s1 b)) ?s1 else ?s1"
  have 1: "thread_kept c s ?s1" for c by (simp add: thread_kept_def)
  have 2: "thread_kept c ?s1 ?s2" for c by (simp add: thread_kept_def delay_wakes_def Let_def)
  have 3: "thread_kept c s (join_delay_thread b ?s1)" for c
    unfolding join_delay_thread_def Let_def
    by (rule thread_kept_trans [OF thread_kept_trans [OF 1 2] delay_posts_thread])
  show ?thesis
    using 3 [of a] 3 [of b] by (auto simp: cancel_delayed_send_def thread_kept_def Let_def)
qed

lemma posix_stop_thread:
  "p_thread (port_of (posix_stop_actor b s) a) = p_thread (port_of s a)"
  "p_joined (port_of (posix_stop_actor b s) a) = p_joined (port_of s a)"
  "p_running (port_of (posix_stop_actor b s) a) = (a \<noteq> b \<and> p_running (port_of s a))"
  using cancel_thread [of a s b] cancel_thread [of b s b]
  by (auto simp: posix_stop_actor_def stop_section_def thread_kept_def Let_def)

lemma posix_restart_thread:
  "p_thread (port_of (fst (posix_restart_actor a s)) a) = p_thread (port_of s a)"
  "p_joined (port_of (fst (posix_restart_actor a s)) a) = p_joined (port_of s a)"
  "p_running (port_of (fst (posix_restart_actor a s)) a)"
  "p_count (port_of (fst (posix_restart_actor a s)) a) = 0"
  using cancel_thread [of a s a]
  by (simp_all add: posix_restart_actor_def restart_section_def thread_kept_def Let_def)

lemma stops_thread:
  fixes s :: "(posix, user_call list) sys"
  shows "p_thread (port_of (port_st (fold (stop_one posix_port recording) xs s)) a) = p_thread (port_of (port_st s) a)
    \<and> p_joined (port_of (port_st (fold (stop_one posix_port recording) xs s)) a) = p_joined (port_of (port_st s) a)
    \<and> p_running (port_of (port_st (fold (stop_one posix_port recording) xs s)) a)
        = (a \<notin> set xs \<and> p_running (port_of (port_st s) a))"
proof (induction xs arbitrary: s)
  case (Cons b xs)
  have "port_st (stop_one posix_port recording b s) = posix_stop_actor b (port_st s)"
    by (simp add: stop_one_def ipc_port_stop_actor_def call_hook_recording)
  with Cons.IH [of "stop_one posix_port recording b s"] show ?case by (simp add: posix_stop_thread conj_left_commute)
qed simp

text \<open>A restarted actor whose handler returns waits for messages again, and goes on waiting.\<close>

lemma restarted_thread_waits:
  assumes "p_thread p = T_handling m" "p_count p = 0" "p_running p"
  shows "advance_n 2 p = Some ([received m], p\<lparr> p_thread := T_blocked \<rparr>)"
    "thread_advance (p\<lparr> p_thread := T_blocked \<rparr>) = Some (p\<lparr> p_thread := T_blocked \<rparr>)"
  using assms by (simp_all add: numeral_2_eq_2 thread_advance_def thread_loop_simps in_hand_def)

text \<open>
  C21: A restart after the stop takes the stop back. While the handler of an actor supervised by restart
  runs, the program stops; then the handler reports a failure. The stop had cleared the actor's \<^verbatim>\<open>running\<close>
  flag, but the restart sets it again: when the handler returns, the thread waits for messages instead of
  exiting and stays there, a second \<^verbatim>\<open>ipc_stop_all\<close> does nothing because the framework is already stopping,
  and the join of \<^verbatim>\<open>ipc_run_all\<close> does not return.
\<close>

theorem posix_restart_undoes_stop:
  fixes s :: "(posix, user_call list) sys"
  assumes "actor_list s xs" "a \<in> set xs" "lifecycle_state s = IPC_LIFECYCLE_RUNNING"
    and "a_supervision (actors s a) = IPC_SUPERVISE_RESTART"
    and "p_thread (port_of (port_st s) a) = T_handling m" "\<not> p_joined (port_of (port_st s) a)"
    and "ipc_stop_all posix_port recording s = Some t"
    and "ipc_actor_fail posix_port recording (Some a) reason t = (rc, u)"
  shows "\<not> p_running (port_of (port_st t) a) \<and> rc = 0
    \<and> ipc_stop_all posix_port recording u = Some u
    \<and> (\<exists>q. advance_n 2 (port_of (port_st u) a) = Some ([received m], q) \<and> p_thread q = T_blocked
         \<and> thread_advance q = Some q
         \<and> ipc_run_all posix_port (u\<lparr> port_st := set_port a q (port_st u) \<rparr>) = None)"
proof -
  let ?s1 = "s\<lparr> lifecycle_state := IPC_LIFECYCLE_STOPPING \<rparr>"
  have seg: "list_seg (next_of ?s1) (ipc_actor_list ?s1) xs" "distinct xs"
    using assms(1) by (simp_all add: actor_list_def)
  have t: "t = fold (stop_one posix_port recording) xs ?s1"
    using assms(3,7) stop_all_fold [OF keeps_links_recording seg(1), of posix_port]
    by (simp add: ipc_stop_all_def)
  have rec: "records ?s1 t (stop_calls ?s1 xs)" unfolding t by (rule records_stops)
  have acts: "actors t = actors s" "ipc_actor_list t = ipc_actor_list s"
    "lifecycle_state t = IPC_LIFECYCLE_STOPPING"
    using records_fields [OF rec] by simp_all
  have th: "p_thread (port_of (port_st t) a) = T_handling m" "\<not> p_joined (port_of (port_st t) a)"
    "\<not> p_running (port_of (port_st t) a)"
    using stops_thread [of xs ?s1 a] assms(2,5,6) unfolding t by simp_all
  have u: "port_st u = fst (posix_restart_actor a (port_st t))" "actors u = actors s"
    "ipc_actor_list u = ipc_actor_list s" "lifecycle_state u = IPC_LIFECYCLE_STOPPING" "rc = 0"
    using assms(4,8) acts
    by (auto simp: ipc_actor_fail_def call_hook_recording ipc_port_restart_actor_def on_port_def
        posix_restart_actor_def Let_def)
  let ?p = "port_of (port_st u) a"
  let ?q = "?p\<lparr> p_thread := T_blocked \<rparr>"
  have p: "p_thread ?p = T_handling m" "p_count ?p = 0" "p_running ?p" "\<not> p_joined ?p"
    using posix_restart_thread [of a "port_st t"] th by (simp_all add: u)
  have "walk_actors u (ipc_actor_list u) = Some xs"
    using walk_actors_list [of u "ipc_actor_list s" xs] seg(1) by (simp add: u)
  then have walk: "walk_actors (u\<lparr> port_st := x \<rparr>) (ipc_actor_list u) = Some xs" for x
    using walk_actors_list [of "u\<lparr> port_st := x \<rparr>" "ipc_actor_list s" xs] seg(1) by (simp add: u)
  have "\<not> ended (set_port a ?q (port_st u)) a" using p(4) by simp
  then have "posix_run_all xs (set_port a ?q (port_st u)) = None"
    using posix_run_all_result [OF seg(2), of "set_port a ?q (port_st u)"] assms(2) by (auto split: if_splits)
  then have "ipc_run_all posix_port (u\<lparr> port_st := set_port a ?q (port_st u) \<rparr>) = None"
    by (simp add: ipc_run_all_def walk)
  moreover have "ipc_stop_all posix_port recording u = Some u" by (simp add: ipc_stop_all_def u(4))
  ultimately show ?thesis
    using th(3) u(5) restarted_thread_waits [OF p(1-3)] by (intro conjI exI [of _ ?q]) simp_all
qed

definition ex_busy :: "(posix, user_call list) sys" where
  "ex_busy = (ex_running (ex_posix\<lparr> port_of := (\<lambda>a. (port_of ex_posix a)\<lparr> p_thread := T_handling ex_message \<rparr>) \<rparr>) [])
     \<lparr> actors := (\<lambda>a. (actors (ex_running () [] :: (unit, user_call list) sys) a)\<lparr> a_supervision := IPC_SUPERVISE_RESTART \<rparr>) \<rparr>"

theorem posix_restart_undoes_stop_witness:
  "\<exists>t q. ipc_stop_all posix_port recording ex_busy = Some t
    \<and> ipc_run_all posix_port ((snd (ipc_actor_fail posix_port recording (Some 1) (- EIO) t))
        \<lparr> port_st := set_port 1 q (port_st (snd (ipc_actor_fail posix_port recording (Some 1) (- EIO) t))) \<rparr>) = None"
proof -
  have list: "actor_list ex_busy [1, 2]"
    using ex_running_list [of ex_posix "[]"] by (simp add: actor_list_def ex_busy_def ex_running_def ex_initial_def)
  have life: "lifecycle_state ex_busy = IPC_LIFECYCLE_RUNNING"
    by (simp add: ex_busy_def ex_running_def)
  have fields: "a_supervision (actors ex_busy 1) = IPC_SUPERVISE_RESTART"
    "p_thread (port_of (port_st ex_busy) 1) = T_handling ex_message"
    "\<not> p_joined (port_of (port_st ex_busy) 1)"
    by (simp_all add: ex_busy_def ex_running_def ex_initial_def ipc_initial_def ex_posix_def ex_ring_state_def
        zero_port_state_def)
  obtain t where t: "ipc_stop_all posix_port recording ex_busy = Some t"
    using ipc_stop_all_returns [OF keeps_links_recording list, of posix_port] by blast
  have "1 \<in> set [1, 2 :: aptr]" by simp
  from posix_restart_undoes_stop [OF list this life fields t, of "- EIO", OF surjective_pairing] t
  show ?thesis by blast
qed

end
