(* ===== verification/Test_Port.thy ===== *)
theory Test_Port
  imports Ring_Buffer
begin

text \<open>
  The deterministic test port, \<^verbatim>\<open>src/port/test/ipc_test_port.c\<close>: a table of at most 32 actor states,
  a ring of slots per actor, no threads. The table is the list of its used entries, in the order
  they were taken; a pointer to an entry is its index. \<^verbatim>\<open>calloc\<close> takes its outcome from
  \<open>calloc_ok\<close>; a write through a \<^verbatim>\<open>NULL\<close> queue sets \<open>test_fault\<close>.
\<close>

section \<open>State\<close>

record ipc_test_actor_state_t =
  ts_actor :: aptr
  ts_queue :: "slot list option"
  ts_receive_slot :: "slot option"
  ts_slot_size :: u64
  ts_capacity :: nat
  ts_head :: nat
  ts_tail :: nat
  ts_count :: nat
  ts_started :: bool

record test_port =
  actor_states :: "ipc_test_actor_state_t list"
  calloc_ok :: "nat \<Rightarrow> bool"
  callocs :: nat
  test_fault :: bool

definition IPC_TEST_MAX_ACTORS :: nat where
  "IPC_TEST_MAX_ACTORS = 32"

definition new_state :: "aptr \<Rightarrow> ipc_test_actor_state_t" where
  "new_state a =
     \<lparr> ts_actor = a, ts_queue = None, ts_receive_slot = None, ts_slot_size = 0, ts_capacity = 0,
       ts_head = 0, ts_tail = 0, ts_count = 0, ts_started = False \<rparr>"

definition test_initial :: "(nat \<Rightarrow> bool) \<Rightarrow> test_port" where
  "test_initial ok = \<lparr> actor_states = [], calloc_ok = ok, callocs = 0, test_fault = False \<rparr>"

definition find_state :: "aptr \<Rightarrow> test_port \<Rightarrow> nat option" where
  "find_state a p = first_index (\<lambda>st. ts_actor st = a) (actor_states p)"

definition state_for :: "aptr \<Rightarrow> bool \<Rightarrow> test_port \<Rightarrow> nat option \<times> test_port" where
  "state_for a create p =
     (case find_state a p of
        Some i \<Rightarrow> (Some i, p)
      | None \<Rightarrow>
          if \<not> create \<or> length (actor_states p) = IPC_TEST_MAX_ACTORS then (None, p)
          else (Some (length (actor_states p)),
                p\<lparr> actor_states := actor_states p @ [new_state a] \<rparr>))"

definition release_state :: "ipc_test_actor_state_t \<Rightarrow> ipc_test_actor_state_t" where
  "release_state st =
     st\<lparr> ts_queue := None, ts_receive_slot := None, ts_slot_size := 0, ts_capacity := 0,
         ts_head := 0, ts_tail := 0, ts_count := 0, ts_started := False \<rparr>"

abbreviation set_state :: "nat \<Rightarrow> ipc_test_actor_state_t \<Rightarrow> test_port \<Rightarrow> test_port" where
  "set_state i st p \<equiv> p\<lparr> actor_states := (actor_states p)[i := st] \<rparr>"

section \<open>The port functions\<close>

text \<open>\<^verbatim>\<open>enqueue\<close> on the actor's entry; \<open>None\<close> stands for a write through a \<^verbatim>\<open>NULL\<close> queue.\<close>

definition enqueue_state ::
    "nat \<Rightarrow> ipc_msg \<Rightarrow> ipc_test_actor_state_t \<Rightarrow> (ipc_test_actor_state_t \<times> int) option" where
  "enqueue_state max_payload msg st =
     (if \<not> ts_started st then Some (st, - EPERM)
      else if m_size msg > max_payload then Some (st, - EMSGSIZE)
      else if ts_count st = ts_capacity st then Some (st, - ENOMEM)
      else
        (case ts_queue st of
           None \<Rightarrow> None
         | Some slots \<Rightarrow>
             Some (st\<lparr> ts_queue := Some (slots[ts_tail st := write_slot msg (slots ! ts_tail st)]),
                       ts_tail := (ts_tail st + 1) mod ts_capacity st,
                       ts_count := ts_count st + 1 \<rparr>, 0)))"

definition enqueue :: "aptr \<Rightarrow> ipc_actor \<Rightarrow> ipc_msg \<Rightarrow> test_port \<Rightarrow> test_port \<times> int" where
  "enqueue a x msg p =
     (case fst (state_for a False p) of
        None \<Rightarrow> (p, - EPERM)
      | Some i \<Rightarrow>
          (case enqueue_state (max_payload_size (a_cfg x)) msg (actor_states p ! i) of
             None \<Rightarrow> (p\<lparr> test_fault := True \<rparr>, 0)
           | Some (st, rc) \<Rightarrow> (set_state i st p, rc)))"

definition test_actor_init :: "aptr \<Rightarrow> ipc_actor \<Rightarrow> test_port \<Rightarrow> test_port \<times> int" where
  "test_actor_init a x p =
     (if queue_depth (a_cfg x) = 0 then (p, - EINVAL)
      else
        (case state_for a True p of
           (None, p1) \<Rightarrow> (p1, - ENOMEM)
         | (Some i, p1) \<Rightarrow>
             (let size = IPC_MSG_SLOT_SIZE (of_nat (max_payload_size (a_cfg x)));
                  cap = queue_depth (a_cfg x);
                  st = (release_state (actor_states p1 ! i))
                         \<lparr> ts_slot_size := size, ts_capacity := cap,
                           ts_queue := Some (replicate cap (zero_slot (payload_area size))),
                           ts_receive_slot := Some (zero_slot (payload_area size)) \<rparr>;
                  p2 = p1\<lparr> callocs := callocs p1 + 2 \<rparr>
              in if \<not> calloc_ok p1 (callocs p1) \<or> \<not> calloc_ok p1 (callocs p1 + 1)
                 then (set_state i (release_state st) p2, - ENOMEM)
                 else (set_state i (st\<lparr> ts_started := True \<rparr>) p2, 0))))"

definition test_start :: "aptr \<Rightarrow> ipc_actor \<Rightarrow> test_port \<Rightarrow> test_port \<times> int" where
  "test_start a x p = (p, 0)"

definition test_stop_actor :: "aptr \<Rightarrow> test_port \<Rightarrow> test_port" where
  "test_stop_actor a p =
     (case fst (state_for a False p) of
        None \<Rightarrow> p
      | Some i \<Rightarrow> set_state i ((actor_states p ! i)\<lparr> ts_started := False, ts_count := 0 \<rparr>) p)"

definition test_restart_actor :: "aptr \<Rightarrow> test_port \<Rightarrow> test_port \<times> int" where
  "test_restart_actor a p =
     (case fst (state_for a False p) of
        None \<Rightarrow> (p, - EPERM)
      | Some i \<Rightarrow>
          if \<not> ts_started (actor_states p ! i) then (p, - EPERM)
          else (set_state i ((actor_states p ! i)\<lparr> ts_head := 0, ts_tail := 0, ts_count := 0 \<rparr>) p, 0))"

definition test_send_after ::
    "aptr \<Rightarrow> ipc_actor \<Rightarrow> ipc_msg \<Rightarrow> u32 \<Rightarrow> test_port \<Rightarrow> test_port \<times> int" where
  "test_send_after a x msg ms p = (p, - ENOSYS)"

definition test_schedule_ask_timeout ::
    "aptr \<Rightarrow> ipc_actor \<Rightarrow> u32 \<Rightarrow> u32 \<Rightarrow> test_port \<Rightarrow> test_port \<times> int" where
  "test_schedule_ask_timeout a x ask_id ms p = (p, - ENOSYS)"

definition test_run_all :: "test_port \<Rightarrow> test_port \<times> int" where
  "test_run_all p = (p\<lparr> actor_states := map release_state (actor_states p) \<rparr>, 0)"

definition test_now_ms :: "test_port \<Rightarrow> u32" where
  "test_now_ms p = 0"

definition the_test_port :: "test_port port_ops" where
  "the_test_port =
     \<lparr> port_actor_init = test_actor_init, port_start = test_start,
       port_stop_actor = (\<lambda>a x. test_stop_actor a),
       port_restart_actor = (\<lambda>a x. test_restart_actor a),
       port_send = enqueue, port_send_isr = enqueue,
       port_send_after = test_send_after, port_schedule_ask_timeout = test_schedule_ask_timeout,
       port_run_all = (\<lambda>xs p. Some (test_run_all p)), port_now_ms = test_now_ms \<rparr>"

lemma the_test_port_simps [simp]:
  "port_actor_init the_test_port = test_actor_init" "port_start the_test_port = test_start"
  "port_stop_actor the_test_port a x = test_stop_actor a"
  "port_restart_actor the_test_port a x = test_restart_actor a"
  "port_send the_test_port = enqueue" "port_send_isr the_test_port = enqueue"
  "port_send_after the_test_port = test_send_after"
  "port_schedule_ask_timeout the_test_port = test_schedule_ask_timeout"
  "port_run_all the_test_port xs p = Some (test_run_all p)" "port_now_ms the_test_port = test_now_ms"
  by (simp_all add: the_test_port_def)

section \<open>The receiving side\<close>

text \<open>The body of the loop of \<^verbatim>\<open>ipc_test_run_until_idle\<close> up to the handler call.\<close>

definition dequeue_state ::
    "ipc_test_actor_state_t \<Rightarrow> (ipc_msg \<times> ipc_test_actor_state_t) option" where
  "dequeue_state st =
     (if \<not> ts_started st \<or> ts_count st = 0 then None
      else
        (case ts_queue st of
           None \<Rightarrow> None
         | Some slots \<Rightarrow>
             (let sl = slots ! ts_head st
              in Some (load_msg sl,
                   st\<lparr> ts_receive_slot := Some sl, ts_head := (ts_head st + 1) mod ts_capacity st,
                       ts_count := ts_count st - 1 \<rparr>))))"

definition test_take :: "aptr \<Rightarrow> test_port \<Rightarrow> (ipc_msg \<times> test_port) option" where
  "test_take a p =
     (case fst (state_for a False p) of
        None \<Rightarrow> None
      | Some i \<Rightarrow>
          (case dequeue_state (actor_states p ! i) of
             None \<Rightarrow> None
           | Some (msg, st) \<Rightarrow> Some (msg, set_state i st p)))"

section \<open>Looking a state up\<close>

definition lookup :: "test_port \<Rightarrow> aptr \<Rightarrow> ipc_test_actor_state_t option" where
  "lookup p a = find (\<lambda>st. ts_actor st = a) (actor_states p)"

lemma state_for_False [simp]: "state_for a False p = (find_state a p, p)"
  by (simp add: state_for_def split: option.split)

lemma lookup_find_state: "lookup p a = map_option (\<lambda>i. actor_states p ! i) (find_state a p)"
  by (simp add: lookup_def find_state_def find_conv_first_index)

lemma find_stateD:
  "find_state a p = Some i \<Longrightarrow> i < length (actor_states p) \<and> ts_actor (actor_states p ! i) = a"
  unfolding find_state_def by (drule first_index_SomeD) simp

lemma first_index_update_same:
  "i < length xs \<Longrightarrow> P y = P (xs ! i) \<Longrightarrow> first_index P (xs[i := y]) = first_index P xs"
  by (induction xs arbitrary: i) (auto split: nat.split)

lemma find_state_set_state:
  assumes "find_state a p = Some i" "ts_actor st = a"
  shows "find_state b (set_state i st p) = find_state b p"
  using find_stateD [OF assms(1)] assms(2)
  by (simp add: find_state_def first_index_update_same)

lemma lookup_set_state:
  assumes "find_state a p = Some i" "ts_actor st = a"
  shows "lookup (set_state i st p) b = (if b = a then Some st else lookup p b)"
proof -
  note i = find_stateD [OF assms(1)]
  show ?thesis
  proof (cases "b = a")
    case True
    with assms i show ?thesis by (simp add: lookup_find_state find_state_set_state)
  next
    case False
    then have "find_state b p \<noteq> Some i" using find_stateD [of b p i] i by auto
    then show ?thesis
      using False
      by (cases "find_state b p") (auto simp: lookup_find_state find_state_set_state [OF assms])
  qed
qed

lemma lookup_fault [simp]:
  "lookup (p\<lparr> test_fault := f \<rparr>) a = lookup p a" "find_state a (p\<lparr> test_fault := f \<rparr>) = find_state a p"
  by (simp_all add: lookup_def find_state_def)

section \<open>The mailbox contract\<close>

definition state_inv :: "ipc_test_actor_state_t \<Rightarrow> bool" where
  "state_inv st \<longleftrightarrow> ts_started st \<and>
     (case ts_queue st of
        None \<Rightarrow> False
      | Some slots \<Rightarrow>
          ring_ok (payload_area (ts_slot_size st)) slots (ts_capacity st) (ts_head st) (ts_tail st)
            (ts_count st))"

definition state_mail :: "ipc_test_actor_state_t \<Rightarrow> ipc_msg list" where
  "state_mail st =
     (case ts_queue st of None \<Rightarrow> [] | Some slots \<Rightarrow> ring_contents slots (ts_head st) (ts_count st))"

lemma state_invE:
  assumes "state_inv st"
  obtains slots where "ts_queue st = Some slots" "ts_started st"
    "ring_ok (payload_area (ts_slot_size st)) slots (ts_capacity st) (ts_head st) (ts_tail st) (ts_count st)"
  using assms by (auto simp: state_inv_def split: option.splits)

lemma length_state_mail: "state_inv st \<Longrightarrow> length (state_mail st) = ts_count st \<and> ts_count st \<le> ts_capacity st"
  by (erule state_invE) (simp add: state_mail_def ring_ok_def)

lemma enqueue_state_room:
  assumes "state_inv st" "m_size m \<le> n" "n \<le> payload_area (ts_slot_size st)" "ts_count st < ts_capacity st"
  obtains st2 where "enqueue_state n m st = Some (st2, 0)" "state_inv st2"
    "msg_readable m \<Longrightarrow> state_mail st2 = state_mail st @ [received m]"
    "ts_actor st2 = ts_actor st" "ts_capacity st2 = ts_capacity st" "ts_slot_size st2 = ts_slot_size st"
proof -
  from assms(1) obtain slots where slots: "ts_queue st = Some slots" "ts_started st"
    and ok: "ring_ok (payload_area (ts_slot_size st)) slots (ts_capacity st) (ts_head st) (ts_tail st) (ts_count st)"
    by (rule state_invE)
  have size: "m_size m \<le> payload_area (ts_slot_size st)" using assms(2,3) by simp
  note enq = ring_ok_enqueue [OF ok assms(4) size]
  let ?st2 = "st\<lparr> ts_queue := Some (slots[ts_tail st := write_slot m (slots ! ts_tail st)]),
      ts_tail := (ts_tail st + 1) mod ts_capacity st, ts_count := ts_count st + 1 \<rparr>"
  show ?thesis
    by (rule that [of ?st2])
       (use assms(2,4) slots enq in \<open>simp_all add: enqueue_state_def state_inv_def state_mail_def\<close>)
qed

lemma enqueue_state_refused:
  assumes "state_inv st" "\<not> (m_size m \<le> n \<and> ts_count st < ts_capacity st)"
  shows "enqueue_state n m st = Some (st, if m_size m > n then - EMSGSIZE else - ENOMEM)"
  using assms length_state_mail [OF assms(1)] by (auto simp: enqueue_state_def state_inv_def)

lemma enqueue_state_frame:
  "enqueue_state n m st = Some (st2, rc) \<Longrightarrow>
     ts_actor st2 = ts_actor st \<and> ts_capacity st2 = ts_capacity st \<and> ts_slot_size st2 = ts_slot_size st"
  by (auto simp: enqueue_state_def split: if_splits option.splits)

definition test_ready :: "test_port \<Rightarrow> aptr \<Rightarrow> ipc_actor_cfg \<Rightarrow> bool" where
  "test_ready p a c \<longleftrightarrow>
     (case lookup p a of
        None \<Rightarrow> False
      | Some st \<Rightarrow>
          state_inv st \<and> ts_capacity st = queue_depth c
          \<and> ts_slot_size st = IPC_MSG_SLOT_SIZE (of_nat (max_payload_size c))
          \<and> max_payload_size c + 48 \<le> 2 ^ 64)"

definition test_mail :: "test_port \<Rightarrow> aptr \<Rightarrow> ipc_msg list" where
  "test_mail p a = (case lookup p a of None \<Rightarrow> [] | Some st \<Rightarrow> state_mail st)"

text \<open>A send, seen through the lookup.\<close>

lemma lookup_enqueue:
  "lookup (fst (enqueue a x m p)) b =
     (case lookup p a of
        None \<Rightarrow> lookup p b
      | Some st \<Rightarrow>
          (case enqueue_state (max_payload_size (a_cfg x)) m st of
             None \<Rightarrow> lookup p b
           | Some (st2, rc) \<Rightarrow> if b = a then Some st2 else lookup p b))"
  "snd (enqueue a x m p) =
     (case lookup p a of
        None \<Rightarrow> - EPERM
      | Some st \<Rightarrow>
          (case enqueue_state (max_payload_size (a_cfg x)) m st of None \<Rightarrow> 0 | Some (st2, rc) \<Rightarrow> rc))"
proof -
  have "lookup (set_state i st2 p) b = (if b = a then Some st2 else lookup p b)"
    if "find_state a p = Some i" "enqueue_state n m (actor_states p ! i) = Some (st2, rc)" for i n st2 rc
    by (rule lookup_set_state [OF that(1)])
       (use enqueue_state_frame [OF that(2)] find_stateD [OF that(1)] in simp)
  then show "lookup (fst (enqueue a x m p)) b =
     (case lookup p a of
        None \<Rightarrow> lookup p b
      | Some st \<Rightarrow>
          (case enqueue_state (max_payload_size (a_cfg x)) m st of
             None \<Rightarrow> lookup p b
           | Some (st2, rc) \<Rightarrow> if b = a then Some st2 else lookup p b))"
    by (simp add: enqueue_def lookup_find_state split: option.split prod.split)
  show "snd (enqueue a x m p) =
     (case lookup p a of
        None \<Rightarrow> - EPERM
      | Some st \<Rightarrow>
          (case enqueue_state (max_payload_size (a_cfg x)) m st of None \<Rightarrow> 0 | Some (st2, rc) \<Rightarrow> rc))"
    by (simp add: enqueue_def lookup_find_state split: option.split prod.split)
qed

lemma test_readyE:
  assumes "test_ready p a c"
  obtains st where "lookup p a = Some st" "state_inv st" "ts_capacity st = queue_depth c"
    "max_payload_size c \<le> payload_area (ts_slot_size st)" "test_mail p a = state_mail st"
    "length (test_mail p a) = ts_count st"
proof -
  from assms obtain st where st: "lookup p a = Some st" "state_inv st" "ts_capacity st = queue_depth c"
    "ts_slot_size st = IPC_MSG_SLOT_SIZE (of_nat (max_payload_size c))" "max_payload_size c + 48 \<le> 2 ^ 64"
    by (auto simp: test_ready_def split: option.splits)
  show ?thesis
    by (rule that [of st])
       (use st payload_area_slot_size [OF st(5)] length_state_mail [OF st(2)] in
         \<open>simp_all add: test_mail_def\<close>)
qed

lemma test_ready_enqueue:
  assumes "test_ready p a (a_cfg x)" "test_ready p b c"
  shows "test_ready (fst (enqueue a x m p)) b c"
proof -
  from assms(1) obtain st where st: "lookup p a = Some st" "state_inv st"
    "max_payload_size (a_cfg x) \<le> payload_area (ts_slot_size st)"
    by (rule test_readyE)
  obtain st2 rc where enq: "enqueue_state (max_payload_size (a_cfg x)) m st = Some (st2, rc)"
    and inv: "state_inv st2"
  proof (cases "m_size m \<le> max_payload_size (a_cfg x) \<and> ts_count st < ts_capacity st")
    case True
    with enqueue_state_room [OF st(2) _ st(3), of m] that show ?thesis by blast
  next
    case False
    from enqueue_state_refused [OF st(2) False] that st(2) show ?thesis by blast
  qed
  have "lookup (fst (enqueue a x m p)) b = (if b = a then Some st2 else lookup p b)"
    using st(1) enq by (simp add: lookup_enqueue)
  then show ?thesis
    using assms(2) st(1) inv enqueue_state_frame [OF enq]
    by (auto simp: test_ready_def)
qed

text \<open>Initialising and restarting an actor.\<close>

lemma lookup_state_for_True:
  assumes "state_for a True p = (Some i, p1)"
  shows "find_state a p1 = Some i" "i < length (actor_states p1)"
    "b \<noteq> a \<Longrightarrow> lookup p1 b = lookup p b"
proof -
  have "first_index P (xs @ [y]) = Some (length xs)" if "first_index P xs = None" "P y"
    for P :: "ipc_test_actor_state_t \<Rightarrow> bool" and xs y
    using that by (induction xs) (auto split: if_splits)
  then show find: "find_state a p1 = Some i"
    using assms
    by (auto simp: state_for_def find_state_def new_state_def split: option.splits if_splits)
  then show "i < length (actor_states p1)" by (simp add: find_stateD)
  have "find Q (xs @ [y]) = find Q xs" if "\<not> Q y" for Q and xs :: "ipc_test_actor_state_t list" and y
    using that by (induction xs) auto
  then show "b \<noteq> a \<Longrightarrow> lookup p1 b = lookup p b"
    using assms
    by (auto simp: state_for_def lookup_def new_state_def split: option.splits if_splits)
qed

lemma test_init_ready:
  assumes "0 < queue_depth (a_cfg x)" "snd (test_actor_init a x p) = 0"
    "max_payload_size (a_cfg x) + 48 \<le> 2 ^ 64"
  shows "test_ready (fst (test_actor_init a x p)) a (a_cfg x)" "test_mail (fst (test_actor_init a x p)) a = []"
proof -
  obtain r p1 where sf: "state_for a True p = (r, p1)" by (cases "state_for a True p")
  with assms(1,2) obtain i where i: "state_for a True p = (Some i, p1)"
    by (cases r) (auto simp: test_actor_init_def)
  let ?size = "IPC_MSG_SLOT_SIZE (of_nat (max_payload_size (a_cfg x)))"
  let ?st = "(release_state (actor_states p1 ! i))
      \<lparr> ts_slot_size := ?size, ts_capacity := queue_depth (a_cfg x),
        ts_queue := Some (replicate (queue_depth (a_cfg x)) (zero_slot (payload_area ?size))),
        ts_receive_slot := Some (zero_slot (payload_area ?size)), ts_started := True \<rparr>"
  have at: "find_state a p1 = Some i" "ts_actor (actor_states p1 ! i) = a"
    using lookup_state_for_True(1) [OF i] find_stateD by auto
  have "fst (test_actor_init a x p) = set_state i ?st (p1\<lparr> callocs := callocs p1 + 2 \<rparr>)"
    using assms(1,2) i by (simp add: test_actor_init_def Let_def split: if_splits)
  moreover have "find_state a (p1\<lparr> callocs := callocs p1 + 2 \<rparr>) = Some i"
    using at(1) by (simp add: find_state_def)
  ultimately have "lookup (fst (test_actor_init a x p)) a = Some ?st"
    using lookup_set_state [of a "p1\<lparr> callocs := callocs p1 + 2 \<rparr>" i ?st a] at(2)
    by (simp add: release_state_def)
  then show "test_ready (fst (test_actor_init a x p)) a (a_cfg x)"
    "test_mail (fst (test_actor_init a x p)) a = []"
    using assms(1,3)
    by (simp_all add: test_ready_def test_mail_def state_inv_def state_mail_def release_state_def ring_ok_empty)
qed

lemma test_restart_ready:
  assumes "test_ready p a c"
  shows "snd (test_restart_actor a p) = 0 \<and> test_mail (fst (test_restart_actor a p)) a = []
    \<and> test_ready (fst (test_restart_actor a p)) a c"
proof -
  from assms obtain i where i: "find_state a p = Some i"
    by (auto simp: test_ready_def lookup_find_state split: option.splits)
  let ?st = "actor_states p ! i"
  let ?st2 = "?st\<lparr> ts_head := 0, ts_tail := 0, ts_count := 0 \<rparr>"
  have inv: "state_inv ?st" using assms i by (simp add: test_ready_def lookup_find_state)
  then have started: "ts_started ?st" by (simp add: state_inv_def)
  then have run: "test_restart_actor a p = (set_state i ?st2 p, 0)" using i by (simp add: test_restart_actor_def)
  have "lookup (set_state i ?st2 p) a = Some ?st2"
    using lookup_set_state [OF i, of ?st2 a] find_stateD [OF i] by simp
  moreover have "state_inv ?st2" using inv by (auto simp: state_inv_def ring_ok_reset split: option.splits)
  ultimately show ?thesis
    using assms i run by (auto simp: test_ready_def test_mail_def state_mail_def lookup_find_state split: option.split)
qed

interpretation test: initialising_port the_test_port test_ready test_mail "\<lambda>_ _ _. True"
proof (unfold_locales, goal_cases)
  case (1 p a x m)
  from 1(1) obtain st where st: "lookup p a = Some st" "state_inv st" "ts_capacity st = queue_depth (a_cfg x)"
    "max_payload_size (a_cfg x) \<le> payload_area (ts_slot_size st)" "test_mail p a = state_mail st"
    "length (test_mail p a) = ts_count st"
    by (rule test_readyE)
  have "ts_count st < ts_capacity st" using 1(4) st(3,6) by simp
  then obtain st2 where "enqueue_state (max_payload_size (a_cfg x)) m st = Some (st2, 0)"
    "state_mail st2 = state_mail st @ [received m]"
    using enqueue_state_room [OF st(2) 1(3) st(4)] 1(2) by blast
  with st show ?case by (simp add: lookup_enqueue test_mail_def)
next
  case (2 p a x m)
  from 2(1) obtain st where st: "lookup p a = Some st" "state_inv st" "ts_capacity st = queue_depth (a_cfg x)"
    "test_mail p a = state_mail st" "length (test_mail p a) = ts_count st"
    by (rule test_readyE)
  have "\<not> (m_size m \<le> max_payload_size (a_cfg x) \<and> ts_count st < ts_capacity st)" using 2(3) st(3,5) by simp
  from enqueue_state_refused [OF st(2) this] 2(2) st show ?case by (simp add: lookup_enqueue test_mail_def)
next
  case (3 b a x m p)
  then show ?case by (simp add: test_mail_def lookup_enqueue split: option.split prod.split)
next
  case (4 p a x b c m)
  then show ?case by (simp add: test_ready_enqueue)
next
  case 5
  then show ?case by (simp add: the_test_port_def)
next
  case (6 p a c)
  then obtain st where "state_inv st" "ts_capacity st = queue_depth c" "length (test_mail p a) = ts_count st"
    by (rule test_readyE)
  then show ?case using length_state_mail [of st] by simp
next
  case (7 a x n ms p)
  then show ?case by (simp add: test_schedule_ask_timeout_def)
next
  case (8 p b c a x n ms)
  then show ?case by (simp add: test_schedule_ask_timeout_def)
next
  case (9 p a x)
  from test_restart_ready [OF 9] show ?case by simp
next
  case (10 p a x)
  then show ?case using test_init_ready [of x a p] by simp
qed

end
