(* ===== verification/Test_Run.thy ===== *)
theory Test_Run
  imports Test_Port Ipc_Lifecycle
begin

text \<open>
  Running actors on the test port: \<^verbatim>\<open>ipc_test_start\<close>, \<^verbatim>\<open>ipc_test_run_until_idle\<close> and \<^verbatim>\<open>ipc_test_stop\<close>.

  \<open>test_round\<close> is one walk over the actor list, following the links as they are when they are read;
  \<open>ipc_test_run_until_idle\<close> repeats it until a walk takes no message. Handlers may post messages, so
  neither has to end: both are partial functions, \<open>None\<close> being a run that does not return.
\<close>

section \<open>The scheduler\<close>

definition take_next :: "aptr \<Rightarrow> (test_port, 'u) sys \<Rightarrow> (ipc_msg \<times> (test_port, 'u) sys) option" where
  "take_next a s =
     (case test_take a (port_st s) of
        None \<Rightarrow> None
      | Some (msg, p) \<Rightarrow> Some (msg, s\<lparr> port_st := p \<rparr>))"

partial_function (option) test_round ::
    "(test_port, 'u) user_code \<Rightarrow> aptr option \<Rightarrow> bool \<Rightarrow> nat \<Rightarrow> (test_port, 'u) sys
     \<Rightarrow> (bool \<times> nat \<times> (test_port, 'u) sys) option" where
  "test_round U cur made_progress dispatched s =
     (case cur of
        None \<Rightarrow> Some (made_progress, dispatched, s)
      | Some actor \<Rightarrow>
          (case take_next actor s of
             None \<Rightarrow> test_round U (a_next (actors s actor)) made_progress dispatched s
           | Some (msg, s1) \<Rightarrow>
               (let s2 = call_actor_handler U actor msg s1
                in test_round U (a_next (actors s2 actor)) True (dispatched + 1) s2)))"

partial_function (option) test_rounds ::
    "(test_port, 'u) user_code \<Rightarrow> nat \<Rightarrow> (test_port, 'u) sys \<Rightarrow> (nat \<times> (test_port, 'u) sys) option" where
  "test_rounds U dispatched s =
     (case test_round U (ipc_actor_list s) False dispatched s of
        None \<Rightarrow> None
      | Some (made_progress, n, t) \<Rightarrow> if made_progress then test_rounds U n t else Some (n, t))"

definition ipc_test_run_until_idle ::
    "(test_port, 'u) user_code \<Rightarrow> (test_port, 'u) sys \<Rightarrow> (nat \<times> (test_port, 'u) sys) option" where
  "ipc_test_run_until_idle U s = test_rounds U 0 s"

definition ipc_test_start ::
    "(test_port, 'u) user_code \<Rightarrow> (test_port, 'u) sys \<Rightarrow> (int \<times> (test_port, 'u) sys) option" where
  "ipc_test_start U s = ipc_start_all_actors the_test_port U s"

definition ipc_test_stop ::
    "(test_port, 'u) user_code \<Rightarrow> (test_port, 'u) sys \<Rightarrow> (test_port, 'u) sys option" where
  "ipc_test_stop U s =
     Option.bind (ipc_stop_all the_test_port U s)
       (\<lambda>t. map_option snd (ipc_run_all the_test_port t))"

section \<open>Taking a message\<close>

lemma dequeue_state_cases:
  assumes "state_inv st"
  shows "dequeue_state st = None \<longleftrightarrow> state_mail st = []"
    "dequeue_state st = Some (m, st2) \<Longrightarrow>
       state_inv st2 \<and> state_mail st = received m # state_mail st2 \<and> msg_readable m
       \<and> ts_actor st2 = ts_actor st \<and> ts_capacity st2 = ts_capacity st
       \<and> ts_slot_size st2 = ts_slot_size st"
proof -
  from assms obtain slots where slots: "ts_queue st = Some slots" "ts_started st"
    and ok: "ring_ok (payload_area (ts_slot_size st)) slots (ts_capacity st) (ts_head st) (ts_tail st) (ts_count st)"
    by (rule state_invE)
  show "dequeue_state st = None \<longleftrightarrow> state_mail st = []"
    using length_state_mail [OF assms] slots by (auto simp: dequeue_state_def Let_def)
  assume take: "dequeue_state st = Some (m, st2)"
  then have pos: "0 < ts_count st" by (simp add: dequeue_state_def split: if_splits)
  from take pos slots have m: "m = load_msg (slots ! ts_head st)"
    and st2: "st2 = st\<lparr> ts_receive_slot := Some (slots ! ts_head st),
        ts_head := (ts_head st + 1) mod ts_capacity st, ts_count := ts_count st - 1 \<rparr>"
    by (simp_all add: dequeue_state_def Let_def)
  note deq = ring_ok_dequeue [OF ok pos]
  show "state_inv st2 \<and> state_mail st = received m # state_mail st2 \<and> msg_readable m
       \<and> ts_actor st2 = ts_actor st \<and> ts_capacity st2 = ts_capacity st
       \<and> ts_slot_size st2 = ts_slot_size st"
    using deq slots by (simp add: m st2 state_inv_def state_mail_def)
qed

text \<open>The mailbox of the test port satisfies the FIFO contract, for every payload limit of its actor.\<close>

definition state_enq :: "nat \<Rightarrow> ipc_msg \<Rightarrow> ipc_test_actor_state_t \<Rightarrow> ipc_test_actor_state_t \<times> int" where
  "state_enq n m st = (case enqueue_state n m st of None \<Rightarrow> (st, 0) | Some r \<Rightarrow> r)"

lemma state_enq_capacity: "ts_capacity (fst (state_enq n m st)) = ts_capacity st"
proof (cases "enqueue_state n m st")
  case (Some r)
  with enqueue_state_frame [of n m st "fst r" "snd r"] show ?thesis by (simp add: state_enq_def)
qed (simp add: state_enq_def)

definition holds_up_to :: "nat \<Rightarrow> ipc_test_actor_state_t \<Rightarrow> bool" where
  "holds_up_to n st \<longleftrightarrow> state_inv st \<and> n \<le> payload_area (ts_slot_size st)"

lemma state_enq_cases:
  assumes "holds_up_to n st"
  shows "m_size m \<le> n \<Longrightarrow> ts_count st < ts_capacity st \<Longrightarrow>
      snd (state_enq n m st) = 0 \<and> holds_up_to n (fst (state_enq n m st))
      \<and> (msg_readable m \<longrightarrow> state_mail (fst (state_enq n m st)) = state_mail st @ [received m])"
    "\<not> (m_size m \<le> n \<and> ts_count st < ts_capacity st) \<Longrightarrow>
      snd (state_enq n m st) < 0 \<and> fst (state_enq n m st) = st"
proof -
  have inv: "state_inv st" "n \<le> payload_area (ts_slot_size st)" using assms by (simp_all add: holds_up_to_def)
  { assume "m_size m \<le> n" "ts_count st < ts_capacity st"
    then obtain st2 where "enqueue_state n m st = Some (st2, 0)" "state_inv st2"
      "msg_readable m \<Longrightarrow> state_mail st2 = state_mail st @ [received m]"
      "ts_slot_size st2 = ts_slot_size st"
      using enqueue_state_room [OF inv(1) _ inv(2), of m] by blast
    then show "snd (state_enq n m st) = 0 \<and> holds_up_to n (fst (state_enq n m st))
      \<and> (msg_readable m \<longrightarrow> state_mail (fst (state_enq n m st)) = state_mail st @ [received m])"
      using inv(2) by (simp add: state_enq_def holds_up_to_def) }
  show "\<not> (m_size m \<le> n \<and> ts_count st < ts_capacity st) \<Longrightarrow>
      snd (state_enq n m st) < 0 \<and> fst (state_enq n m st) = st"
    using enqueue_state_refused [OF inv(1), of m n] by (simp add: state_enq_def)
qed

interpretation test_ring: bounded_fifo "holds_up_to n" state_mail ts_capacity
  "\<lambda>st m. m_size m \<le> n" "state_enq n" dequeue_state for n
proof (unfold_locales, goal_cases)
  case (1 q m)
  show ?case
  proof (cases "m_size m \<le> n \<and> ts_count q < ts_capacity q")
    case True
    then show ?thesis using state_enq_cases(1) [OF 1] by blast
  next
    case False
    then show ?thesis using state_enq_cases(2) [OF 1] 1 by simp
  qed
next
  case (2 m q)
  show ?case by (rule state_enq_capacity)
next
  case (3 q m k)
  then show ?case by simp
next
  case (4 q m)
  then show ?case
    using state_enq_cases(1) [OF 4(1), of m] length_state_mail [of q] by (simp add: holds_up_to_def)
next
  case (5 q m)
  then show ?case
    using state_enq_cases(2) [OF 5(1), of m] length_state_mail [of q] by (simp add: holds_up_to_def)
next
  case (6 q)
  then show ?case using length_state_mail [of q] by (simp add: holds_up_to_def)
next
  case (7 q)
  then show ?case using dequeue_state_cases(1) [of q] by (simp add: holds_up_to_def)
next
  case (8 q m q' k)
  then show ?case using dequeue_state_cases(2) [of q m q'] by (simp add: holds_up_to_def)
qed


section \<open>The lookups after a take\<close>

lemma test_take_cases:
  assumes "test_ready p a c"
  shows "test_take a p = None \<longleftrightarrow> test_mail p a = []"
    "test_take a p = Some (m, q) \<Longrightarrow>
       test_mail p a = received m # test_mail q a \<and> msg_readable m
       \<and> (\<forall>b. b \<noteq> a \<longrightarrow> test_mail q b = test_mail p b)
       \<and> (\<forall>b k. test_ready p b k \<longrightarrow> test_ready q b k)"
proof -
  from assms obtain i where i: "find_state a p = Some i"
    by (auto simp: test_ready_def lookup_find_state split: option.splits)
  let ?st = "actor_states p ! i"
  have look: "lookup p a = Some ?st" using i by (simp add: lookup_find_state)
  have inv: "state_inv ?st" using assms look by (simp add: test_ready_def)
  show "test_take a p = None \<longleftrightarrow> test_mail p a = []"
    using dequeue_state_cases(1) [OF inv] i look
    by (auto simp: test_take_def test_mail_def split: option.split)
  assume "test_take a p = Some (m, q)"
  then obtain st2 where st2: "dequeue_state ?st = Some (m, st2)" "q = set_state i st2 p"
    using i by (auto simp: test_take_def split: option.splits)
  note deq = dequeue_state_cases(2) [OF inv st2(1)]
  have actor: "ts_actor st2 = a" using deq find_stateD [OF i] by simp
  have look2: "lookup q b = (if b = a then Some st2 else lookup p b)" for b
    unfolding st2(2) by (rule lookup_set_state [OF i actor])
  show "test_mail p a = received m # test_mail q a \<and> msg_readable m
       \<and> (\<forall>b. b \<noteq> a \<longrightarrow> test_mail q b = test_mail p b)
       \<and> (\<forall>b k. test_ready p b k \<longrightarrow> test_ready q b k)"
    using deq by (auto simp: test_mail_def test_ready_def look look2)
qed

section \<open>Walks\<close>

lemma list_seg_all_Some:
  assumes "Q a" "\<forall>xs. list_seg nx (nx a) xs \<longrightarrow> (\<forall>b \<in> set xs. Q b)"
  shows "\<forall>xs. list_seg nx (Some a) xs \<longrightarrow> (\<forall>b \<in> set xs. Q b)"
proof (intro allI impI)
  fix xs assume "list_seg nx (Some a) xs"
  then show "\<forall>b \<in> set xs. Q b" using assms by (cases xs) auto
qed

text \<open>A walk that takes nothing changes nothing, and found every mailbox it passed empty.\<close>

lemma test_round_no_progress:
  assumes "test_round U cur made n s = Some (made2, n2, t)" "\<not> made2"
  shows "\<not> made \<and> t = s \<and> n2 = n
    \<and> (\<forall>xs. list_seg (next_of s) cur xs \<longrightarrow> (\<forall>a \<in> set xs. take_next a s = None))"
proof -
  have "\<not> fst r \<longrightarrow> \<not> made \<and> snd r = (n, s)
    \<and> (\<forall>xs. list_seg (next_of s) cur xs \<longrightarrow> (\<forall>a \<in> set xs. take_next a s = None))"
    if "test_round U cur made n s = Some r" for r
    using that
  proof (induction rule: test_round.raw_induct [rotated, consumes 1, case_names step])
    case (step f U cur made n s r)
    show ?case
    proof (cases cur)
      case None
      with step(2) have "r = (made, n, s)" by simp
      moreover have "xs = []" if "list_seg (next_of s) cur xs" for xs
        using that None by (cases xs) auto
      ultimately show ?thesis by fastforce
    next
      case (Some a)
      show ?thesis
      proof (cases "take_next a s")
        case none: None
        with Some step(2) have "f U (a_next (actors s a)) made n s = Some r" by simp
        from step(1) [OF this] none Some
          list_seg_all_Some [of "\<lambda>b. take_next b s = None" a "next_of s"]
        show ?thesis by blast
      next
        case (Some p)
        obtain m s1 where p: "p = (m, s1)" by (cases p)
        with Some \<open>cur = Some a\<close> step(2)
        have "f U (a_next (actors (call_actor_handler U a m s1) a)) True (n + 1)
                (call_actor_handler U a m s1) = Some r"
          by (simp add: Let_def)
        from step(1) [OF this] show ?thesis by simp
      qed
    qed
  qed
  from this [OF assms(1)] assms(2) show ?thesis by simp
qed

lemma take_next_cases:
  assumes "test_ready (port_st s) a c"
  shows "take_next a s = None \<longleftrightarrow> test_mail (port_st s) a = []"
    "take_next a s = Some (m, s1) \<Longrightarrow> s1 = s\<lparr> port_st := port_st s1 \<rparr> \<and> test_take a (port_st s) = Some (m, port_st s1)"
  using test_take_cases(1) [OF assms] by (auto simp: take_next_def split: option.splits)

definition queued_messages :: "(test_port, 'u) sys \<Rightarrow> aptr list \<Rightarrow> nat" where
  "queued_messages s xs = (\<Sum>a \<leftarrow> xs. length (test_mail (port_st s) a))"

lemma queued_messages_cong:
  "(\<And>a. a \<in> set xs \<Longrightarrow> test_mail (port_st t) a = test_mail (port_st s) a) \<Longrightarrow>
     queued_messages t xs = queued_messages s xs"
  unfolding queued_messages_def by (rule arg_cong [of _ _ sum_list], rule map_cong) simp_all

text \<open>
  One walk with such handlers takes one message from every mailbox that has one.
\<close>

lemma test_round_quiet:
  assumes "posts_nothing U" "list_seg (next_of s) cur xs" "distinct xs"
    and "\<forall>a \<in> set xs. test_ready (port_st s) a (a_cfg (actors s a))"
  shows "\<exists>t k. test_round U cur made n s = Some (made \<or> 0 < k, n + k, t)
    \<and> queued_messages s xs = k + queued_messages t xs \<and> (0 < queued_messages s xs \<longrightarrow> 0 < k)
    \<and> actors t = actors s \<and> ipc_actor_list t = ipc_actor_list s
    \<and> (\<forall>b k. test_ready (port_st s) b k \<longrightarrow> test_ready (port_st t) b k)
    \<and> (\<forall>b. b \<notin> set xs \<longrightarrow> test_mail (port_st t) b = test_mail (port_st s) b)"
  using assms(2-4)
proof (induction xs arbitrary: cur made n s)
  case Nil
  then show ?case
    by (intro exI [of _ s] exI [of _ 0]) (subst test_round.simps, simp add: queued_messages_def)
next
  case (Cons a xs)
  then have cur: "cur = Some a" and seg: "list_seg (next_of s) (a_next (actors s a)) xs"
    and ready: "test_ready (port_st s) a (a_cfg (actors s a))" and new: "a \<notin> set xs" "distinct xs"
    by auto
  show ?case
  proof (cases "take_next a s")
    case None
    have step: "test_round U cur made n s = test_round U (a_next (actors s a)) made n s"
      by (subst test_round.simps) (simp add: cur None)
    from None take_next_cases(1) [OF ready] have empty: "test_mail (port_st s) a = []" by simp
    have ready1: "\<forall>b \<in> set xs. test_ready (port_st s) b (a_cfg (actors s b))"
      using Cons.prems(3) by simp
    from Cons.IH [OF seg new(2) ready1, of made n]
    obtain t k where t: "test_round U (a_next (actors s a)) made n s = Some (made \<or> 0 < k, n + k, t)"
      "queued_messages s xs = k + queued_messages t xs" "0 < queued_messages s xs \<longrightarrow> 0 < k"
      "actors t = actors s" "ipc_actor_list t = ipc_actor_list s"
      "\<forall>b k. test_ready (port_st s) b k \<longrightarrow> test_ready (port_st t) b k"
      "\<forall>b. b \<notin> set xs \<longrightarrow> test_mail (port_st t) b = test_mail (port_st s) b"
      by (elim exE conjE) (rule that; assumption)
    have "test_mail (port_st t) a = []" using t(7) new(1) empty by simp
    then show ?thesis
      using t empty by (intro exI [of _ t] exI [of _ k]) (simp add: step queued_messages_def)
  next
    case (Some r)
    obtain m s1 where take: "take_next a s = Some (m, s1)" using Some by (cases r) simp
    note next1 = take_next_cases(2) [OF ready take]
    note taken = test_take_cases(2) [OF ready conjunct2 [OF next1]]
    let ?s2 = "call_actor_handler U a m s1"
    note quiet = call_actor_handler_quiet [OF assms(1), of a m s1]
    have same: "actors s1 = actors s" "ipc_actor_list s1 = ipc_actor_list s"
      using arg_cong [OF conjunct1 [OF next1], of actors] arg_cong [OF conjunct1 [OF next1], of ipc_actor_list]
      by simp_all
    have step: "test_round U cur made n s = test_round U (a_next (actors s a)) True (n + 1) ?s2"
      using quiet same by (subst test_round.simps) (simp add: cur take Let_def)
    have seg2: "list_seg (next_of ?s2) (a_next (actors s a)) xs" using seg quiet same by simp
    have ready2: "\<forall>b \<in> set xs. test_ready (port_st ?s2) b (a_cfg (actors ?s2 b))"
      using Cons.prems(3) taken quiet same by simp
    from Cons.IH [OF seg2 new(2) ready2, of True "n + 1"]
    obtain t k where t: "test_round U (a_next (actors s a)) True (n + 1) ?s2 = Some (True, n + 1 + k, t)"
      "queued_messages ?s2 xs = k + queued_messages t xs"
      "actors t = actors ?s2" "ipc_actor_list t = ipc_actor_list ?s2"
      "\<forall>b k. test_ready (port_st ?s2) b k \<longrightarrow> test_ready (port_st t) b k"
      "\<forall>b. b \<notin> set xs \<longrightarrow> test_mail (port_st t) b = test_mail (port_st ?s2) b"
      by auto
    have "queued_messages ?s2 xs = queued_messages s xs"
      by (rule queued_messages_cong) (use taken quiet new(1) in auto)
    moreover have "test_mail (port_st s) a = received m # test_mail (port_st t) a"
      using t(6) new(1) taken quiet by simp
    ultimately show ?thesis
      using t taken quiet same
      by (intro exI [of _ t] exI [of _ "Suc k"]) (simp add: step queued_messages_def)
  qed
qed

lemma test_rounds_idle:
  assumes "test_rounds U n s = Some (k, t)"
  shows "\<forall>xs. list_seg (next_of t) (ipc_actor_list t) xs \<longrightarrow> (\<forall>a \<in> set xs. take_next a t = None)"
proof -
  have "\<forall>xs. list_seg (next_of (snd r)) (ipc_actor_list (snd r)) xs \<longrightarrow> (\<forall>a \<in> set xs. take_next a (snd r) = None)"
    if "test_rounds U n s = Some r" for r
    using that
  proof (induction rule: test_rounds.raw_induct [rotated, consumes 1, case_names step])
    case (step f U n s r)
    then obtain made n2 u where round: "test_round U (ipc_actor_list s) False n s = Some (made, n2, u)"
      by (auto split: option.splits)
    show ?case
    proof (cases made)
      case True
      with step(2) round have "f U n2 u = Some r" by simp
      from step(1) [OF this] show ?thesis .
    next
      case False
      with step(2) round have "r = (n2, u)" by simp
      with test_round_no_progress [OF round False] show ?thesis by simp
    qed
  qed
  from this [OF assms] show ?thesis by simp
qed

lemma test_rounds_quiet:
  assumes "posts_nothing U" "actor_list s xs"
    and "\<forall>a \<in> set xs. test_ready (port_st s) a (a_cfg (actors s a))"
  shows "\<exists>t. test_rounds U n s = Some (n + queued_messages s xs, t) \<and> queued_messages t xs = 0"
  using assms(2,3)
proof (induction "queued_messages s xs" arbitrary: n s rule: less_induct)
  case less
  have list: "list_seg (next_of s) (ipc_actor_list s) xs" "distinct xs"
    using less.prems(1) by (simp_all add: actor_list_def)
  from test_round_quiet [OF assms(1) list less.prems(2), of False n]
  obtain t k where t: "test_round U (ipc_actor_list s) False n s = Some (0 < k, n + k, t)"
    "queued_messages s xs = k + queued_messages t xs" "0 < queued_messages s xs \<longrightarrow> 0 < k"
    "actors t = actors s" "ipc_actor_list t = ipc_actor_list s"
    "\<forall>b k. test_ready (port_st s) b k \<longrightarrow> test_ready (port_st t) b k"
    by (elim exE conjE) (rule that; auto)
  show ?case
  proof (cases "0 < k")
    case True
    have "actor_list t xs" using less.prems(1) by (simp add: actor_list_def t(4,5))
    moreover have "\<forall>a \<in> set xs. test_ready (port_st t) a (a_cfg (actors t a))"
      using less.prems(2) t(4,6) by simp
    moreover have "queued_messages t xs < queued_messages s xs" using t(2) True by simp
    ultimately obtain u where "test_rounds U (n + k) t = Some (n + k + queued_messages t xs, u)"
      "queued_messages u xs = 0"
      using less.hyps by blast
    moreover have "test_rounds U n s = test_rounds U (n + k) t"
      using True by (subst test_rounds.simps) (simp add: t(1))
    ultimately show ?thesis by (intro exI [of _ u]) (simp add: t(2))
  next
    case False
    then have "test_rounds U n s = Some (n + k, t)"
      by (subst test_rounds.simps) (simp add: t(1))
    with False t(2,3) show ?thesis by (intro exI [of _ t]) simp
  qed
qed

section \<open>Properties\<close>

text \<open>
  \<^verbatim>\<open>ipc_test_run_until_idle\<close> stops only when nothing is left to do. Whatever the handlers did
  (posting messages, restarting actors), if it returns then no actor of the actor list has a
  message that could be taken.
\<close>

theorem test_run_leaves_idle:
  assumes "ipc_test_run_until_idle U s = Some (n, t)" "actor_list t xs" "a \<in> set xs"
  shows "take_next a t = None \<and> (\<forall>c. test_ready (port_st t) a c \<longrightarrow> test_mail (port_st t) a = [])"
proof -
  have "take_next a t = None"
    using test_rounds_idle [of U 0 s n t] assms
    by (auto simp: ipc_test_run_until_idle_def actor_list_def)
  with take_next_cases(1) show ?thesis by blast
qed


text \<open>
  The mailbox of the test port is a bounded FIFO. In every sequence of sends and takes on an
  actor's entry, the messages taken and those still queued are exactly the accepted ones after
  those queued at first, in order, and never more than the capacity are queued.
\<close>

theorem test_mailbox_fifo:
  assumes "state_inv st" "n \<le> payload_area (ts_slot_size st)"
    and "test_ring.history n st sends taken st2"
  shows "taken @ state_mail st2
      = state_mail st @ map (received \<circ> fst) (filter (\<lambda>(m, rc). rc = 0) sends)
    \<and> length (state_mail st2) \<le> ts_capacity st"
proof -
  have "holds_up_to n st" using assms(1,2) by (simp add: holds_up_to_def)
  with test_ring.history_fifo [OF assms(3)] test_ring.history_bounded [OF assms(3)] show ?thesis by simp
qed

definition test_table_inv :: "test_port \<Rightarrow> bool" where
  "test_table_inv p \<longleftrightarrow>
     distinct (map ts_actor (actor_states p)) \<and> length (actor_states p) \<le> IPC_TEST_MAX_ACTORS"

lemma map_actor_set_state:
  "ts_actor st = ts_actor (actor_states p ! i) \<Longrightarrow>
     map ts_actor (actor_states (set_state i st p)) = map ts_actor (actor_states p)"
  by (cases "i < length (actor_states p)") (simp_all add: map_update list_update_same_conv list_update_beyond)

text \<open>\<open>same_owners p q\<close>: the same entries for the same actors.\<close>

definition same_owners :: "test_port \<Rightarrow> test_port \<Rightarrow> bool" where
  "same_owners p q \<longleftrightarrow> map ts_actor (actor_states q) = map ts_actor (actor_states p)"

lemma same_owners_inv: "same_owners p q \<Longrightarrow> test_table_inv p \<Longrightarrow>
    test_table_inv q \<and> length (actor_states q) = length (actor_states p)"
  by (simp add: same_owners_def test_table_inv_def) (metis length_map)

lemma same_owners_ops:
  "same_owners p (fst (enqueue a x m p))" "same_owners p (test_stop_actor a p)"
  "same_owners p (fst (test_restart_actor a p))" "same_owners p (fst (test_run_all p))"
proof -
  show "same_owners p (fst (enqueue a x m p))"
  proof (cases "find_state a p")
    case (Some i)
    show ?thesis
    proof (cases "enqueue_state (max_payload_size (a_cfg x)) m (actor_states p ! i)")
      case None
      with Some show ?thesis by (simp add: enqueue_def same_owners_def)
    next
      case st2: (Some r)
      with enqueue_state_frame [of "max_payload_size (a_cfg x)" m "actor_states p ! i" "fst r" "snd r"] Some
      show ?thesis
        by (cases r) (simp add: enqueue_def same_owners_def map_actor_set_state [simplified])
    qed
  qed (simp add: enqueue_def same_owners_def)
  show "same_owners p (test_stop_actor a p)"
    by (simp add: test_stop_actor_def same_owners_def map_actor_set_state [simplified] split: option.split)
  show "same_owners p (fst (test_restart_actor a p))"
    by (simp add: test_restart_actor_def same_owners_def map_actor_set_state [simplified] split: option.split)
  show "same_owners p (fst (test_run_all p))"
    by (simp add: test_run_all_def same_owners_def release_state_def comp_def)
qed

lemma state_for_table:
  assumes "test_table_inv p" "state_for a True p = (r, p1)"
  shows "test_table_inv p1 \<and> length (actor_states p) \<le> length (actor_states p1)"
proof (cases "find_state a p")
  case (Some i)
  with assms show ?thesis by (simp add: state_for_def)
next
  case None
  then have "a \<notin> ts_actor ` set (actor_states p)"
    by (auto simp: find_state_def first_index_None_iff)
  with assms None show ?thesis
    by (auto simp: state_for_def test_table_inv_def new_state_def split: if_splits)
qed

lemma test_actor_init_table:
  assumes "test_table_inv p"
  shows "test_table_inv (fst (test_actor_init a x p))
    \<and> length (actor_states p) \<le> length (actor_states (fst (test_actor_init a x p)))"
proof -
  obtain r p1 where sf: "state_for a True p = (r, p1)" by (cases "state_for a True p")
  note table = state_for_table [OF assms sf]
  have "same_owners p1 (fst (test_actor_init a x p)) \<or> fst (test_actor_init a x p) \<in> {p, p1}"
    using sf by (auto simp: test_actor_init_def Let_def same_owners_def release_state_def
        map_actor_set_state [simplified] split: option.split)
  with table assms same_owners_inv [of p1 "fst (test_actor_init a x p)"] show ?thesis by auto
qed

text \<open>
  The table of the test port never has more than 32 entries, nor two for one actor. Every port
  function keeps that and never drops an entry; initialising a new actor when the table is full
  returns \<^verbatim>\<open>-ENOMEM\<close> and changes nothing.
\<close>

theorem test_table_bounded:
  assumes "test_table_inv p"
    and "q \<in> {fst (test_actor_init a x p), fst (enqueue a x m p), test_stop_actor a p,
              fst (test_restart_actor a p), fst (test_run_all p)}"
  shows "test_table_inv q \<and> length (actor_states p) \<le> length (actor_states q)
    \<and> (length (actor_states p) = IPC_TEST_MAX_ACTORS \<and> find_state a p = None
         \<and> 0 < queue_depth (a_cfg x) \<longrightarrow> test_actor_init a x p = (p, - ENOMEM))"
proof -
  have "test_table_inv q \<and> length (actor_states p) \<le> length (actor_states q)"
    using assms(2)
  proof (elim insertE emptyE)
    assume "q = fst (test_actor_init a x p)"
    with test_actor_init_table [OF assms(1)] show ?thesis by simp
  qed (use same_owners_inv [OF _ assms(1)] same_owners_ops [of p] in simp_all)
  then show ?thesis by (simp add: test_actor_init_def state_for_def)
qed

text \<open>
  After \<^verbatim>\<open>ipc_test_stop\<close> nothing is delivered any more. When it returns, every later post to any
  actor is refused with \<^verbatim>\<open>-EPERM\<close> and changes nothing, and the framework is not left stopping.
\<close>

theorem test_stop_refuses_posts:
  assumes "ipc_test_stop U s = Some t"
  shows "enqueue a x m (port_st t) = (port_st t, - EPERM) \<and> lifecycle_state t \<noteq> IPC_LIFECYCLE_STOPPING"
proof -
  obtain u where u: "map_option snd (ipc_run_all the_test_port u) = Some t"
    using assms by (auto simp: ipc_test_stop_def bind_eq_Some_conv)
  then have t: "port_st t = fst (test_run_all (port_st u))" "lifecycle_state t \<noteq> IPC_LIFECYCLE_STOPPING"
    by (auto simp: ipc_run_all_def test_run_all_def Let_def split: option.splits if_splits)
  have "\<not> ts_started (actor_states (port_st t) ! i)" if "find_state a (port_st t) = Some i" for i
    using find_stateD [OF that] by (simp add: t(1) test_run_all_def release_state_def)
  with t(2) show ?thesis
    by (simp add: enqueue_def enqueue_state_def split: option.split)
qed

section \<open>Concrete runs\<close>

text \<open>A test port whose actors 1 and 2 have a ring of two slots with one message queued.\<close>

definition ex_test_state :: "aptr \<Rightarrow> ipc_test_actor_state_t" where
  "ex_test_state a = (new_state a)
     \<lparr> ts_queue := Some (replicate 2 (zero_slot 16)), ts_slot_size := 48, ts_capacity := 2,
       ts_tail := 1, ts_count := 1, ts_started := True \<rparr>"

definition ex_test :: "(test_port, user_call list) sys" where
  "ex_test = ex_running
     ((test_initial (\<lambda>_. True))\<lparr> actor_states := [ex_test_state 1, ex_test_state 2] \<rparr>) []"

lemma ex_test_state_inv: "state_inv (ex_test_state a)"
  by (simp add: state_inv_def ex_test_state_def new_state_def ring_ok_def payload_area_def
      slot_header_size replicate_two zero_slot_def)

lemma ex_test_lookup: "a \<in> {1, 2} \<Longrightarrow> lookup (port_st ex_test) a = Some (ex_test_state a)"
  by (auto simp: ex_test_def lookup_def ex_test_state_def new_state_def ex_defs)

lemma ex_test_ready: "\<forall>a \<in> set [1, 2]. test_ready (port_st ex_test) a (a_cfg (actors ex_test a))"
proof
  fix a :: aptr
  assume "a \<in> set [1, 2]"
  then have "lookup (port_st ex_test) a = Some (ex_test_state a)" by (intro ex_test_lookup) simp
  then show "test_ready (port_st ex_test) a (a_cfg (actors ex_test a))"
    using ex_test_state_inv [of a]
    by (simp add: test_ready_def) (simp add: ex_test_def ex_test_state_def new_state_def
        IPC_MSG_SLOT_SIZE_def slot_header_size IPC_ALIGN_UP_def alignof_max_align_t_def ex_defs)
qed

lemma ex_test_list: "actor_list ex_test [1, 2]"
  unfolding ex_test_def by (rule ex_running_list)

lemma ex_test_queued: "queued_messages ex_test [1, 2] = 2"
proof -
  have "length (test_mail (port_st ex_test) a) = 1" if "a \<in> {1, 2}" for a
    using ex_test_lookup [OF that] length_state_mail [OF ex_test_state_inv [of a]]
    by (simp add: test_mail_def) (simp add: ex_test_state_def)
  from this [of 1] this [of 2] show ?thesis by (simp add: queued_messages_def)
qed


theorem test_run_leaves_idle_witness:
  "\<exists>n t. ipc_test_run_until_idle recording ex_test = Some (n, t)
    \<and> (\<forall>xs a. actor_list t xs \<longrightarrow> a \<in> set xs \<longrightarrow> take_next a t = None)"
proof -
  obtain n t where run: "ipc_test_run_until_idle recording ex_test = Some (n, t)"
    using test_rounds_quiet [OF posts_nothing_recording ex_test_list ex_test_ready, of 0]
    by (auto simp: ipc_test_run_until_idle_def)
  with test_run_leaves_idle [OF run] show ?thesis by blast
qed

theorem test_mailbox_fifo_witness:
  "\<exists>sends st. length (state_mail (fst (state_enq 8 ex_message (ex_test_state 1)))) \<le> 2
    \<and> test_ring.history 8 (ex_test_state 1) sends [] st \<and> sends \<noteq> []"
proof -
  have "msg_readable ex_message" by (simp add: msg_readable_def ex_message_def)
  from test_ring.history.sent [OF test_ring.history.start this]
  have hist: "test_ring.history 8 (ex_test_state 1)
      ([] @ [(ex_message, snd (state_enq 8 ex_message (ex_test_state 1)))]) []
      (fst (state_enq 8 ex_message (ex_test_state 1)))" .
  have "8 \<le> payload_area (ts_slot_size (ex_test_state 1))"
    by (simp add: ex_test_state_def payload_area_def slot_header_size)
  note conjunct2 [OF test_mailbox_fifo [OF ex_test_state_inv this hist]]
  moreover have "ts_capacity (ex_test_state 1) = 2" by (simp add: ex_test_state_def)
  ultimately have "length (state_mail (fst (state_enq 8 ex_message (ex_test_state 1)))) \<le> 2" by simp
  with hist show ?thesis by blast
qed

theorem test_table_bounded_witness:
  "\<exists>p q. length (actor_states p) = 32 \<and> test_actor_init 40 (ex_actors 1) p = (q, - ENOMEM)
    \<and> test_table_inv q"
proof -
  let ?p = "(test_initial (\<lambda>_. True))\<lparr> actor_states := map new_state [0..<32] \<rparr>"
  have owners: "map ts_actor (actor_states ?p) = [0..<32]" by (simp add: new_state_def comp_def)
  have inv: "test_table_inv ?p"
    unfolding test_table_inv_def owners by (simp add: IPC_TEST_MAX_ACTORS_def)
  have len: "length (actor_states ?p) = 32" by simp
  have "find_state 40 ?p = None"
    by (auto simp: find_state_def first_index_None_iff new_state_def)
  with test_table_bounded [OF inv, of "fst (test_actor_init 40 (ex_actors 1) ?p)" 40 "ex_actors 1"] len
  have "test_actor_init 40 (ex_actors 1) ?p = (?p, - ENOMEM)"
    by (simp add: IPC_TEST_MAX_ACTORS_def ex_defs)
  with inv len show ?thesis by blast
qed

theorem test_stop_refuses_posts_witness:
  "\<exists>t. ipc_test_stop recording (ex_test\<lparr> lifecycle_state := IPC_LIFECYCLE_STOPPING \<rparr>) = Some t
    \<and> snd (enqueue 1 (ex_actors 1) ex_message (port_st t)) = - EPERM"
proof -
  let ?s = "ex_test\<lparr> lifecycle_state := IPC_LIFECYCLE_STOPPING \<rparr>"
  have "list_seg (next_of ?s) (ipc_actor_list ?s) [1, 2]"
    using ex_test_list by (simp add: actor_list_def)
  then have "walk_actors ?s (ipc_actor_list ?s) = Some [1, 2]" by (rule walk_actors_list)
  then obtain t where run: "ipc_test_stop recording ?s = Some t"
    by (auto simp: ipc_test_stop_def ipc_stop_all_def ipc_run_all_def test_run_all_def Let_def)
  with test_stop_refuses_posts [OF run, of 1 "ex_actors 1" ex_message] show ?thesis by auto
qed

end
