(* ===== verification/Zephyr_Port.thy ===== *)
theory Zephyr_Port
  imports Ring_Buffer
begin

text \<open>
  The Zephyr port, \<^verbatim>\<open>src/port/zephyr/zephyr_ipc_port.c\<close>, over a kernel that is a parameter: the
  message queue, thread and delayable-work functions of Zephyr are the fields of \<open>kernel\<close>, on a
  kernel state \<open>'k\<close> of its own. An object of the kernel that belongs to an actor is named by the
  actor, an ask timer by its index. The kernel configuration is \<open>zephyr_config\<close>.

  \<open>msgq_contract\<close> is what the port relies on, the documented behaviour of \<^verbatim>\<open>k_msgq\<close>: a bounded FIFO
  that copies items in and out.
\<close>

section \<open>The kernel\<close>

text \<open>
  \<open>k_msgq_get\<close> returns \<open>None\<close> for a queue that is empty (the non-blocking call fails, the blocking
  one does not return). \<open>k_work_flush\<close> also says whether the work was running and so completes
  before the call returns.
\<close>

record 'k kernel =
  k_msgq_init :: "aptr \<Rightarrow> u64 \<Rightarrow> nat \<Rightarrow> 'k \<Rightarrow> 'k"
  k_msgq_put :: "aptr \<Rightarrow> slot \<Rightarrow> 'k \<Rightarrow> 'k \<times> int"
  k_msgq_get :: "aptr \<Rightarrow> 'k \<Rightarrow> (slot \<times> 'k) option"
  k_msgq_purge :: "aptr \<Rightarrow> 'k \<Rightarrow> 'k"
  k_thread_create :: "aptr \<Rightarrow> int \<Rightarrow> 'k \<Rightarrow> 'k"
  k_thread_abort :: "aptr \<Rightarrow> 'k \<Rightarrow> 'k"
  k_work_init_delayable :: "aptr \<Rightarrow> 'k \<Rightarrow> 'k"
  k_work_cancel_delayable :: "aptr \<Rightarrow> 'k \<Rightarrow> 'k"
  k_work_flush :: "aptr \<Rightarrow> 'k \<Rightarrow> bool \<times> 'k"
  k_work_reschedule :: "aptr \<Rightarrow> u32 \<Rightarrow> 'k \<Rightarrow> 'k"
  k_timer_schedule :: "nat \<Rightarrow> u32 \<Rightarrow> 'k \<Rightarrow> 'k"
  k_uptime_get_32 :: "'k \<Rightarrow> u32"

record zephyr_config =
  CONFIG_ACTOR_ASK :: bool
  CONFIG_ACTOR_SEND_AFTER :: bool
  CONFIG_ACTOR_MAX_PENDING_ASK_TIMEOUTS :: nat

section \<open>State\<close>

text \<open>Buffers the macros declare are \<open>option\<close>s, \<open>None\<close> for a \<^verbatim>\<open>NULL\<close> pointer.\<close>

record zephyr_port_state =
  z_stack :: bool
  z_stack_size :: nat
  z_msgq_buf :: bool
  z_queue_depth :: nat
  z_send_slot :: "slot option"
  z_recv_slot :: "slot option"
  z_slot_size :: u64
  z_delayed_msg :: ipc_msg
  z_delayed_payload :: "u8 list option"
  z_owner :: "aptr option"

record zephyr_ask_timeout_t =
  zt_actor :: aptr
  zt_ask_id :: u32
  zt_used :: bool

record 'k zephyr =
  zport_of :: "aptr \<Rightarrow> zephyr_port_state"
  z_ask_timeouts :: "zephyr_ask_timeout_t list"
  kern :: 'k

abbreviation zset_port :: "aptr \<Rightarrow> zephyr_port_state \<Rightarrow> 'k zephyr \<Rightarrow> 'k zephyr" where
  "zset_port a p s \<equiv> s\<lparr> zport_of := (zport_of s)(a := p) \<rparr>"

abbreviation zkern :: "('k \<Rightarrow> 'k) \<Rightarrow> 'k zephyr \<Rightarrow> 'k zephyr" where
  "zkern f s \<equiv> s\<lparr> kern := f (kern s) \<rparr>"

text \<open>
  The port state \<^verbatim>\<open>IPC_ACTOR_DEFINE\<close> declares; \<open>usable\<close> is \<^verbatim>\<open>K_THREAD_STACK_SIZEOF\<close> of the requested
  stack size.
\<close>

definition zephyr_actor_define_port ::
    "zephyr_config \<Rightarrow> (nat \<Rightarrow> nat) \<Rightarrow> nat \<Rightarrow> nat \<Rightarrow> nat \<Rightarrow> zephyr_port_state" where
  "zephyr_actor_define_port c usable stack_sz qdepth max_payload =
     (let size = IPC_MSG_SLOT_SIZE (of_nat max_payload)
      in \<lparr> z_stack = True, z_stack_size = usable stack_sz, z_msgq_buf = True, z_queue_depth = qdepth,
           z_send_slot = Some (zero_slot (payload_area size)),
           z_recv_slot = Some (zero_slot (payload_area size)), z_slot_size = size,
           z_delayed_msg = \<lparr> m_id = 0, m_kind = IPC_EVENT, m_size = 0, m_payload = None, m_ask_id = 0,
                             m_reply_id = 0, m_result = 0 \<rparr>,
           z_delayed_payload = (if CONFIG_ACTOR_SEND_AFTER c
                                then Some (replicate (if max_payload > 0 then max_payload else 1) 0)
                                else None),
           z_owner = None \<rparr>)"

text \<open>The actor object of the same macro: its configuration carries the usable limits.\<close>

definition ZEPHYR_ACTOR_DEFINE ::
    "(nat \<Rightarrow> nat) \<Rightarrow> string \<Rightarrow> nat \<Rightarrow> int \<Rightarrow> nat \<Rightarrow> nat \<Rightarrow> ipc_actor" where
  "ZEPHYR_ACTOR_DEFINE usable name stack_sz prio qdepth max_payload =
     IPC_ACTOR_DEFINE name (usable stack_sz) prio qdepth max_payload"

definition zephyr_initial :: "zephyr_config \<Rightarrow> (aptr \<Rightarrow> zephyr_port_state) \<Rightarrow> 'k \<Rightarrow> 'k zephyr" where
  "zephyr_initial c ports k =
     \<lparr> zport_of = ports,
       z_ask_timeouts = replicate (CONFIG_ACTOR_MAX_PENDING_ASK_TIMEOUTS c)
         \<lparr> zt_actor = 0, zt_ask_id = 0, zt_used = False \<rparr>, kern = k \<rparr>"

section \<open>Queue slots\<close>

text \<open>\<^verbatim>\<open>store_msg\<close> and \<^verbatim>\<open>load_msg\<close> of this port: the code of the POSIX port again.\<close>

definition zephyr_store_msg :: "u64 \<Rightarrow> slot \<Rightarrow> ipc_msg \<Rightarrow> slot \<times> int" where
  "zephyr_store_msg slot_size slot msg =
     (if m_size msg > payload_area slot_size then (slot, - EMSGSIZE)
      else
        (\<lparr> h_id = m_id msg, h_kind = m_kind msg, h_size = m_size msg, h_ask_id = m_ask_id msg,
           h_reply_id = m_reply_id msg, h_result = m_result msg,
           slot_bytes = (if m_size msg > 0
                         then (case m_payload msg of
                                 Some src \<Rightarrow> memcpy (slot_bytes slot) src (m_size msg)
                               | None \<Rightarrow> memset_0 (slot_bytes slot) (m_size msg))
                         else slot_bytes slot) \<rparr>, 0))"

definition zephyr_load_msg :: "slot \<Rightarrow> ipc_msg" where
  "zephyr_load_msg slot =
     \<lparr> m_id = h_id slot, m_kind = h_kind slot, m_size = h_size slot, m_payload = Some (slot_bytes slot),
       m_ask_id = h_ask_id slot, m_reply_id = h_reply_id slot, m_result = h_result slot \<rparr>"

lemma zephyr_slots_eq [simp]: "zephyr_store_msg = store_msg" "zephyr_load_msg = load_msg"
  by (simp_all add: fun_eq_iff zephyr_store_msg_def store_msg_def write_slot_def copy_payload_def
      zephyr_load_msg_def load_msg_def split: option.split)

section \<open>Sending\<close>

text \<open>The section under \<^verbatim>\<open>send_lock\<close>: fill the send slot, then copy it into the queue.\<close>

definition zephyr_send ::
    "'k kernel \<Rightarrow> aptr \<Rightarrow> ipc_actor \<Rightarrow> ipc_msg \<Rightarrow> 'k zephyr \<Rightarrow> 'k zephyr \<times> int" where
  "zephyr_send K a x msg s =
     (let p = zport_of s a
      in if m_size msg > max_payload_size (a_cfg x) then (s, - EMSGSIZE)
         else
           (case zephyr_store_msg (z_slot_size p) (the (z_send_slot p)) msg of
              (sl, rc) \<Rightarrow>
                if rc = 0
                then (case k_msgq_put K a sl (kern s) of
                        (k, rc2) \<Rightarrow>
                          ((zset_port a (p\<lparr> z_send_slot := Some sl \<rparr>) s)\<lparr> kern := k \<rparr>,
                           if rc2 = 0 then 0 else - ENOMEM))
                else (s, - ENOMEM)))"

section \<open>Delayed sends\<close>

text \<open>
  The work handler; \<open>xs\<close> are the actor objects, which the handler reaches through \<open>owner\<close>.
\<close>

definition delayed_work_fn :: "'k kernel \<Rightarrow> (aptr \<Rightarrow> ipc_actor) \<Rightarrow> aptr \<Rightarrow> 'k zephyr \<Rightarrow> 'k zephyr" where
  "delayed_work_fn K xs a s =
     (let p = zport_of s a
      in case z_owner p of
           None \<Rightarrow> s
         | Some b \<Rightarrow>
             fst (zephyr_send K b (xs b) ((z_delayed_msg p)\<lparr> m_payload := z_delayed_payload p \<rparr>) s))"

text \<open>Cancel the work, then wait for a handler that is already running.\<close>

definition zephyr_cancel_delayed_send ::
    "'k kernel \<Rightarrow> (aptr \<Rightarrow> ipc_actor) \<Rightarrow> aptr \<Rightarrow> 'k zephyr \<Rightarrow> 'k zephyr" where
  "zephyr_cancel_delayed_send K xs a s =
     (let s1 = zkern (k_work_cancel_delayable K a) s
      in case k_work_flush K a (kern s1) of
           (busy, k) \<Rightarrow>
             (let s2 = s1\<lparr> kern := k \<rparr> in if busy then delayed_work_fn K xs a s2 else s2))"

definition zephyr_send_after ::
    "'k kernel \<Rightarrow> zephyr_config \<Rightarrow> (aptr \<Rightarrow> ipc_actor) \<Rightarrow> aptr \<Rightarrow> ipc_actor \<Rightarrow> ipc_msg \<Rightarrow> u32
     \<Rightarrow> 'k zephyr \<Rightarrow> 'k zephyr \<times> int" where
  "zephyr_send_after K c xs a x msg delay_ms s =
     (if \<not> CONFIG_ACTOR_SEND_AFTER c then (s, - ENOSYS)
      else if m_size msg > max_payload_size (a_cfg x) then (s, - EMSGSIZE)
      else
        (let s1 = zephyr_cancel_delayed_send K xs a s;
             p = zport_of s1 a;
             buf = copy_payload (the (z_delayed_payload p)) msg;
             s2 = zset_port a (p\<lparr> z_delayed_msg := msg\<lparr> m_payload := Some buf \<rparr>,
                                  z_delayed_payload := Some buf \<rparr>) s1
         in (zkern (k_work_reschedule K a delay_ms) s2, 0)))"

section \<open>Life cycle\<close>

definition zephyr_actor_init ::
    "'k kernel \<Rightarrow> zephyr_config \<Rightarrow> aptr \<Rightarrow> ipc_actor \<Rightarrow> 'k zephyr \<Rightarrow> 'k zephyr \<times> int" where
  "zephyr_actor_init K c a x s =
     (let p = zport_of s a
      in if \<not> z_stack p \<or> \<not> z_msgq_buf p \<or> z_stack_size p = 0 \<or> z_queue_depth p = 0
            \<or> z_slot_size p < IPC_MSG_SLOT_HEADER_SIZE \<or> z_send_slot p = None \<or> z_recv_slot p = None
         then (s, - EINVAL)
         else if stack_size (a_cfg x) \<noteq> z_stack_size p \<or> queue_depth (a_cfg x) \<noteq> z_queue_depth p
         then (s, - EINVAL)
         else
           (let s1 = zkern (k_msgq_init K a (z_slot_size p) (z_queue_depth p)) s
            in if CONFIG_ACTOR_SEND_AFTER c \<and> z_delayed_payload p = None then (s1, - EINVAL)
               else
                 (let s2 = (if CONFIG_ACTOR_SEND_AFTER c
                            then zkern (k_work_init_delayable K a)
                                   (zset_port a (p\<lparr> z_owner := Some a \<rparr>) s1)
                            else s1)
                  in (zkern (k_thread_create K a (priority (a_cfg x))) s2, 0))))"

definition zephyr_start :: "aptr \<Rightarrow> ipc_actor \<Rightarrow> 'k zephyr \<Rightarrow> 'k zephyr \<times> int" where
  "zephyr_start a x s = (s, 0)"

definition zephyr_stop_actor ::
    "'k kernel \<Rightarrow> zephyr_config \<Rightarrow> (aptr \<Rightarrow> ipc_actor) \<Rightarrow> aptr \<Rightarrow> 'k zephyr \<Rightarrow> 'k zephyr" where
  "zephyr_stop_actor K c xs a s =
     zkern (k_thread_abort K a)
       (if CONFIG_ACTOR_SEND_AFTER c then zephyr_cancel_delayed_send K xs a s else s)"

definition zephyr_restart_actor ::
    "'k kernel \<Rightarrow> zephyr_config \<Rightarrow> (aptr \<Rightarrow> ipc_actor) \<Rightarrow> aptr \<Rightarrow> 'k zephyr \<Rightarrow> 'k zephyr \<times> int" where
  "zephyr_restart_actor K c xs a s =
     (zkern (k_msgq_purge K a)
        (if CONFIG_ACTOR_SEND_AFTER c then zephyr_cancel_delayed_send K xs a s else s), 0)"

definition zephyr_run_all :: "'k zephyr \<Rightarrow> 'k zephyr \<times> int" where
  "zephyr_run_all s = (s, 0)"

definition zephyr_now_ms :: "'k kernel \<Rightarrow> 'k zephyr \<Rightarrow> u32" where
  "zephyr_now_ms K s = k_uptime_get_32 K (kern s)"

section \<open>Ask timers\<close>

definition zephyr_schedule_ask_timeout ::
    "'k kernel \<Rightarrow> zephyr_config \<Rightarrow> aptr \<Rightarrow> u32 \<Rightarrow> u32 \<Rightarrow> 'k zephyr \<Rightarrow> 'k zephyr \<times> int" where
  "zephyr_schedule_ask_timeout K c a ask_id timeout_ms s =
     (if \<not> CONFIG_ACTOR_ASK c then (s, - ENOSYS)
      else
        (case first_index (\<lambda>t. \<not> zt_used t) (z_ask_timeouts s) of
           None \<Rightarrow> (s, - ENOMEM)
         | Some i \<Rightarrow>
             (zkern (k_timer_schedule K i timeout_ms)
                (s\<lparr> z_ask_timeouts := (z_ask_timeouts s)
                      [i := \<lparr> zt_actor = a, zt_ask_id = ask_id, zt_used = True \<rparr>] \<rparr>), 0)))"

text \<open>
  The section of \<^verbatim>\<open>ask_timeout_work_fn\<close>: free the entry and read the ask it was for, which the caller
  then expires.
\<close>

definition ask_timeout_work_section :: "nat \<Rightarrow> 'k zephyr \<Rightarrow> (aptr \<times> u32) \<times> 'k zephyr" where
  "ask_timeout_work_section i s =
     (let t = z_ask_timeouts s ! i
      in ((zt_actor t, zt_ask_id t),
          s\<lparr> z_ask_timeouts := (z_ask_timeouts s)[i := t\<lparr> zt_used := False \<rparr>] \<rparr>))"

section \<open>The port\<close>

definition zephyr_port ::
    "'k kernel \<Rightarrow> zephyr_config \<Rightarrow> (aptr \<Rightarrow> ipc_actor) \<Rightarrow> 'k zephyr port_ops" where
  "zephyr_port K c xs =
     \<lparr> port_actor_init = zephyr_actor_init K c, port_start = zephyr_start,
       port_stop_actor = (\<lambda>a x. zephyr_stop_actor K c xs a),
       port_restart_actor = (\<lambda>a x. zephyr_restart_actor K c xs a),
       port_send = zephyr_send K, port_send_isr = zephyr_send K,
       port_send_after = zephyr_send_after K c xs,
       port_schedule_ask_timeout = (\<lambda>a x. zephyr_schedule_ask_timeout K c a),
       port_run_all = (\<lambda>as s. Some (zephyr_run_all s)), port_now_ms = zephyr_now_ms K \<rparr>"

lemma zephyr_port_simps [simp]:
  "port_actor_init (zephyr_port K c xs) = zephyr_actor_init K c"
  "port_start (zephyr_port K c xs) = zephyr_start"
  "port_stop_actor (zephyr_port K c xs) a x = zephyr_stop_actor K c xs a"
  "port_restart_actor (zephyr_port K c xs) a x = zephyr_restart_actor K c xs a"
  "port_send (zephyr_port K c xs) = zephyr_send K" "port_send_isr (zephyr_port K c xs) = zephyr_send K"
  "port_send_after (zephyr_port K c xs) = zephyr_send_after K c xs"
  "port_schedule_ask_timeout (zephyr_port K c xs) a x = zephyr_schedule_ask_timeout K c a"
  "port_run_all (zephyr_port K c xs) as s = Some (zephyr_run_all s)"
  "port_now_ms (zephyr_port K c xs) = zephyr_now_ms K"
  by (simp_all add: zephyr_port_def)

section \<open>What the port relies on\<close>

text \<open>
  \<open>cap k a\<close> is the capacity of the queue of \<open>a\<close> and \<open>Q k a\<close> its items, oldest first. The contract is
  the documented behaviour of \<^verbatim>\<open>k_msgq\<close>: initialising and purging empty the queue, a put without
  waiting copies the item to the back or fails when the queue is full, a get removes the item at
  the front. Threads, work items and timers do not reach the queues by themselves.
\<close>

definition keeps_queues ::
    "('k \<Rightarrow> aptr \<Rightarrow> nat) \<Rightarrow> ('k \<Rightarrow> aptr \<Rightarrow> slot list) \<Rightarrow> ('k \<Rightarrow> 'k) \<Rightarrow> bool" where
  "keeps_queues cap Q f \<longleftrightarrow> (\<forall>k. cap (f k) = cap k \<and> Q (f k) = Q k)"

definition msgq_contract ::
    "'k kernel \<Rightarrow> ('k \<Rightarrow> aptr \<Rightarrow> nat) \<Rightarrow> ('k \<Rightarrow> aptr \<Rightarrow> slot list) \<Rightarrow> bool" where
  "msgq_contract K cap Q \<longleftrightarrow>
     (\<forall>a n depth k. cap (k_msgq_init K a n depth k) = (cap k)(a := depth)
        \<and> Q (k_msgq_init K a n depth k) = (Q k)(a := []))
     \<and> (\<forall>a sl k. cap (fst (k_msgq_put K a sl k)) = cap k
        \<and> (if length (Q k a) < cap k a
           then snd (k_msgq_put K a sl k) = 0 \<and> Q (fst (k_msgq_put K a sl k)) = (Q k)(a := Q k a @ [sl])
           else snd (k_msgq_put K a sl k) \<noteq> 0 \<and> Q (fst (k_msgq_put K a sl k)) = Q k))
     \<and> (\<forall>a k. case k_msgq_get K a k of
          None \<Rightarrow> Q k a = []
        | Some (sl, k2) \<Rightarrow> Q k a = sl # Q k2 a \<and> Q k2 = (Q k)(a := Q k2 a) \<and> cap k2 = cap k)
     \<and> (\<forall>a k. cap (k_msgq_purge K a k) = cap k \<and> Q (k_msgq_purge K a k) = (Q k)(a := []))
     \<and> (\<forall>a n. keeps_queues cap Q (k_thread_create K a n) \<and> keeps_queues cap Q (k_thread_abort K a))
     \<and> (\<forall>a. keeps_queues cap Q (k_work_init_delayable K a)
        \<and> keeps_queues cap Q (k_work_cancel_delayable K a) \<and> keeps_queues cap Q (snd \<circ> k_work_flush K a))
     \<and> (\<forall>a n ms. keeps_queues cap Q (k_work_reschedule K a ms) \<and> keeps_queues cap Q (k_timer_schedule K n ms))"

lemma msgq_contractD:
  assumes "msgq_contract K cap Q"
  shows "cap (k_msgq_init K a n depth k) = (cap k)(a := depth)"
    "Q (k_msgq_init K a n depth k) = (Q k)(a := [])"
    "cap (fst (k_msgq_put K a sl k)) = cap k"
    "snd (k_msgq_put K a sl k) = 0 \<longleftrightarrow> length (Q k a) < cap k a"
    "Q (fst (k_msgq_put K a sl k)) = (if length (Q k a) < cap k a then (Q k)(a := Q k a @ [sl]) else Q k)"
    "k_msgq_get K a k = None \<longleftrightarrow> Q k a = []"
    "k_msgq_get K a k = Some (sl, k2) \<Longrightarrow> Q k a = sl # Q k2 a \<and> Q k2 = (Q k)(a := Q k2 a) \<and> cap k2 = cap k"
    "cap (k_msgq_purge K a k) = cap k" "Q (k_msgq_purge K a k) = (Q k)(a := [])"
proof -
  note C = assms [unfolded msgq_contract_def]
  have put: "cap (fst (k_msgq_put K a sl k)) = cap k
      \<and> (if length (Q k a) < cap k a
         then snd (k_msgq_put K a sl k) = 0 \<and> Q (fst (k_msgq_put K a sl k)) = (Q k)(a := Q k a @ [sl])
         else snd (k_msgq_put K a sl k) \<noteq> 0 \<and> Q (fst (k_msgq_put K a sl k)) = Q k)"
    using C by blast
  have get: "case k_msgq_get K a k of
          None \<Rightarrow> Q k a = []
        | Some (sl, k2) \<Rightarrow> Q k a = sl # Q k2 a \<and> Q k2 = (Q k)(a := Q k2 a) \<and> cap k2 = cap k"
    using C by blast
  show "cap (fst (k_msgq_put K a sl k)) = cap k"
    "snd (k_msgq_put K a sl k) = 0 \<longleftrightarrow> length (Q k a) < cap k a"
    "Q (fst (k_msgq_put K a sl k)) = (if length (Q k a) < cap k a then (Q k)(a := Q k a @ [sl]) else Q k)"
    using put by (simp_all split: if_splits)
  show "k_msgq_get K a k = None \<longleftrightarrow> Q k a = []"
    "k_msgq_get K a k = Some (sl, k2) \<Longrightarrow> Q k a = sl # Q k2 a \<and> Q k2 = (Q k)(a := Q k2 a) \<and> cap k2 = cap k"
    using get by (auto split: option.splits)
  show "cap (k_msgq_init K a n depth k) = (cap k)(a := depth)"
    "Q (k_msgq_init K a n depth k) = (Q k)(a := [])"
    "cap (k_msgq_purge K a k) = cap k" "Q (k_msgq_purge K a k) = (Q k)(a := [])"
    using C by blast+
qed

lemma msgq_contract_keeps:
  assumes "msgq_contract K cap Q"
  shows "cap (k_thread_create K a n k) = cap k" "Q (k_thread_create K a n k) = Q k"
    "cap (k_thread_abort K a k) = cap k" "Q (k_thread_abort K a k) = Q k"
    "cap (k_work_init_delayable K a k) = cap k" "Q (k_work_init_delayable K a k) = Q k"
    "cap (k_work_cancel_delayable K a k) = cap k" "Q (k_work_cancel_delayable K a k) = Q k"
    "cap (snd (k_work_flush K a k)) = cap k" "Q (snd (k_work_flush K a k)) = Q k"
    "cap (k_work_reschedule K a ms k) = cap k" "Q (k_work_reschedule K a ms k) = Q k"
    "cap (k_timer_schedule K i ms k) = cap k" "Q (k_timer_schedule K i ms k) = Q k"
  using assms by (auto simp: msgq_contract_def keeps_queues_def)

text \<open>The mailbox of an actor is its queue, once initialised with the configuration \<open>c\<close>.\<close>

definition zephyr_mail :: "('k \<Rightarrow> aptr \<Rightarrow> slot list) \<Rightarrow> 'k zephyr \<Rightarrow> aptr \<Rightarrow> ipc_msg list" where
  "zephyr_mail Q s a = map (\<lambda>sl. received (load_msg sl)) (Q (kern s) a)"

definition zephyr_ready ::
    "('k \<Rightarrow> aptr \<Rightarrow> nat) \<Rightarrow> ('k \<Rightarrow> aptr \<Rightarrow> slot list) \<Rightarrow> 'k zephyr \<Rightarrow> aptr \<Rightarrow> ipc_actor_cfg \<Rightarrow> bool" where
  "zephyr_ready cap Q s a c \<longleftrightarrow>
     (let p = zport_of s a; area = payload_area (z_slot_size p)
      in cap (kern s) a = queue_depth c \<and> length (Q (kern s) a) \<le> queue_depth c
         \<and> max_payload_size c \<le> area
         \<and> pred_option (\<lambda>sl. length (slot_bytes sl) = area) (z_send_slot p)
         \<and> z_send_slot p \<noteq> None \<and> z_recv_slot p \<noteq> None
         \<and> list_all (\<lambda>sl. length (slot_bytes sl) = area \<and> h_size sl \<le> area) (Q (kern s) a))"

text \<open>What \<^verbatim>\<open>IPC_ACTOR_DEFINE\<close> puts into the port state of an actor it declares.\<close>

definition zephyr_declared :: "'k zephyr \<Rightarrow> aptr \<Rightarrow> ipc_actor \<Rightarrow> bool" where
  "zephyr_declared s a x \<longleftrightarrow>
     z_slot_size (zport_of s a) = IPC_MSG_SLOT_SIZE (of_nat (max_payload_size (a_cfg x)))
     \<and> pred_option (\<lambda>sl. length (slot_bytes sl) = payload_area (z_slot_size (zport_of s a)))
         (z_send_slot (zport_of s a))"

lemma zephyr_ready_mail: "zephyr_ready cap Q s a c \<Longrightarrow> length (zephyr_mail Q s a) = length (Q (kern s) a)"
  by (simp add: zephyr_mail_def)

text \<open>A send either leaves the queues alone, or adds the written slot to the receiver's.\<close>

lemma zephyr_send_cases:
  assumes "msgq_contract K cap Q"
  defines "p s a \<equiv> zport_of s a"
  shows "m_size m > max_payload_size (a_cfg x) \<Longrightarrow> zephyr_send K a x m s = (s, - EMSGSIZE)"
    "m_size m \<le> max_payload_size (a_cfg x) \<Longrightarrow> payload_area (z_slot_size (p s a)) < m_size m \<Longrightarrow>
       zephyr_send K a x m s = (s, - ENOMEM)"
    "m_size m \<le> max_payload_size (a_cfg x) \<Longrightarrow> m_size m \<le> payload_area (z_slot_size (p s a)) \<Longrightarrow>
       zephyr_send K a x m s =
         ((zset_port a ((p s a)\<lparr> z_send_slot := Some (write_slot m (the (z_send_slot (p s a)))) \<rparr>) s)
            \<lparr> kern := fst (k_msgq_put K a (write_slot m (the (z_send_slot (p s a)))) (kern s)) \<rparr>,
          if length (Q (kern s) a) < cap (kern s) a then 0 else - ENOMEM)"
  using msgq_contractD(4) [OF assms(1), of a "write_slot m (the (z_send_slot (p s a)))" "kern s"]
  by (simp_all add: zephyr_send_def store_msg_def p_def Let_def case_prod_beta)

lemma zephyr_send_ready:
  assumes "msgq_contract K cap Q" "zephyr_ready cap Q s b c"
  shows "zephyr_ready cap Q (fst (zephyr_send K a x m s)) b c"
proof -
  consider "m_size m > max_payload_size (a_cfg x)"
    | "m_size m \<le> max_payload_size (a_cfg x)" "payload_area (z_slot_size (zport_of s a)) < m_size m"
    | "m_size m \<le> max_payload_size (a_cfg x)" "m_size m \<le> payload_area (z_slot_size (zport_of s a))"
    by linarith
  then show ?thesis
  proof cases
    case 3
    obtain sl where "a = b \<Longrightarrow> z_send_slot (zport_of s a) = Some sl"
      using assms(2) by (auto simp: zephyr_ready_def Let_def)
    with 3 assms(2) zephyr_send_cases(3) [OF assms(1) 3] show ?thesis
      by (auto simp: zephyr_ready_def Let_def msgq_contractD [OF assms(1)] write_slot_def length_copy_payload)
  qed (use assms(2) zephyr_send_cases [OF assms(1)] in simp_all)
qed

lemma zephyr_ready_same_queues:
  assumes "cap k = cap (kern s)" "Q k = Q (kern s)"
  shows "zephyr_ready cap Q (s\<lparr> kern := k \<rparr>) a c \<longleftrightarrow> zephyr_ready cap Q s a c"
    "zephyr_mail Q (s\<lparr> kern := k \<rparr>) = zephyr_mail Q s"
  using assms by (simp_all add: zephyr_ready_def zephyr_mail_def Let_def fun_eq_iff)

text \<open>The delayed-work handler and its cancellation keep every mailbox in order.\<close>

lemma delayed_work_ready:
  "msgq_contract K cap Q \<Longrightarrow> zephyr_ready cap Q s b c \<Longrightarrow> zephyr_ready cap Q (delayed_work_fn K xs a s) b c"
  by (simp add: delayed_work_fn_def zephyr_send_ready Let_def split: option.split)

lemma zephyr_cancel_ready:
  assumes "msgq_contract K cap Q" "zephyr_ready cap Q s b c"
  shows "zephyr_ready cap Q (zephyr_cancel_delayed_send K xs a s) b c"
proof -
  let ?k = "snd (k_work_flush K a (k_work_cancel_delayable K a (kern s)))"
  have "zephyr_ready cap Q (s\<lparr> kern := ?k \<rparr>) b c"
    using assms(2) by (subst zephyr_ready_same_queues) (simp_all add: msgq_contract_keeps [OF assms(1)])
  with delayed_work_ready [OF assms(1) this] show ?thesis
    by (simp add: zephyr_cancel_delayed_send_def Let_def case_prod_beta)
qed

lemma zephyr_restart_ready:
  assumes "msgq_contract K cap Q" "zephyr_ready cap Q s a c"
  shows "zephyr_ready cap Q (fst (zephyr_restart_actor K z xs a s)) a c"
    "zephyr_mail Q (fst (zephyr_restart_actor K z xs a s)) a = []"
proof -
  define t where "t = (if CONFIG_ACTOR_SEND_AFTER z then zephyr_cancel_delayed_send K xs a s else s)"
  have "zephyr_ready cap Q t a c" using assms by (simp add: t_def zephyr_cancel_ready)
  then show "zephyr_ready cap Q (fst (zephyr_restart_actor K z xs a s)) a c"
    "zephyr_mail Q (fst (zephyr_restart_actor K z xs a s)) a = []"
    by (simp_all add: zephyr_restart_actor_def zephyr_ready_def zephyr_mail_def Let_def
        msgq_contractD [OF assms(1)] flip: t_def)
qed

text \<open>Initialisation, in one equation.\<close>

definition zephyr_resources_ok :: "zephyr_port_state \<Rightarrow> ipc_actor_cfg \<Rightarrow> bool" where
  "zephyr_resources_ok p c \<longleftrightarrow>
     z_stack p \<and> z_msgq_buf p \<and> z_stack_size p \<noteq> 0 \<and> z_queue_depth p \<noteq> 0
     \<and> IPC_MSG_SLOT_HEADER_SIZE \<le> z_slot_size p \<and> z_send_slot p \<noteq> None \<and> z_recv_slot p \<noteq> None
     \<and> stack_size c = z_stack_size p \<and> queue_depth c = z_queue_depth p"

lemma zephyr_actor_init_cases:
  "\<not> zephyr_resources_ok (zport_of s a) (a_cfg x) \<Longrightarrow> zephyr_actor_init K z a x s = (s, - EINVAL)"
  "zephyr_resources_ok (zport_of s a) (a_cfg x) \<Longrightarrow> snd (zephyr_actor_init K z a x s)
     = (if CONFIG_ACTOR_SEND_AFTER z \<and> z_delayed_payload (zport_of s a) = None then - EINVAL else 0)"
  by (auto simp: zephyr_actor_init_def zephyr_resources_ok_def Let_def not_less)

lemma zephyr_actor_init_ready:
  assumes "msgq_contract K cap Q" "zephyr_declared s a x" "max_payload_size (a_cfg x) + 48 \<le> 2 ^ 64"
    and "snd (zephyr_actor_init K z a x s) = 0"
  shows "zephyr_ready cap Q (fst (zephyr_actor_init K z a x s)) a (a_cfg x)"
    "zephyr_mail Q (fst (zephyr_actor_init K z a x s)) a = []"
proof -
  have ok: "zephyr_resources_ok (zport_of s a) (a_cfg x)"
    using zephyr_actor_init_cases(1) [of s a x K z] assms(4) by fastforce
  define t where "t = fst (zephyr_actor_init K z a x s)"
  have eq: "zephyr_actor_init K z a x s =
      (let s1 = zkern (k_msgq_init K a (z_slot_size (zport_of s a)) (z_queue_depth (zport_of s a))) s
       in if CONFIG_ACTOR_SEND_AFTER z \<and> z_delayed_payload (zport_of s a) = None then (s1, - EINVAL)
          else
            (let s2 = (if CONFIG_ACTOR_SEND_AFTER z
                       then zkern (k_work_init_delayable K a)
                              (zset_port a ((zport_of s a)\<lparr> z_owner := Some a \<rparr>) s1)
                       else s1)
             in (zkern (k_thread_create K a (priority (a_cfg x))) s2, 0)))"
    using ok by (auto simp: zephyr_actor_init_def zephyr_resources_ok_def Let_def not_less)
  have queues: "cap (kern t) = (cap (kern s))(a := queue_depth (a_cfg x))" "Q (kern t) = (Q (kern s))(a := [])"
    using ok unfolding t_def eq
    by (simp_all add: Let_def zephyr_resources_ok_def msgq_contractD [OF assms(1)] msgq_contract_keeps [OF assms(1)])
  have port: "z_slot_size (zport_of t a) = z_slot_size (zport_of s a)"
    "z_send_slot (zport_of t a) = z_send_slot (zport_of s a)"
    "z_recv_slot (zport_of t a) = z_recv_slot (zport_of s a)"
    unfolding t_def eq by (simp_all add: Let_def)
  have "zephyr_ready cap Q t a (a_cfg x)"
    unfolding zephyr_ready_def Let_def queues port
    using ok assms(2) payload_area_slot_size [OF assms(3)]
    by (auto simp: zephyr_resources_ok_def zephyr_declared_def)
  moreover have "zephyr_mail Q t a = []" by (simp add: zephyr_mail_def queues)
  ultimately show "zephyr_ready cap Q (fst (zephyr_actor_init K z a x s)) a (a_cfg x)"
    "zephyr_mail Q (fst (zephyr_actor_init K z a x s)) a = []"
    by (simp_all add: t_def)
qed

text \<open>On every kernel that keeps the contract, the port keeps the contract of the core.\<close>

lemma zephyr_initialising_port:
  fixes K :: "'k kernel"
  assumes C: "msgq_contract K cap Q"
  shows "initialising_port (zephyr_port K z xs) (zephyr_ready cap Q) (zephyr_mail Q) zephyr_declared"
proof (unfold_locales, goal_cases)
  case (1 s a x m)
  then have fits: "m_size m \<le> payload_area (z_slot_size (zport_of s a))"
    and room: "length (Q (kern s) a) < cap (kern s) a"
    by (auto simp: zephyr_ready_def zephyr_mail_def Let_def)
  with 1 zephyr_send_cases(3) [OF C 1(3) fits] show ?case
    by (simp add: zephyr_mail_def msgq_contractD [OF C] received_load_write_slot)
next
  case (2 s a x m)
  then have fits: "m_size m \<le> payload_area (z_slot_size (zport_of s a))"
    and full: "\<not> length (Q (kern s) a) < cap (kern s) a"
    by (auto simp: zephyr_ready_def zephyr_mail_def Let_def)
  with 2 zephyr_send_cases(3) [OF C 2(2) fits] show ?case
    by (simp add: zephyr_mail_def msgq_contractD [OF C])
next
  case (3 b a x m s)
  consider "m_size m > max_payload_size (a_cfg x)"
    | "m_size m \<le> max_payload_size (a_cfg x)" "payload_area (z_slot_size (zport_of s a)) < m_size m"
    | "m_size m \<le> max_payload_size (a_cfg x)" "m_size m \<le> payload_area (z_slot_size (zport_of s a))"
    by linarith
  then show ?case
    using 3 by cases (simp_all add: zephyr_send_cases [OF C] zephyr_mail_def msgq_contractD [OF C])
next
  case (4 s a x b c m)
  then show ?case by (simp add: zephyr_send_ready [OF C])
next
  case 5
  then show ?case by simp
next
  case (6 s a c)
  then show ?case by (simp add: zephyr_ready_mail) (simp add: zephyr_ready_def Let_def)
next
  case (7 a x n ms s)
  then show ?case
    by (simp add: zephyr_schedule_ask_timeout_def zephyr_mail_def msgq_contract_keeps [OF C] fun_eq_iff
        split: option.split)
next
  case (8 s b c a x n ms)
  then show ?case
    by (simp add: zephyr_schedule_ask_timeout_def zephyr_ready_def msgq_contract_keeps [OF C] Let_def
        split: option.split)
next
  case (9 s a x)
  then show ?case using zephyr_restart_ready [OF C 9] by (simp add: zephyr_restart_actor_def)
next
  case (10 s a x)
  then show ?case using zephyr_actor_init_ready [OF C 10(1,3)] by simp
qed

section \<open>A started port\<close>

text \<open>
  A kernel that is nothing but its queues (capacity and items of each), and on it a started port
  whose actors have queues of two slots for 8-byte payloads.
\<close>

type_synonym queues = "aptr \<Rightarrow> nat \<times> slot list"

definition queue_kernel :: "queues kernel" where
  "queue_kernel =
     \<lparr> k_msgq_init = (\<lambda>a size depth k. k(a := (depth, []))),
       k_msgq_put = (\<lambda>a sl k. if length (snd (k a)) < fst (k a)
                              then (k(a := (fst (k a), snd (k a) @ [sl])), 0) else (k, - 80)),
       k_msgq_get = (\<lambda>a k. case snd (k a) of [] \<Rightarrow> None | sl # sls \<Rightarrow> Some (sl, k(a := (fst (k a), sls)))),
       k_msgq_purge = (\<lambda>a k. k(a := (fst (k a), []))),
       k_thread_create = (\<lambda>a prio k. k), k_thread_abort = (\<lambda>a k. k),
       k_work_init_delayable = (\<lambda>a k. k), k_work_cancel_delayable = (\<lambda>a k. k),
       k_work_flush = (\<lambda>a k. (False, k)), k_work_reschedule = (\<lambda>a ms k. k),
       k_timer_schedule = (\<lambda>i ms k. k), k_uptime_get_32 = (\<lambda>k. 0) \<rparr>"

lemma queue_kernel_contract: "msgq_contract queue_kernel (\<lambda>k a. fst (k a)) (\<lambda>k a. snd (k a))"
  unfolding msgq_contract_def
  by (intro conjI allI)
     (simp_all add: queue_kernel_def keeps_queues_def fun_eq_iff split: list.split)

definition ex_zephyr_config :: zephyr_config where
  "ex_zephyr_config = \<lparr> CONFIG_ACTOR_ASK = True, CONFIG_ACTOR_SEND_AFTER = True,
                       CONFIG_ACTOR_MAX_PENDING_ASK_TIMEOUTS = 1 \<rparr>"

definition ex_zephyr :: "queues zephyr" where
  "ex_zephyr = zephyr_initial ex_zephyr_config
     (\<lambda>a. (zephyr_actor_define_port ex_zephyr_config (\<lambda>n. n) 1024 2 8)\<lparr> z_owner := Some a \<rparr>) (\<lambda>a. (2, []))"

lemma ex_slot_size: "IPC_MSG_SLOT_SIZE 8 = 48"
  by (simp add: IPC_MSG_SLOT_SIZE_def slot_header_size IPC_ALIGN_UP_def alignof_max_align_t_def)

lemma ex_zephyr_ready:
  "queue_depth c = 2 \<Longrightarrow> max_payload_size c = 8 \<Longrightarrow>
     zephyr_ready (\<lambda>k a. fst (k a)) (\<lambda>k a. snd (k a)) ex_zephyr a c"
  by (simp add: zephyr_ready_def ex_zephyr_def zephyr_initial_def zephyr_actor_define_port_def Let_def
      payload_area_def slot_header_size ex_slot_size zero_slot_def)

lemma ex_zephyr_mail: "zephyr_mail (\<lambda>k a. snd (k a)) ex_zephyr a = []"
  by (simp add: zephyr_mail_def ex_zephyr_def zephyr_initial_def)

end
