(* ===== verification/Ports_Agree.thy ===== *)
theory Ports_Agree
  imports Posix_Delivery Test_Run Zephyr_Port
begin

text \<open>
  The three ports against one another: what the core's send paths do on the POSIX port is what they
  do on the deterministic test port, and on the Zephyr port over any kernel that keeps the queue
  contract. The proof is the contract's equations on either side, in a locale over two ports.
\<close>

section \<open>Corresponding states\<close>

text \<open>The same core state and equal mailboxes.\<close>

definition ports_correspond ::
    "('p \<Rightarrow> aptr \<Rightarrow> ipc_msg list) \<Rightarrow> ('q \<Rightarrow> aptr \<Rightarrow> ipc_msg list) \<Rightarrow> ('p, 'u) sys \<Rightarrow> ('q, 'v) sys \<Rightarrow> bool" where
  "ports_correspond mail mail2 s u \<longleftrightarrow>
     same_tables s u \<and> descs u = descs s \<and> actors u = actors s
     \<and> lifecycle_state u = lifecycle_state s
     \<and> (\<forall>a. mail2 (port_st u) a = mail (port_st s) a)"

text \<open>A send of a command or a publish of an event, its receivers, and when it is a valid call.\<close>

definition deliver ::
    "'p port_ops \<Rightarrow> bool \<Rightarrow> dptr \<Rightarrow> u8 list option \<Rightarrow> ('p, 'u) sys \<Rightarrow> int \<times> ('p, 'u) sys" where
  "deliver P cmd d payload s =
     (if cmd then ipc_send_raw P (Some d) payload s else ipc_publish_raw P (Some d) payload s)"

definition receivers :: "bool \<Rightarrow> dptr \<Rightarrow> ('p, 'u) sys \<Rightarrow> aptr set" where
  "receivers cmd d s =
     (if cmd then {a. cmd_route s d a} else set (subscribers (subs s) (eventual_id (descs s d))))"

definition deliverable :: "bool \<Rightarrow> dptr \<Rightarrow> ('p, 'u) sys \<Rightarrow> bool" where
  "deliverable cmd d s \<longleftrightarrow>
     (if cmd then \<exists>a. cmd_route s d a else d_kind (descs s d) = IPC_EVENT \<and> d_name (descs s d) \<noteq> None)"

lemma call_msg_cong: "descs u = descs s \<Longrightarrow> call_msg u d payload = call_msg s d payload"
  by (simp add: call_msg_def ipc_ensure_id_def split: option.split)

lemma cmd_route_cong:
  "same_tables s u \<Longrightarrow> descs u = descs s \<Longrightarrow> cmd_route u d a \<longleftrightarrow> cmd_route s d a"
  by (simp add: cmd_route_def find_registered_cong)

section \<open>Two ports\<close>

locale two_ports = p: mailbox_port P ready mail + q: mailbox_port P2 ready2 mail2
  for P :: "'p port_ops" and ready mail and P2 :: "'q port_ops" and ready2 mail2
begin

text \<open>The same delivery from corresponding states: code, mailboxes and drop counters agree.\<close>

lemma deliver_agree:
  assumes "ports_correspond mail mail2 s u" "tables_inv s" "msg_readable (call_msg s d payload)"
    and "deliverable cmd d s"
    and "\<forall>a \<in> receivers cmd d s. ready (port_st s) a (a_cfg (actors s a))
           \<and> ready2 (port_st u) a (a_cfg (actors s a))"
  shows "fst (deliver P cmd d payload s) = fst (deliver P2 cmd d payload u)
    \<and> (\<forall>b. mail (port_st (snd (deliver P cmd d payload s))) b
            = mail2 (port_st (snd (deliver P2 cmd d payload u))) b
          \<and> a_dropped_messages (actors (snd (deliver P cmd d payload s)) b)
            = a_dropped_messages (actors (snd (deliver P2 cmd d payload u)) b))"
proof -
  note same = assms(1) [unfolded ports_correspond_def]
  have eqs: "actors u = actors s" "descs u = descs s" "\<And>a. mail2 (port_st u) a = mail (port_st s) a"
    using same by simp_all
  have msg: "call_msg u d payload = call_msg s d payload" by (rule call_msg_cong [OF eqs(2)])
  show ?thesis
  proof (cases cmd)
    case True
    then obtain a where a: "cmd_route s d a" using assms(4) by (auto simp: deliverable_def)
    then have a2: "cmd_route u d a" using cmd_route_cong [of s u d a] same by simp
    have ready: "p.ready_in s a" "q.ready_in u a"
      using assms(5) a True by (simp_all add: eqs receivers_def)
    note p = p.send_raw_delivers [OF a ready(1) assms(3)]
    note q = q.send_raw_delivers [OF a2 ready(2), of payload, unfolded msg, OF assms(3)]
    from True show ?thesis by (simp add: deliver_def p(1-3) q(1-3) eqs)
  next
    case False
    then have d: "d_kind (descs s d) = IPC_EVENT" "d_name (descs s d) \<noteq> None"
      using assms(4) by (simp_all add: deliverable_def)
    then have d2: "d_kind (descs u d) = IPC_EVENT" "d_name (descs u d) \<noteq> None" by (simp_all add: eqs)
    have tabs: "tables_inv u" using tables_inv_cong [of s u] same assms(2) by simp
    have subs: "subs u = subs s" using same by (simp add: same_tables_def)
    have ready: "\<forall>a \<in> set (subscribers (subs s) (eventual_id (descs s d))). p.ready_in s a"
      "\<forall>a \<in> set (subscribers (subs u) (eventual_id (descs u d))). q.ready_in u a"
      using assms(5) False by (simp_all add: eqs subs receivers_def)
    note p = p.publish_raw_fans_out [OF d assms(2) ready(1) assms(3)]
    note q = q.publish_raw_fans_out [OF d2 tabs ready(2), of payload, unfolded msg, OF assms(3)]
    have code: "q.publish_code u m = p.publish_code s m" for m
      by (simp add: fun_eq_iff p.publish_code_def q.publish_code_def eqs)
    from False show ?thesis by (simp add: deliver_def p(1-3) q(1-3) eqs code subs)
  qed
qed

end

interpretation posix_test: two_ports posix_port posix_ready posix_mail the_test_port test_ready test_mail
  by unfold_locales

text \<open>A contract-keeping kernel makes the Zephyr port the second port.\<close>

lemma posix_zephyr_ports:
  assumes "msgq_contract K cap Q"
  shows "two_ports posix_port posix_ready posix_mail (zephyr_port K z xs) (zephyr_ready cap Q) (zephyr_mail Q)"
  using zephyr_initialising_port [OF assms] posix.mailbox_port_axioms
  by (intro two_ports.intro) (simp_all add: initialising_port_def)

section \<open>Properties\<close>

text \<open>
  C25: sends and publishes behave the same on the test port and on the POSIX port. From
  corresponding states, with the receivers initialised on both ports, \<^verbatim>\<open>ipc_send\<close> returns the same
  code and leaves equal mailboxes and equal drop counters, and so does \<^verbatim>\<open>ipc_publish\<close>.
\<close>

theorem ports_agree:
  assumes "ports_correspond posix_mail test_mail s u" "tables_inv s"
    and "msg_readable (call_msg s d payload)" "deliverable cmd d s"
    and "\<forall>a \<in> receivers cmd d s. posix_ready (port_st s) a (a_cfg (actors s a))
           \<and> test_ready (port_st u) a (a_cfg (actors s a))"
  shows "fst (deliver posix_port cmd d payload s) = fst (deliver the_test_port cmd d payload u)
    \<and> (\<forall>b. posix_mail (port_st (snd (deliver posix_port cmd d payload s))) b
            = test_mail (port_st (snd (deliver the_test_port cmd d payload u))) b
          \<and> a_dropped_messages (actors (snd (deliver posix_port cmd d payload s)) b)
            = a_dropped_messages (actors (snd (deliver the_test_port cmd d payload u)) b))"
  by (rule posix_test.deliver_agree [OF assms])

text \<open>
  C30: sends and publishes behave the same on the Zephyr port and on the POSIX port, whatever kernel
  the Zephyr port runs on, as long as its message queues keep their documented contract: the same
  code, the same mailboxes and the same drop counters from corresponding states.
\<close>

theorem zephyr_agrees:
  fixes K :: "'k kernel"
  assumes "msgq_contract K cap Q" "ports_correspond posix_mail (zephyr_mail Q) s u" "tables_inv s"
    and "msg_readable (call_msg s d payload)" "deliverable cmd d s"
    and "\<forall>a \<in> receivers cmd d s. posix_ready (port_st s) a (a_cfg (actors s a))
           \<and> zephyr_ready cap Q (port_st u) a (a_cfg (actors s a))"
  shows "fst (deliver posix_port cmd d payload s) = fst (deliver (zephyr_port K z xs) cmd d payload u)
    \<and> (\<forall>b. posix_mail (port_st (snd (deliver posix_port cmd d payload s))) b
            = zephyr_mail Q (port_st (snd (deliver (zephyr_port K z xs) cmd d payload u))) b
          \<and> a_dropped_messages (actors (snd (deliver posix_port cmd d payload s)) b)
            = a_dropped_messages (actors (snd (deliver (zephyr_port K z xs) cmd d payload u)) b))"
  by (rule two_ports.deliver_agree [OF posix_zephyr_ports [OF assms(1)] assms(2-6)])

section \<open>Concrete runs\<close>

text \<open>The example program on an empty test port.\<close>

definition ex_tested :: "(test_port, unit) sys" where
  "ex_tested = ex_running ((test_initial (\<lambda>_. True))
     \<lparr> actor_states := [(ex_test_state 1)\<lparr> ts_tail := 0, ts_count := 0 \<rparr>,
                        (ex_test_state 2)\<lparr> ts_tail := 0, ts_count := 0 \<rparr>] \<rparr>) ()"

lemma ex_tested_lookup:
  "lookup (port_st ex_tested) a
     = (if a \<in> {1, 2} then Some ((ex_test_state a)\<lparr> ts_tail := 0, ts_count := 0 \<rparr>) else None)"
  by (auto simp: ex_tested_def lookup_def ex_test_state_def new_state_def ex_defs)

lemma ex_tested_ready: "a \<in> {1, 2} \<Longrightarrow> test_ready (port_st ex_tested) a (a_cfg (actors ex_sys a))"
  unfolding test_ready_def ex_tested_lookup
  by (simp add: state_inv_def ex_test_state_def new_state_def ring_ok_def payload_area_def slot_header_size
      zero_slot_def IPC_MSG_SLOT_SIZE_def IPC_ALIGN_UP_def alignof_max_align_t_def ex_defs)

lemma ex_ports_correspond: "ports_correspond posix_mail test_mail ex_sys ex_tested"
proof -
  have "test_mail (port_st ex_tested) a = []" for a
    by (simp add: test_mail_def ex_tested_lookup state_mail_def ex_test_state_def new_state_def)
  then show ?thesis
    by (simp add: ports_correspond_def same_tables_def ex_sys_mail) (simp add: ex_tested_def ex_defs)
qed

lemma ex_deliverable: "deliverable False 1 ex_sys" "receivers False 1 ex_sys = {1, 2}"
  using ex_sys_descs(4,6)
  by (simp_all only: deliverable_def receivers_def ex_sys_subscribers [symmetric] if_False simp_thms list.set)

lemma ex_event_readable: "msg_readable (call_msg ex_sys 1 None)"
  by (simp add: msg_readable_def)

theorem ports_agree_witness:
  "fst (deliver posix_port False 1 None ex_sys) = fst (deliver the_test_port False 1 None ex_tested)"
proof -
  have "\<forall>a \<in> receivers False 1 ex_sys. posix_ready (port_st ex_sys) a (a_cfg (actors ex_sys a))
      \<and> test_ready (port_st ex_tested) a (a_cfg (actors ex_sys a))"
    unfolding ex_deliverable(2) using ex_tested_ready ex_sys_ready by simp
  from ports_agree [OF ex_ports_correspond ex_sys_tables ex_event_readable ex_deliverable(1) this]
  show ?thesis by (rule conjunct1)
qed

text \<open>The example program on the Zephyr port, over queues and nothing else.\<close>

theorem zephyr_agrees_witness:
  "fst (deliver posix_port False 1 None ex_sys)
     = fst (deliver (zephyr_port queue_kernel ex_zephyr_config ex_actors) False 1 None
              (ex_running ex_zephyr ()))"
proof -
  have corr: "ports_correspond posix_mail (zephyr_mail (\<lambda>k a. snd (k a))) ex_sys (ex_running ex_zephyr ())"
    by (simp add: ports_correspond_def same_tables_def ex_sys_mail)
       (simp add: ex_zephyr_mail ex_defs)
  have "\<forall>a \<in> receivers False 1 ex_sys. posix_ready (port_st ex_sys) a (a_cfg (actors ex_sys a))
      \<and> zephyr_ready (\<lambda>k a. fst (k a)) (\<lambda>k a. snd (k a)) (port_st (ex_running ex_zephyr ())) a
          (a_cfg (actors ex_sys a))"
    using ex_sys_ready ex_zephyr_ready by (simp add: ex_defs)
  from zephyr_agrees [OF queue_kernel_contract corr ex_sys_tables ex_event_readable ex_deliverable(1) this]
  show ?thesis by (rule conjunct1)
qed

end
