(* ===== verification/Zephyr_Run.thy ===== *)
theory Zephyr_Run
  imports Zephyr_Port Ask_Delivery
begin

text \<open>
  The running Zephyr port: the actor thread \<^verbatim>\<open>ipc_thread_fn\<close>, the mailbox as a FIFO under every
  sequence of sends and takes, the delayed-work handler after a send, the ask-timer work items, and
  the initialisation of the actors the macros declare.
\<close>

section \<open>The actor thread\<close>

text \<open>\<open>k_msgq_get\<close> into the receive slot, and \<^verbatim>\<open>load_msg\<close>.\<close>

definition zephyr_take :: "'k kernel \<Rightarrow> aptr \<Rightarrow> 'k zephyr \<Rightarrow> (ipc_msg \<times> 'k zephyr) option" where
  "zephyr_take K a s =
     (case k_msgq_get K a (kern s) of
        None \<Rightarrow> None
      | Some (sl, k) \<Rightarrow>
          Some (zephyr_load_msg sl,
                (zset_port a ((zport_of s a)\<lparr> z_recv_slot := Some sl \<rparr>) s)\<lparr> kern := k \<rparr>))"

text \<open>
  The inner loop takes without waiting until the queue is empty; its handlers may post, so it need
  not end. \<open>zephyr_thread_turn\<close> is the body of the outer loop, \<open>None\<close> when it blocks or does not end.
\<close>

partial_function (option) zephyr_drain ::
    "'k kernel \<Rightarrow> ('k zephyr, 'u) user_code \<Rightarrow> aptr \<Rightarrow> ('k zephyr, 'u) sys \<Rightarrow> ('k zephyr, 'u) sys option" where
  "zephyr_drain K U self s =
     (case zephyr_take K self (port_st s) of
        None \<Rightarrow> Some s
      | Some (msg, p) \<Rightarrow> zephyr_drain K U self (call_actor_handler U self msg (s\<lparr> port_st := p \<rparr>)))"

definition zephyr_thread_turn ::
    "'k kernel \<Rightarrow> ('k zephyr, 'u) user_code \<Rightarrow> aptr \<Rightarrow> ('k zephyr, 'u) sys \<Rightarrow> ('k zephyr, 'u) sys option" where
  "zephyr_thread_turn K U self s =
     (case zephyr_take K self (port_st s) of
        None \<Rightarrow> None
      | Some (msg, p) \<Rightarrow> zephyr_drain K U self (call_actor_handler U self msg (s\<lparr> port_st := p \<rparr>)))"

lemma zephyr_take_cases:
  assumes C: "msgq_contract K cap Q" and ready: "zephyr_ready cap Q s a c"
  shows "zephyr_take K a s = None \<longleftrightarrow> zephyr_mail Q s a = []"
    "zephyr_take K a s = Some (m, t) \<Longrightarrow>
       zephyr_mail Q s a = received m # zephyr_mail Q t a \<and> msg_readable m
       \<and> (\<forall>b. b \<noteq> a \<longrightarrow> zephyr_mail Q t b = zephyr_mail Q s b)
       \<and> (\<forall>b d. zephyr_ready cap Q s b d \<longrightarrow> zephyr_ready cap Q t b d)"
proof -
  show "zephyr_take K a s = None \<longleftrightarrow> zephyr_mail Q s a = []"
    using msgq_contractD(6) [OF C, of a "kern s"]
    by (auto simp: zephyr_take_def zephyr_mail_def split: option.split)
  assume "zephyr_take K a s = Some (m, t)"
  then obtain sl k where get: "k_msgq_get K a (kern s) = Some (sl, k)" and m: "m = load_msg sl"
    and t: "t = (zset_port a ((zport_of s a)\<lparr> z_recv_slot := Some sl \<rparr>) s)\<lparr> kern := k \<rparr>"
    by (auto simp: zephyr_take_def split: option.splits)
  note q = msgq_contractD(7) [OF C get]
  have "h_size sl \<le> length (slot_bytes sl)"
    using ready q by (auto simp: zephyr_ready_def Let_def)
  then have "msg_readable m" by (simp add: m load_msg_def msg_readable_def)
  moreover have "zephyr_mail Q t b = zephyr_mail Q s b" if "b \<noteq> a" for b
    using q that by (simp add: zephyr_mail_def t) (metis fun_upd_other)
  moreover have "zephyr_ready cap Q t b d" if "zephyr_ready cap Q s b d" for b d
  proof (cases "b = a")
    case True
    with that q show ?thesis by (auto simp: zephyr_ready_def Let_def t)
  next
    case False
    then have "Q k b = Q (kern s) b" using q by (metis fun_upd_other)
    with that q False show ?thesis by (simp add: zephyr_ready_def Let_def t)
  qed
  ultimately show "zephyr_mail Q s a = received m # zephyr_mail Q t a \<and> msg_readable m
       \<and> (\<forall>b. b \<noteq> a \<longrightarrow> zephyr_mail Q t b = zephyr_mail Q s b)
       \<and> (\<forall>b d. zephyr_ready cap Q s b d \<longrightarrow> zephyr_ready cap Q t b d)"
    using q by (simp add: zephyr_mail_def t m)
qed

text \<open>Whatever the handlers do, the inner loop ends only with an empty queue.\<close>

lemma zephyr_drain_empty:
  assumes "zephyr_drain K U self s = Some t"
  shows "zephyr_take K self (port_st t) = None"
  using assms
proof (induction rule: zephyr_drain.raw_induct [rotated, consumes 1, case_names step])
  case (step f K U self s t)
  then show ?case by (cases "zephyr_take K self (port_st s)") auto
qed

lemma zephyr_drain_quiet:
  assumes C: "msgq_contract K cap Q" and "posts_nothing U"
    and "zephyr_ready cap Q (port_st s) a c"
  shows "\<exists>t. zephyr_drain K U a s = Some t \<and> zephyr_mail Q (port_st t) a = []
    \<and> (\<forall>b. b \<noteq> a \<longrightarrow> zephyr_mail Q (port_st t) b = zephyr_mail Q (port_st s) b)"
  using assms(3)
proof (induction "length (zephyr_mail Q (port_st s) a)" arbitrary: s)
  case 0
  then have "zephyr_take K a (port_st s) = None"
    using zephyr_take_cases(1) [OF C 0(2)] by simp
  with 0 show ?case by (subst zephyr_drain.simps) simp
next
  case (Suc n)
  then obtain m p where take: "zephyr_take K a (port_st s) = Some (m, p)"
    using zephyr_take_cases(1) [OF C Suc.prems] by (cases "zephyr_take K a (port_st s)") auto
  note q = zephyr_take_cases(2) [OF C Suc.prems take]
  let ?u = "call_actor_handler U a m (s\<lparr> port_st := p \<rparr>)"
  have u: "port_st ?u = p" using call_actor_handler_quiet [OF assms(2), of a m "s\<lparr> port_st := p \<rparr>"] by simp
  have "n = length (zephyr_mail Q (port_st ?u) a)" using q Suc.hyps(2) by (simp add: u)
  moreover have "zephyr_ready cap Q (port_st ?u) a c" using q Suc.prems by (simp add: u)
  ultimately obtain t where "zephyr_drain K U a ?u = Some t" "zephyr_mail Q (port_st t) a = []"
    "\<forall>b. b \<noteq> a \<longrightarrow> zephyr_mail Q (port_st t) b = zephyr_mail Q p b"
    using Suc.hyps(1) [of ?u] u by auto
  with q show ?case by (subst zephyr_drain.simps) (simp add: take)
qed

section \<open>The mailbox as a FIFO\<close>

text \<open>
  Sends of any thread and takes of the actor's thread are each atomic (the send lock, the queue's own
  lock), so they interleave as a history of the contract.
\<close>

lemma zephyr_mailbox_port:
  "msgq_contract K cap Q \<Longrightarrow> mailbox_port (zephyr_port K z xs) (zephyr_ready cap Q) (zephyr_mail Q)"
  using zephyr_initialising_port by (rule initialising_port.axioms(1))

lemma zephyr_bounded_fifo:
  assumes C: "msgq_contract K cap Q"
  shows "bounded_fifo (\<lambda>s. zephyr_ready cap Q s a (a_cfg x)) (\<lambda>s. zephyr_mail Q s a)
     (\<lambda>s. queue_depth (a_cfg x)) (\<lambda>s m. m_size m \<le> max_payload_size (a_cfg x))
     (zephyr_send K a x) (zephyr_take K a)"
proof -
  note port = zephyr_mailbox_port [OF C, of undefined undefined]
  show ?thesis
  proof (unfold_locales, goal_cases)
    case (1 s m)
    then show ?case by (rule zephyr_send_ready [OF C])
  next
    case (4 s m)
    then show ?case using mailbox_port.send_accepted [OF port, of s a x m] by simp
  next
    case (5 s m)
    then show ?case
      using mailbox_port.send_full [OF port, of s a x m] zephyr_send_cases(1) [OF C, of x m a s]
      by (cases "m_size m \<le> max_payload_size (a_cfg x)") simp_all
  next
    case (6 s)
    then show ?case by (rule mailbox_port.mail_bounded [OF port])
  next
    case (7 s)
    then show ?case by (rule zephyr_take_cases(1) [OF C])
  next
    case (8 s m t)
    then show ?case using zephyr_take_cases(2) [OF C 8] by blast
  qed simp_all
qed

section \<open>Timers\<close>

text \<open>The work function of the \<open>i\<close>-th ask timer: its section, then the expiry of the ask it was for.\<close>

definition ask_timeout_work_fn ::
    "'k kernel \<Rightarrow> zephyr_config \<Rightarrow> nat \<Rightarrow> ('k zephyr, 'u) sys \<Rightarrow> ('k zephyr, 'u) sys" where
  "ask_timeout_work_fn K c i s =
     (case ask_timeout_work_section i (port_st s) of
        ((actor, ask_id), p) \<Rightarrow>
          ipc_ask_timeout_expired (zephyr_port K c (actors s)) actor ask_id (s\<lparr> port_st := p \<rparr>))"

definition timers_used :: "'k zephyr \<Rightarrow> nat set" where
  "timers_used s = {i. i < length (z_ask_timeouts s) \<and> zt_used (z_ask_timeouts s ! i)}"

lemma timers_used_bound: "timers_used s \<subseteq> {..<length (z_ask_timeouts s)}" "finite (timers_used s)"
  by (auto simp: timers_used_def)

lemma no_free_timer_iff:
  "first_index (\<lambda>t. \<not> zt_used t) (z_ask_timeouts s) = None
     \<longleftrightarrow> timers_used s = {..<length (z_ask_timeouts s)}"
  unfolding first_index_None_iff all_set_conv_all_nth timers_used_def set_eq_iff by auto

lemma timeout_expired_timers:
  "z_ask_timeouts (port_st (ipc_ask_timeout_expired (zephyr_port K c xs) a n s)) = z_ask_timeouts (port_st s)"
proof -
  have send: "z_ask_timeouts (port_st (snd (ipc_port_send (zephyr_port K c xs) a m u))) = z_ask_timeouts (port_st u)"
    for m and u :: "('a zephyr, 'b) sys"
    by (simp add: ipc_port_send_def on_port_result zephyr_send_def Let_def case_prod_beta)
  have sections: "port_st (expire_undo_section a n u) = port_st u" "port_st (snd (expire_section a n u)) = port_st u"
    for u :: "('a zephyr, 'b) sys"
    by (simp_all add: expire_undo_section_def expire_section_def Let_def split: option.split)
  show ?thesis
    by (cases "expire_section a n s")
       (use sections(2) [of s] in \<open>auto simp: ipc_ask_timeout_expired_def sections send case_prod_beta split: bool.split\<close>)
qed

lemma zephyr_schedule_cases:
  assumes "CONFIG_ACTOR_ASK c"
  shows "timers_used s = {..<length (z_ask_timeouts s)} \<Longrightarrow>
      zephyr_schedule_ask_timeout K c a n ms s = (s, - ENOMEM)"
    "timers_used s \<noteq> {..<length (z_ask_timeouts s)} \<Longrightarrow>
      \<exists>i t. zephyr_schedule_ask_timeout K c a n ms s = (t, 0) \<and> i \<notin> timers_used s
        \<and> i < length (z_ask_timeouts s) \<and> timers_used t = insert i (timers_used s)
        \<and> z_ask_timeouts t = (z_ask_timeouts s)[i := \<lparr> zt_actor = a, zt_ask_id = n, zt_used = True \<rparr>]
        \<and> zport_of t = zport_of s \<and> kern t = k_timer_schedule K i ms (kern s)"
proof -
  assume "timers_used s = {..<length (z_ask_timeouts s)}"
  then have "first_index (\<lambda>t. \<not> zt_used t) (z_ask_timeouts s) = None" by (simp only: no_free_timer_iff)
  with assms show "zephyr_schedule_ask_timeout K c a n ms s = (s, - ENOMEM)"
    by (simp add: zephyr_schedule_ask_timeout_def)
next
  assume "timers_used s \<noteq> {..<length (z_ask_timeouts s)}"
  then have "first_index (\<lambda>t. \<not> zt_used t) (z_ask_timeouts s) \<noteq> None" by (simp only: no_free_timer_iff) simp
  then obtain i where i: "first_index (\<lambda>t. \<not> zt_used t) (z_ask_timeouts s) = Some i" by blast
  note at = first_index_SomeD [OF i]
  let ?t = "zkern (k_timer_schedule K i ms) (s\<lparr> z_ask_timeouts := (z_ask_timeouts s)
                      [i := \<lparr> zt_actor = a, zt_ask_id = n, zt_used = True \<rparr>] \<rparr>)"
  have "zephyr_schedule_ask_timeout K c a n ms s = (?t, 0)"
    using assms i by (simp add: zephyr_schedule_ask_timeout_def)
  moreover have "timers_used ?t = insert i (timers_used s)"
    using at by (auto simp: timers_used_def nth_list_update)
  ultimately show "\<exists>i t. zephyr_schedule_ask_timeout K c a n ms s = (t, 0) \<and> i \<notin> timers_used s
        \<and> i < length (z_ask_timeouts s) \<and> timers_used t = insert i (timers_used s)
        \<and> z_ask_timeouts t = (z_ask_timeouts s)[i := \<lparr> zt_actor = a, zt_ask_id = n, zt_used = True \<rparr>]
        \<and> zport_of t = zport_of s \<and> kern t = k_timer_schedule K i ms (kern s)"
    using at by (intro exI [of _ i] exI [of _ ?t]) (simp add: timers_used_def)
qed

section \<open>Delayed messages\<close>

text \<open>What a delayed message consists of; sends and takes leave it alone.\<close>

definition same_delayed :: "aptr \<Rightarrow> 'k zephyr \<Rightarrow> 'k zephyr \<Rightarrow> bool" where
  "same_delayed a s t \<longleftrightarrow>
     z_owner (zport_of t a) = z_owner (zport_of s a)
     \<and> z_delayed_msg (zport_of t a) = z_delayed_msg (zport_of s a)
     \<and> z_delayed_payload (zport_of t a) = z_delayed_payload (zport_of s a)"

lemma same_delayed_send: "same_delayed a s (fst (zephyr_send K b x m s))"
  by (simp add: same_delayed_def zephyr_send_def Let_def case_prod_beta)

lemma same_delayed_take: "zephyr_take K b s = Some (m, t) \<Longrightarrow> same_delayed a s t"
  by (auto simp: same_delayed_def zephyr_take_def split: option.splits)

lemma same_delayed_cancel: "same_delayed a s (zephyr_cancel_delayed_send K xs b s)"
proof -
  have work: "same_delayed a u (delayed_work_fn K xs b u)" for u
  proof (cases "z_owner (zport_of u b)")
    case None
    then show ?thesis by (simp add: delayed_work_fn_def same_delayed_def)
  next
    case (Some c)
    then show ?thesis by (simp add: delayed_work_fn_def same_delayed_send Let_def)
  qed
  let ?u = "s\<lparr> kern := snd (k_work_flush K b (k_work_cancel_delayable K b (kern s))) \<rparr>"
  have "same_delayed a s ?u" "same_delayed a s (delayed_work_fn K xs b ?u)"
    using work [of ?u] by (simp_all add: same_delayed_def)
  then show ?thesis by (simp add: zephyr_cancel_delayed_send_def Let_def case_prod_beta)
qed

text \<open>The state a successful \<^verbatim>\<open>ipc_port_send_after\<close> leaves.\<close>

lemma zephyr_send_after_state:
  fixes xs :: "aptr \<Rightarrow> ipc_actor" and ms :: u32
  assumes C: "msgq_contract K cap Q" and "CONFIG_ACTOR_SEND_AFTER c" "m_size m \<le> max_payload_size (a_cfg x)"
    and "z_delayed_payload (zport_of s a) = Some buf"
  defines "s1 \<equiv> zephyr_cancel_delayed_send K xs a s" and "t \<equiv> fst (zephyr_send_after K c xs a x m ms s)"
  shows "snd (zephyr_send_after K c xs a x m ms s) = 0"
    "z_delayed_payload (zport_of t a) = Some (copy_payload buf m)"
    "z_delayed_msg (zport_of t a) = m\<lparr> m_payload := Some (copy_payload buf m) \<rparr>"
    "z_owner (zport_of t a) = z_owner (zport_of s a)"
    "zephyr_mail Q t = zephyr_mail Q s1"
    "zephyr_ready cap Q s1 b d \<Longrightarrow> zephyr_ready cap Q t b d"
proof -
  have buf: "z_delayed_payload (zport_of s1 a) = Some buf" "z_owner (zport_of s1 a) = z_owner (zport_of s a)"
    using same_delayed_cancel [of a s K xs a] assms(4) by (simp_all add: s1_def same_delayed_def)
  have eq: "zephyr_send_after K c xs a x m ms s =
      (zkern (k_work_reschedule K a ms)
         (zset_port a ((zport_of s1 a)\<lparr> z_delayed_msg := m\<lparr> m_payload := Some (copy_payload buf m) \<rparr>,
                        z_delayed_payload := Some (copy_payload buf m) \<rparr>) s1), 0)"
    using assms(2,3) buf(1) by (simp add: zephyr_send_after_def Let_def s1_def)
  show "snd (zephyr_send_after K c xs a x m ms s) = 0"
    "z_delayed_payload (zport_of t a) = Some (copy_payload buf m)"
    "z_delayed_msg (zport_of t a) = m\<lparr> m_payload := Some (copy_payload buf m) \<rparr>"
    "z_owner (zport_of t a) = z_owner (zport_of s a)"
    "zephyr_mail Q t = zephyr_mail Q s1"
    by (simp_all add: t_def eq buf zephyr_mail_def fun_eq_iff msgq_contract_keeps [OF C])
  show "zephyr_ready cap Q s1 b d \<Longrightarrow> zephyr_ready cap Q t b d"
    by (cases "b = a") (simp_all add: t_def eq zephyr_ready_def Let_def msgq_contract_keeps [OF C])
qed

text \<open>The work handler posts the delayed message to its owner's mailbox.\<close>

lemma delayed_work_posts:
  assumes C: "msgq_contract K cap Q" and "z_owner (zport_of u a) = Some a"
    and "z_delayed_payload (zport_of u a) = Some buf" "z_delayed_msg (zport_of u a) = m\<lparr> m_payload := Some buf \<rparr>"
    and "m_size m \<le> length buf" "m_size m \<le> max_payload_size (a_cfg (xs a))" "zephyr_ready cap Q u a (a_cfg (xs a))"
  shows "zephyr_mail Q (delayed_work_fn K xs a u) a = zephyr_mail Q u a
      @ (if length (zephyr_mail Q u a) < queue_depth (a_cfg (xs a))
         then [received (m\<lparr> m_payload := Some buf \<rparr>)] else [])"
proof -
  have "msg_readable (m\<lparr> m_payload := Some buf \<rparr>)" using assms(5) by (simp add: msg_readable_def)
  with mailbox_port.send_cases(2) [OF zephyr_mailbox_port [OF C], of u a "xs a" "m\<lparr> m_payload := Some buf \<rparr>" undefined undefined a]
    assms(2-4,6,7)
  show ?thesis by (simp add: delayed_work_fn_def)
qed

lemma zephyr_send_after_posts:
  fixes K :: "'k kernel"
  assumes "msgq_contract K cap Q" "CONFIG_ACTOR_SEND_AFTER c" "msg_readable m"
    and "m_size m \<le> max_payload_size (a_cfg (xs a))" "z_owner (zport_of s a) = Some a"
    and "z_delayed_payload (zport_of s a) = Some buf" "max_payload_size (a_cfg (xs a)) \<le> length buf"
    and "zephyr_ready cap Q s a (a_cfg (xs a))"
    and "zephyr_send_after K c xs a (xs a) m ms s = (t, rc)"
  shows "rc = 0 \<and> zephyr_ready cap Q t a (a_cfg (xs a))
    \<and> zephyr_mail Q t = zephyr_mail Q (zephyr_cancel_delayed_send K xs a s)
    \<and> (\<forall>u. zephyr_ready cap Q u a (a_cfg (xs a)) \<and> same_delayed a t u \<longrightarrow>
         zephyr_mail Q (delayed_work_fn K xs a u) a
           = zephyr_mail Q u a
             @ (if length (zephyr_mail Q u a) < queue_depth (a_cfg (xs a)) then [received m] else []))"
proof -
  note st = zephyr_send_after_state [OF assms(1,2,4,6), where xs = xs and ms = ms, unfolded assms(9) fst_conv snd_conv]
  have fits: "m_size m \<le> length buf" using assms(4,7) by linarith
  let ?m = "m\<lparr> m_payload := Some (copy_payload buf m) \<rparr>"
  have "msg_bytes ?m = msg_bytes m"
    using take_copy_payload [OF assms(3), of buf] by (simp add: msg_bytes_def)
  then have same: "received ?m = received m" by (simp add: received_def)
  have "zephyr_mail Q (delayed_work_fn K xs a u) a
      = zephyr_mail Q u a
        @ (if length (zephyr_mail Q u a) < queue_depth (a_cfg (xs a)) then [received m] else [])"
    if "zephyr_ready cap Q u a (a_cfg (xs a))" "same_delayed a t u" for u
    using delayed_work_posts [OF assms(1), of u a "copy_payload buf m" m xs] that st(2-4) assms(4,5) fits
    by (simp add: same_delayed_def same length_copy_payload)
  with st(1,5) st(6) [OF zephyr_cancel_ready [OF assms(1,8)]] show ?thesis by blast
qed

section \<open>Properties\<close>

text \<open>
  C31: the mailbox of an actor on Zephyr is a bounded FIFO, on every kernel whose message queues keep
  their documented contract. In every sequence of sends to the actor and takes by its thread, the
  messages taken and those still queued are exactly the accepted ones after those queued at first,
  in order, and there are never more queued than its configured depth.
\<close>

theorem zephyr_mailbox_fifo:
  fixes K :: "'k kernel"
  assumes "msgq_contract K cap Q" "zephyr_ready cap Q s a (a_cfg x)"
    and "bounded_fifo.history (zephyr_send K a x) (zephyr_take K a) s sends taken t"
  shows "taken @ zephyr_mail Q t a
      = zephyr_mail Q s a @ map (received \<circ> fst) (filter (\<lambda>(m, rc). rc = 0) sends)
    \<and> length (zephyr_mail Q t a) \<le> queue_depth (a_cfg x)"
  using bounded_fifo.history_fifo [OF zephyr_bounded_fifo [OF assms(1)] assms(3,2)]
    bounded_fifo.history_bounded [OF zephyr_bounded_fifo [OF assms(1)] assms(3,2)]
  by simp

text \<open>
  C32: a turn of the Zephyr actor thread empties the mailbox. The thread blocks exactly when its
  mailbox is empty; if its handlers post nothing, the turn ends with the mailbox empty and the other
  mailboxes as they were; and whatever the handlers do, a turn that ends leaves nothing to take.
\<close>

theorem zephyr_thread_turn_drains:
  fixes K :: "'k kernel" and U :: "('k zephyr, 'u) user_code"
  assumes "msgq_contract K cap Q" "zephyr_ready cap Q (port_st s) a c"
  shows "(zephyr_mail Q (port_st s) a = [] \<longrightarrow> zephyr_thread_turn K U a s = None)
    \<and> (\<forall>t. zephyr_thread_turn K U a s = Some t \<longrightarrow> zephyr_take K a (port_st t) = None)
    \<and> (zephyr_mail Q (port_st s) a \<noteq> [] \<and> posts_nothing U \<longrightarrow>
         (\<exists>t. zephyr_thread_turn K U a s = Some t \<and> zephyr_mail Q (port_st t) a = []
            \<and> (\<forall>b. b \<noteq> a \<longrightarrow> zephyr_mail Q (port_st t) b = zephyr_mail Q (port_st s) b)))"
proof -
  note take = zephyr_take_cases(1) [OF assms]
  have "zephyr_take K a (port_st t) = None" if "zephyr_thread_turn K U a s = Some t" for t
    using that zephyr_drain_empty by (auto simp: zephyr_thread_turn_def split: option.splits)
  moreover have "zephyr_thread_turn K U a s = zephyr_drain K U a s"
    if "zephyr_mail Q (port_st s) a \<noteq> []"
    using that take by (subst zephyr_drain.simps) (simp add: zephyr_thread_turn_def split: option.split)
  moreover have "zephyr_thread_turn K U a s = None" if "zephyr_mail Q (port_st s) a = []"
    using that take by (simp add: zephyr_thread_turn_def)
  ultimately show ?thesis using zephyr_drain_quiet [OF assms(1) _ assms(2), of U] by auto
qed


text \<open>
  The actors the macros declare initialise, and nothing else does. For an actor and port state of
  \<^verbatim>\<open>IPC_ACTOR_DEFINE\<close> with a usable stack and at least one slot, \<^verbatim>\<open>ipc_port_actor_init\<close> returns 0 and
  leaves an empty mailbox of the declared depth for payloads of the declared size; with any other
  stack size or queue depth in the configuration it returns \<^verbatim>\<open>-EINVAL\<close> before it touches the kernel.
\<close>

theorem zephyr_declared_actor_starts:
  fixes K :: "'k kernel"
  assumes "msgq_contract K cap Q" "x = ZEPHYR_ACTOR_DEFINE usable name stack_sz prio qdepth max_payload"
    and "zport_of s a = zephyr_actor_define_port c usable stack_sz qdepth max_payload"
    and "0 < usable stack_sz" "0 < qdepth" "max_payload + 48 \<le> 2 ^ 64"
    and "zephyr_actor_init K c a x s = (t, rc)"
  shows "rc = 0 \<and> zephyr_ready cap Q t a (a_cfg x) \<and> zephyr_mail Q t a = []
    \<and> (\<forall>y. stack_size (a_cfg y) \<noteq> usable stack_sz \<or> queue_depth (a_cfg y) \<noteq> qdepth \<longrightarrow>
         zephyr_actor_init K c a y s = (s, - EINVAL))"
proof -
  have cfg: "a_cfg x = \<lparr> stack_size = usable stack_sz, priority = prio, queue_depth = qdepth,
                        max_payload_size = max_payload \<rparr>"
    by (simp add: assms(2) ZEPHYR_ACTOR_DEFINE_def IPC_ACTOR_DEFINE_def)
  have port: "z_stack_size (zport_of s a) = usable stack_sz" "z_queue_depth (zport_of s a) = qdepth"
    "z_slot_size (zport_of s a) = IPC_MSG_SLOT_SIZE (of_nat max_payload)"
    "z_send_slot (zport_of s a) = Some (zero_slot (payload_area (IPC_MSG_SLOT_SIZE (of_nat max_payload))))"
    "z_recv_slot (zport_of s a) \<noteq> None" "z_stack (zport_of s a)" "z_msgq_buf (zport_of s a)"
    "CONFIG_ACTOR_SEND_AFTER c \<Longrightarrow> z_delayed_payload (zport_of s a) \<noteq> None"
    by (simp_all add: assms(3) zephyr_actor_define_port_def Let_def)
  have "IPC_MSG_SLOT_HEADER_SIZE \<le> IPC_MSG_SLOT_SIZE (of_nat max_payload)"
    using ipc_msg_slot_size_unat [OF assms(6)] round_up_bounds(2) [of 16 "32 + max_payload"]
    by (simp add: word_le_nat_alt slot_header_size)
  with port assms(4,5) have "zephyr_resources_ok (zport_of s a) (a_cfg x)"
    by (simp add: zephyr_resources_ok_def cfg)
  then have rc: "rc = 0"
    using zephyr_actor_init_cases(2) [of s a x K c] port(8) assms(7) by auto
  have "zephyr_declared s a x" by (simp add: zephyr_declared_def port(3,4) cfg zero_slot_def)
  from zephyr_actor_init_ready [OF assms(1) this, where z = c] assms(6,7) rc
  have "zephyr_ready cap Q t a (a_cfg x)" "zephyr_mail Q t a = []" by (simp_all add: cfg)
  moreover have "zephyr_actor_init K c a y s = (s, - EINVAL)"
    if "stack_size (a_cfg y) \<noteq> usable stack_sz \<or> queue_depth (a_cfg y) \<noteq> qdepth" for y
    using that port(1,2) zephyr_actor_init_cases(1) [of s a y K c] by (auto simp: zephyr_resources_ok_def)
  ultimately show ?thesis using rc by blast
qed

text \<open>
  C34: ask timers on Zephyr come from a fixed pool and are returned to it only by firing. Scheduling
  returns 0 exactly when an entry is free, which it takes for this ask alone, and otherwise
  \<^verbatim>\<open>-ENOMEM\<close> without changing anything. When the entry fires it is free again; the timeout of an ask
  that is still open is queued at the back of the asker's mailbox, or lost with the entry of the ask
  open again when the mailbox is full; for an ask that has ended, only the entry is freed. So the
  entry of an answered ask stays taken until its timeout has passed.
\<close>

theorem zephyr_ask_timer_pool:
  fixes K :: "'k kernel"
  assumes "msgq_contract K cap Q" "CONFIG_ACTOR_ASK c" "ask_inv s" "IPC_CONFIG_ENABLE_ASK (conf s)"
    and "i \<in> timers_used (port_st s)" "z_ask_timeouts (port_st s) ! i = timer"
    and "a = zt_actor timer" "n = zt_ask_id timer" "t = ask_timeout_work_fn K c i s"
    and "zephyr_ready cap Q (port_st s) a (a_cfg (actors s a))"
    and "room = (length (zephyr_mail Q (port_st s) a) < queue_depth (a_cfg (actors s a)))"
  shows "(\<forall>p b k ms. snd (zephyr_schedule_ask_timeout K c b k ms p)
            = (if timers_used p = {..<length (z_ask_timeouts p)} then - ENOMEM else 0)
          \<and> card (timers_used (fst (zephyr_schedule_ask_timeout K c b k ms p)))
            = card (timers_used p) + (if timers_used p = {..<length (z_ask_timeouts p)} then 0 else 1))
    \<and> timers_used (port_st t) = timers_used (port_st s) - {i}
    \<and> (\<forall>j. pending_at s n j \<and> q_actor (ask_table s ! j) = a \<and> \<not> q_timeout_queued (ask_table s ! j) \<longrightarrow>
         zephyr_mail Q (port_st t) a
           = zephyr_mail Q (port_st s) a @ (if room then [received (timeout_msg n)] else [])
         \<and> ask_table t = (ask_table s)
             [j := (ask_table s ! j)\<lparr> q_reply_sent := room, q_timeout_queued := room \<rparr>])
    \<and> (find_pending_ask n s = None \<longrightarrow>
         ask_table t = ask_table s \<and> zephyr_mail Q (port_st t) = zephyr_mail Q (port_st s))"
proof -
  have pool: "snd (zephyr_schedule_ask_timeout K c b k ms p)
            = (if timers_used p = {..<length (z_ask_timeouts p)} then - ENOMEM else 0)
          \<and> card (timers_used (fst (zephyr_schedule_ask_timeout K c b k ms p)))
            = card (timers_used p) + (if timers_used p = {..<length (z_ask_timeouts p)} then 0 else 1)"
    for p b k ms
    using zephyr_schedule_cases [OF assms(2), of p K b k ms] timers_used_bound(2) [of p]
    by (cases "timers_used p = {..<length (z_ask_timeouts p)}") auto
  define q where "q = (port_st s)\<lparr> z_ask_timeouts := (z_ask_timeouts (port_st s))[i := timer\<lparr> zt_used := False \<rparr>] \<rparr>"
  let ?s = "s\<lparr> port_st := q \<rparr>"
  let ?P = "zephyr_port K c (actors s)"
  have t: "t = ipc_ask_timeout_expired ?P a n ?s"
    using assms(6-9) by (simp add: ask_timeout_work_fn_def ask_timeout_work_section_def Let_def q_def)
  have same: "zephyr_mail Q q = zephyr_mail Q (port_st s)"
    "zephyr_ready cap Q q b d = zephyr_ready cap Q (port_st s) b d" for b d
    by (simp_all add: fun_eq_iff zephyr_mail_def zephyr_ready_def q_def Let_def)
  have used: "timers_used q = timers_used (port_st s) - {i}"
    using assms(5) by (auto simp: timers_used_def q_def nth_list_update)
  have "timers_used (port_st t) = timers_used (port_st s) - {i}"
    unfolding used [symmetric]
    using timeout_expired_timers [of K c "actors s" a n ?s] by (simp add: timers_used_def t)
  moreover have "zephyr_mail Q (port_st t) a
        = zephyr_mail Q (port_st s) a @ (if room then [received (timeout_msg n)] else [])
      \<and> ask_table t = (ask_table s)[j := (ask_table s ! j)\<lparr> q_reply_sent := room, q_timeout_queued := room \<rparr>]"
    if j: "pending_at s n j" "q_actor (ask_table s ! j) = a" "\<not> q_timeout_queued (ask_table s ! j)" for j
  proof -
    have "ask_inv ?s" using assms(3) ask_inv_cong [of ?s s] by simp
    moreover have "pending_at ?s n j" using j(1) by (simp add: pending_at_def)
    ultimately show ?thesis
      using mailbox_port.timeout_expired [OF zephyr_mailbox_port [OF assms(1)], of ?s n j a c "actors s"]
        assms(4,10,11) j(2,3) by (simp add: t same)
  qed
  moreover have "ask_table t = ask_table s \<and> zephyr_mail Q (port_st t) = zephyr_mail Q (port_st s)"
    if "find_pending_ask n s = None"
    using that by (simp add: t ipc_ask_timeout_expired_def expire_section_def find_pending_ask_def same)
  ultimately show ?thesis using pool by blast
qed

section \<open>Concrete runs\<close>

abbreviation (input) ex_cap :: "queues \<Rightarrow> aptr \<Rightarrow> nat" where "ex_cap \<equiv> \<lambda>k a. fst (k a)"
abbreviation (input) ex_items :: "queues \<Rightarrow> aptr \<Rightarrow> slot list" where "ex_items \<equiv> \<lambda>k a. snd (k a)"

lemma ex_actor_cfg: "queue_depth (a_cfg (ex_actors a)) = 2" "max_payload_size (a_cfg (ex_actors a)) = 8"
  by (simp_all add: ex_defs)

lemma ex_zephyr_ready_actor: "zephyr_ready ex_cap ex_items ex_zephyr a (a_cfg (ex_actors a))"
  by (intro ex_zephyr_ready) (simp_all add: ex_actor_cfg)

lemma ex_message_fits: "msg_readable ex_message" "m_size ex_message \<le> max_payload_size (a_cfg (ex_actors a))"
  by (simp_all add: ex_message_def msg_readable_def ex_actor_cfg)

lemma ex_zephyr_send:
  "\<exists>t. zephyr_send queue_kernel 2 (ex_actors 2) ex_message ex_zephyr = (t, 0)
     \<and> zephyr_ready ex_cap ex_items t 2 (a_cfg (ex_actors 2))
     \<and> zephyr_mail ex_items t 2 = [received ex_message]"
proof -
  note port = zephyr_mailbox_port [OF queue_kernel_contract, of ex_zephyr_config ex_actors]
  from mailbox_port.send_accepted [OF port ex_zephyr_ready_actor ex_message_fits]
    mailbox_port.send_ready [OF port ex_zephyr_ready_actor ex_zephyr_ready_actor]
  show ?thesis by (cases "zephyr_send queue_kernel 2 (ex_actors 2) ex_message ex_zephyr")
      (simp add: ex_zephyr_mail ex_actor_cfg, metis fst_conv snd_conv)
qed

theorem zephyr_mailbox_fifo_witness:
  "\<exists>t. bounded_fifo.history (zephyr_send queue_kernel 2 (ex_actors 2)) (zephyr_take queue_kernel 2)
      ex_zephyr [(ex_message, 0)] [] t
    \<and> zephyr_mail ex_items t 2 = [received ex_message]"
proof -
  note fifo = zephyr_bounded_fifo [OF queue_kernel_contract, of 2 "ex_actors 2"]
  obtain t where t: "zephyr_send queue_kernel 2 (ex_actors 2) ex_message ex_zephyr = (t, 0)"
    using ex_zephyr_send by blast
  have h: "bounded_fifo.history (zephyr_send queue_kernel 2 (ex_actors 2)) (zephyr_take queue_kernel 2)
      ex_zephyr [(ex_message, 0)] [] t"
    using bounded_fifo.history.sent [OF fifo bounded_fifo.history.start [OF fifo] ex_message_fits(1)] t
    by (metis append_Nil fst_conv snd_conv)
  from zephyr_mailbox_fifo [OF queue_kernel_contract ex_zephyr_ready_actor this] h show ?thesis
    by (simp add: ex_zephyr_mail) blast
qed

text \<open>The example program with one message queued for actor 2, and with an ask whose timer runs.\<close>

definition ex_zephyr_queued :: "(queues zephyr, user_call list) sys" where
  "ex_zephyr_queued =
     ex_running (fst (zephyr_send queue_kernel 2 (ex_actors 2) ex_message ex_zephyr)) []"

lemma ex_zephyr_queued_ready:
  "zephyr_ready ex_cap ex_items (port_st ex_zephyr_queued) 2 (a_cfg (ex_actors 2))"
  "zephyr_mail ex_items (port_st ex_zephyr_queued) 2 = [received ex_message]"
proof -
  have "port_st ex_zephyr_queued = fst (zephyr_send queue_kernel 2 (ex_actors 2) ex_message ex_zephyr)"
    by (simp add: ex_zephyr_queued_def ex_running_def ex_initial_def ipc_initial_def)
  with ex_zephyr_send
  show "zephyr_ready ex_cap ex_items (port_st ex_zephyr_queued) 2 (a_cfg (ex_actors 2))"
    "zephyr_mail ex_items (port_st ex_zephyr_queued) 2 = [received ex_message]" by auto
qed

theorem zephyr_thread_turn_drains_witness:
  "\<exists>t. zephyr_thread_turn queue_kernel recording 2 ex_zephyr_queued = Some t
    \<and> zephyr_mail ex_items (port_st t) 2 = []"
  using zephyr_thread_turn_drains [OF queue_kernel_contract ex_zephyr_queued_ready(1), of recording]
    posts_nothing_recording ex_zephyr_queued_ready(2) by auto


text \<open>The port before \<^verbatim>\<open>ipc_start_all_actors\<close>: what the macros declare, and no queue yet.\<close>

definition ex_zephyr_static :: "queues zephyr" where
  "ex_zephyr_static = zephyr_initial ex_zephyr_config
     (\<lambda>a. zephyr_actor_define_port ex_zephyr_config (\<lambda>n. n) 1024 2 8) (\<lambda>a. (0, []))"

theorem zephyr_declared_actor_starts_witness:
  "snd (zephyr_actor_init queue_kernel ex_zephyr_config 2 (ZEPHYR_ACTOR_DEFINE (\<lambda>n. n) ''app'' 1024 0 2 8)
      ex_zephyr_static) = 0
    \<and> zephyr_actor_init queue_kernel ex_zephyr_config 2 (IPC_ACTOR_DEFINE ''app'' 512 0 2 8) ex_zephyr_static
      = (ex_zephyr_static, - EINVAL)"
proof -
  let ?x = "ZEPHYR_ACTOR_DEFINE (\<lambda>n. n) ''app'' 1024 0 2 8"
  obtain t rc where run: "zephyr_actor_init queue_kernel ex_zephyr_config 2 ?x ex_zephyr_static = (t, rc)"
    by (cases "zephyr_actor_init queue_kernel ex_zephyr_config 2 ?x ex_zephyr_static")
  have port: "zport_of ex_zephyr_static 2 = zephyr_actor_define_port ex_zephyr_config (\<lambda>n. n) 1024 2 8"
    by (simp add: ex_zephyr_static_def zephyr_initial_def)
  have "stack_size (a_cfg (IPC_ACTOR_DEFINE ''app'' 512 0 2 8)) \<noteq> 1024" by (simp add: IPC_ACTOR_DEFINE_def)
  with zephyr_declared_actor_starts [OF queue_kernel_contract refl port _ _ _ run] run show ?thesis by simp
qed

definition ex_zephyr_timed :: "(queues zephyr, unit) sys" where
  "ex_zephyr_timed = ex_asking (ex_zephyr
     \<lparr> z_ask_timeouts := [\<lparr> zt_actor = 2, zt_ask_id = 7, zt_used = True \<rparr>] \<rparr>) ()"

theorem zephyr_ask_timer_pool_witness:
  "timers_used (port_st (ask_timeout_work_fn queue_kernel ex_zephyr_config 0 ex_zephyr_timed)) = {}
    \<and> zephyr_mail ex_items (port_st (ask_timeout_work_fn queue_kernel ex_zephyr_config 0 ex_zephyr_timed)) 2
      = [received (timeout_msg 7)]"
proof -
  have timers: "0 \<in> timers_used (port_st ex_zephyr_timed)"
    "timers_used (port_st ex_zephyr_timed) - {0} = {}"
    "z_ask_timeouts (port_st ex_zephyr_timed) ! 0 = \<lparr> zt_actor = 2, zt_ask_id = 7, zt_used = True \<rparr>"
    by (auto simp: timers_used_def ex_zephyr_timed_def ex_asking_def ex_defs)
  have pend: "pending_at ex_zephyr_timed 7 0" "q_actor (ask_table ex_zephyr_timed ! 0) = 2"
    "\<not> q_timeout_queued (ask_table ex_zephyr_timed ! 0)" "IPC_CONFIG_ENABLE_ASK (conf ex_zephyr_timed)"
    by (simp_all add: ex_zephyr_timed_def ex_asking_def pending_at_def pending_entry_def ex_defs)
  have inv: "ask_inv ex_zephyr_timed" unfolding ex_zephyr_timed_def by (rule ex_asking_inv)
  have cfg: "a_cfg (actors ex_zephyr_timed 2) = a_cfg (ex_actors 2)"
    by (simp add: ex_zephyr_timed_def ex_asking_def ex_defs)
  have mail: "zephyr_mail ex_items (port_st ex_zephyr_timed) 2 = []"
    using ex_zephyr_mail [of 2] by (simp add: zephyr_mail_def ex_zephyr_timed_def ex_asking_def ex_defs)
  have ready: "zephyr_ready ex_cap ex_items (port_st ex_zephyr_timed) 2 (a_cfg (actors ex_zephyr_timed 2))"
    unfolding cfg using ex_zephyr_ready_actor [of 2]
    by (simp add: zephyr_ready_def ex_zephyr_timed_def ex_asking_def Let_def) (simp add: ex_defs)
  have "CONFIG_ACTOR_ASK ex_zephyr_config" by (simp add: ex_zephyr_config_def)
  from zephyr_ask_timer_pool [OF queue_kernel_contract this inv pend(4) timers(1,3) refl refl refl] ready pend(1-3)
  show ?thesis by (simp add: mail cfg ex_actor_cfg timers(2))
qed

end
