(* ===== verification/Typed_Mailboxes.thy ===== *)
theory Typed_Mailboxes
  imports Ask_Delivery
begin

text \<open>
  Types of messages. A message is well typed when its payload is exactly as long as its size field
  says, and its ID, kind and size are those of one of the program's descriptors, or it carries an
  error and no payload. Every API call keeps all mailboxes well typed, so a typed handler
  (\<^verbatim>\<open>_IPC_ACTOR_HANDLE_ADAPTER\<close> casts the payload pointer to the payload struct) and a typed reply
  callback (\<^verbatim>\<open>_IPC_ACTOR_RESPONSE_HANDLE_IMPL\<close>) get the bytes they read.
\<close>

section \<open>The adapters of the declaration macros\<close>

text \<open>
  \<^verbatim>\<open>_IPC_ACTOR_HANDLE_ADAPTER\<close>: the typed handler of an \<open>n\<close>-byte payload struct gets the first \<open>n\<close> bytes
  behind the payload pointer; \<open>None\<close> is a read through \<^verbatim>\<open>NULL\<close> or past the readable bytes.
\<close>

definition cast_payload :: "nat \<Rightarrow> u8 list option \<Rightarrow> u8 list option" where
  "cast_payload n payload =
     (case payload of None \<Rightarrow> None | Some bs \<Rightarrow> if n \<le> length bs then Some (take n bs) else None)"

definition handle_adapter ::
    "nat \<Rightarrow> (aptr \<Rightarrow> u8 list \<Rightarrow> ipc_msg \<Rightarrow> 's \<Rightarrow> 's) \<Rightarrow> aptr \<Rightarrow> u8 list option \<Rightarrow> ipc_msg \<Rightarrow> 's \<Rightarrow> 's option" where
  "handle_adapter n handler_fn self payload raw_msg s =
     map_option (\<lambda>bs. handler_fn self bs raw_msg s) (cast_payload n payload)"

text \<open>
  \<^verbatim>\<open>_IPC_ACTOR_RESPONSE_HANDLE_IMPL\<close>: \<open>declared\<close> is the reply descriptor declared for the request type,
  \<open>reply\<close> the one the callback was written for. With an error result the typed callback gets the
  pointer without reading it.
\<close>

definition response_handle_adapter ::
    "bool \<Rightarrow> dptr \<Rightarrow> dptr \<Rightarrow> nat \<Rightarrow> (aptr \<Rightarrow> int \<Rightarrow> u8 list option \<Rightarrow> ipc_msg \<Rightarrow> 's \<Rightarrow> 's)
     \<Rightarrow> aptr \<Rightarrow> int \<Rightarrow> u8 list option \<Rightarrow> nat \<Rightarrow> ipc_msg \<Rightarrow> 's \<Rightarrow> 's outcome" where
  "response_handle_adapter ndebug declared reply n handler_fn self result reply_payload reply_size raw_msg s =
     (if \<not> ndebug \<and> declared \<noteq> reply then Aborts
      else if result = 0 \<and> reply_size \<noteq> n then (if ndebug then Returns s else Aborts)
      else Returns (handler_fn self result reply_payload raw_msg s))"

section \<open>Well-typed messages\<close>

definition desc_type :: "ipc_msg_desc_t \<Rightarrow> u32 \<times> ipc_msg_kind_t \<times> nat" where
  "desc_type desc = (eventual_id desc, d_kind desc, d_size desc)"

definition well_typed :: "(dptr \<Rightarrow> ipc_msg_desc_t) \<Rightarrow> ipc_msg \<Rightarrow> bool" where
  "well_typed ds m \<longleftrightarrow>
     (case m_payload m of None \<Rightarrow> False | Some bs \<Rightarrow> length bs = m_size m)
     \<and> (m_result m = 0 \<and> (\<exists>d. desc_type (ds d) = (m_id m, m_kind m, m_size m))
        \<or> m_result m \<noteq> 0 \<and> m_size m = 0)"

definition same_types :: "('p, 'u) sys \<Rightarrow> ('q, 'v) sys \<Rightarrow> bool" where
  "same_types s t \<longleftrightarrow> (\<forall>d. desc_type (descs t d) = desc_type (descs s d))"

lemma same_types_refl [simp]: "same_types s s"
  by (simp add: same_types_def)

lemma same_types_trans: "same_types s t \<Longrightarrow> same_types t u \<Longrightarrow> same_types s u"
  by (simp add: same_types_def)

lemma same_types_ensure_id [simp]: "same_types s (ipc_ensure_id d s)"
  unfolding same_types_def
proof
  fix e
  show "desc_type (descs (ipc_ensure_id d s) e) = desc_type (descs s e)"
    by (cases "e = d") (simp_all add: desc_type_def eventual_id_ensured ensure_id_desc)
qed

lemma well_typed_same: "same_types s t \<Longrightarrow> well_typed (descs t) m \<longleftrightarrow> well_typed (descs s) m"
  by (simp add: well_typed_def same_types_def)

text \<open>Messages built from a descriptor are well typed once queued; so are error messages.\<close>

lemma well_typed_received:
  assumes "msg_readable m" "m_result m = 0" "desc_type (ds d) = (m_id m, m_kind m, m_size m)"
  shows "well_typed ds (received m)"
  using assms by (auto simp: well_typed_def length_msg_bytes)

lemma well_typed_error: "m_size m = 0 \<Longrightarrow> m_result m \<noteq> 0 \<Longrightarrow> well_typed ds (received m)"
  by (simp add: well_typed_def msg_bytes_def split: option.split)

lemma msg_readable_ids [simp]: "msg_readable (m\<lparr> m_ask_id := i, m_reply_id := j \<rparr>) = msg_readable m"
  by (cases "m_payload m") (simp_all add: msg_readable_def)

section \<open>API calls over a mailbox port\<close>

context mailbox_port
begin

abbreviation all_ready :: "('p, 'u) sys \<Rightarrow> bool" where
  "all_ready s \<equiv> \<forall>a. ready_in s a"

definition mail_typed :: "('p, 'u) sys \<Rightarrow> bool" where
  "mail_typed s \<longleftrightarrow> (\<forall>a. \<forall>m \<in> set (mail (port_st s) a). well_typed (descs s) m)"

text \<open>
  \<open>extends s t\<close>: descriptors keep their types, actors their configurations, mailboxes stay ready, and
  at most well-typed messages were added to them.
\<close>

definition extends :: "('p, 'u) sys \<Rightarrow> ('p, 'u) sys \<Rightarrow> bool" where
  "extends s t \<longleftrightarrow>
     same_types s t \<and> (\<forall>a. a_cfg (actors t a) = a_cfg (actors s a))
     \<and> (\<forall>a c. ready (port_st s) a c \<longrightarrow> ready (port_st t) a c)
     \<and> (\<forall>a. \<exists>ms. mail (port_st t) a = mail (port_st s) a @ ms \<and> (\<forall>m \<in> set ms. well_typed (descs s) m))"

lemma extends_refl [simp]: "extends s s"
  by (simp add: extends_def)

lemma extends_trans:
  assumes "extends s t" "extends t u"
  shows "extends s u"
proof -
  have "\<exists>ms. mail (port_st u) a = mail (port_st s) a @ ms \<and> (\<forall>m \<in> set ms. well_typed (descs s) m)" for a
  proof -
    obtain ms ns where "mail (port_st t) a = mail (port_st s) a @ ms" "\<forall>m \<in> set ms. well_typed (descs s) m"
      "mail (port_st u) a = mail (port_st t) a @ ns" "\<forall>m \<in> set ns. well_typed (descs t) m"
      using assms unfolding extends_def by meson
    then show ?thesis using assms well_typed_same [of s t]
      by (intro exI [of _ "ms @ ns"]) (auto simp: extends_def)
  qed
  then show ?thesis using assms same_types_trans by (auto simp: extends_def)
qed

lemma extends_ready: "extends s t \<Longrightarrow> all_ready s \<Longrightarrow> all_ready t"
  by (simp add: extends_def)

lemma extends_mail_typed:
  assumes "extends s t" "mail_typed s"
  shows "mail_typed t"
  unfolding mail_typed_def
proof (intro allI ballI)
  fix a m
  assume m: "m \<in> set (mail (port_st t) a)"
  obtain ms where "mail (port_st t) a = mail (port_st s) a @ ms" "\<forall>m \<in> set ms. well_typed (descs s) m"
    using assms(1) unfolding extends_def by meson
  with m assms(2) have "well_typed (descs s) m" by (auto simp: mail_typed_def)
  then show "well_typed (descs t) m" using assms(1) well_typed_same by (auto simp: extends_def)
qed

text \<open>The parts of a call: IDs and ask entries are not mail, a delivery adds at most its message.\<close>

lemma extends_same_port:
  "same_types s t \<Longrightarrow> actors t = actors s \<Longrightarrow> port_st t = port_st s \<Longrightarrow> extends s t"
  by (simp add: extends_def)

lemma extends_ensure_id: "extends s (ipc_ensure_id d s)"
  by (rule extends_same_port) (simp_all add: frame_simps)

lemma extends_port_send:
  assumes "ready_in s a" "msg_readable m" "m_size m \<le> actor_max_payload_size (actors s a)"
    and "well_typed (descs s) (received m)"
  shows "extends s (snd (ipc_port_send P a m s))"
    "extends s (snd (apply_mailbox_overflow_policy a (ipc_port_send P a m s)))"
proof -
  note one = ipc_port_send_cases [OF assms(1,2) assms(3) [unfolded actor_max_payload_size_def]]
  show "extends s (snd (ipc_port_send P a m s))"
    using assms(4) one(2) ipc_port_send_ready [OF assms(1)]
    by (simp add: extends_def same_types_def frame_simps)
  note two = deliver_one [OF assms(1-3)]
  note only = delivery_only_send [of s a P m]
  show "extends s (snd (apply_mailbox_overflow_policy a (ipc_port_send P a m s)))"
    using assms(4) two(2,4) delivery_only_fields(2) [OF only] delivery_only_actors(1) [OF only]
    by (simp add: extends_def same_types_def delivered_def)
qed

lemma extends_schedule: "extends s (snd (ipc_port_schedule_ask_timeout P a n ms s))"
proof -
  let ?t = "snd (ipc_port_schedule_ask_timeout P a n ms s)"
  have "port_st ?t = fst (port_schedule_ask_timeout P a (actors s a) n ms (port_st s))"
    by (simp add: ipc_port_schedule_ask_timeout_def on_port_result)
  then show ?thesis
    by (simp add: extends_def same_types_def frame_simps schedule_keeps)
qed

lemma well_typed_call:
  "msg_readable (call_msg s d payload) \<Longrightarrow>
     well_typed (descs s) (received ((call_msg s d payload)\<lparr> m_ask_id := i, m_reply_id := j \<rparr>))"
  by (rule well_typed_received [where d = d]) (simp_all add: desc_type_def)

lemma extends_clear_ask: "extends s t \<Longrightarrow> extends s (clear_ask n t)"
  by (erule extends_trans, rule extends_same_port) (simp_all add: clear_ask_def same_types_def split: option.split)

lemma ready_ensure_id: "ready_in (ipc_ensure_id d s) a \<longleftrightarrow> ready_in s a"
  by (simp add: frame_simps)

text \<open>A delivery after IDs were set, in any state that differs from the first in IDs and asks only.\<close>

lemma extends_deliver_call:
  assumes "extends s u" "all_ready s" "msg_readable (call_msg s d payload)"
    and "d_size (descs s d) \<le> actor_max_payload_size (actors u a)"
  shows "extends s (snd (apply_mailbox_overflow_policy a
           (ipc_port_send P a ((call_msg s d payload)\<lparr> m_ask_id := i, m_reply_id := j \<rparr>) u)))"
proof -
  have "same_types s u" using assms(1) by (simp add: extends_def)
  with well_typed_call [OF assms(3), where i = i and j = j] have
    "well_typed (descs u) (received ((call_msg s d payload)\<lparr> m_ask_id := i, m_reply_id := j \<rparr>))"
    using well_typed_same [of s u] by simp
  moreover have "ready_in u a" using extends_ready [OF assms(1,2)] by blast
  ultimately show ?thesis
    using extends_port_send(2) [of u a] assms(3) assms(4) extends_trans [OF assms(1)]
    by simp
qed

lemma call_msg_plain: "call_msg s d payload = (call_msg s d payload)\<lparr> m_ask_id := 0, m_reply_id := 0 \<rparr>"
  by (simp add: call_msg_def make_msg_def)

lemma extends_send_raw:
  assumes "all_ready s" "msg_readable (call_msg s d payload)"
  shows "extends s (snd (ipc_send_raw P (Some d) payload s))"
proof (cases "\<exists>a. cmd_route s d a")
  case True
  then obtain a where a: "cmd_route s d a" by blast
  have "extends s (snd (apply_mailbox_overflow_policy a
           (ipc_port_send P a (call_msg s d payload) (ipc_ensure_id d s))))"
    if "d_size (descs s d) \<le> actor_max_payload_size (actors s a)"
    using extends_deliver_call [OF extends_ensure_id assms, where a = a and i = 0 and j = 0, folded call_msg_plain] that
    by (simp add: frame_simps)
  then show ?thesis
    unfolding ipc_send_raw_eq [OF a] by (simp add: extends_ensure_id frame_simps)
next
  case False
  then have "extends s (snd (prepare_registered_cmd (Some d) payload s))
      \<and> (\<exists>rc. fst (prepare_registered_cmd (Some d) payload s) = Inl rc)"
    by (auto simp: prepare_registered_cmd_cases cmd_route_def extends_ensure_id split: option.split)
  then show ?thesis
    by (auto simp: ipc_send_raw_def split: sum.split prod.splits)
qed

lemma extends_publish_loop:
  assumes "all_ready s" "extends s u" "msg_readable m" "well_typed (descs s) (received m)"
  shows "extends s (snd (publish_loop (ipc_port_send P) m i rows rc0 u))"
  using assms(2)
proof (induction rows arbitrary: rc0 u)
  case (Cons r rows)
  have "extends s (snd (if m_size m > actor_max_payload_size (actors u (s_actor r)) then (- EMSGSIZE, u)
          else apply_mailbox_overflow_policy (s_actor r) (ipc_port_send P (s_actor r) m u)))"
  proof (cases "m_size m > actor_max_payload_size (actors u (s_actor r))")
    case False
    moreover have "ready_in u (s_actor r)" using extends_ready [OF Cons.prems assms(1)] by blast
    moreover have "well_typed (descs u) (received m)"
      using assms(4) Cons.prems well_typed_same [of s u] by (simp add: extends_def)
    ultimately show ?thesis
      using extends_port_send(2) [of u "s_actor r" m] assms(3) extends_trans [OF Cons.prems] by simp
  qed (simp add: Cons.prems)
  then show ?case using Cons by (simp add: Let_def case_prod_beta)
qed simp

lemma extends_publish_raw:
  assumes "all_ready s" "msg_readable (call_msg s d payload)"
  shows "extends s (snd (ipc_publish_raw P (Some d) payload s))"
proof (cases "d_kind (descs s d) = IPC_EVENT \<and> d_name (descs s d) \<noteq> None")
  case True
  have "well_typed (descs s) (received (call_msg s d payload))"
    using well_typed_call [OF assms(2), where i = 0 and j = 0] by (simp flip: call_msg_plain)
  with extends_publish_loop [OF assms(1) extends_ensure_id assms(2)] True show ?thesis
    by (simp add: ipc_publish_raw_eq)
next
  case False
  then show ?thesis by (auto simp: ipc_publish_raw_def valid_descriptor_def)
qed

lemma extends_send_to_raw:
  assumes "all_ready s" "msg_readable (make_msg (descs s d) payload)"
  shows "extends s (snd (ipc_send_to_raw P a (Some d) payload s))"
proof (cases "\<exists>x. a = Some x \<and> d_kind (descs s d) \<in> {IPC_CMD, IPC_EVENT}
    \<and> lifecycle_state s = IPC_LIFECYCLE_RUNNING \<and> d_id (descs s d) \<noteq> 0
    \<and> d_size (descs s d) \<le> actor_max_payload_size (actors s x)")
  case True
  then obtain x where a: "a = Some x" "d_size (descs s d) \<le> actor_max_payload_size (actors s x)"
    "d_id (descs s d) \<noteq> 0" and ok: "ipc_send_to_raw P a (Some d) payload s
      = apply_mailbox_overflow_policy x (ipc_port_send P x (make_msg (descs s d) payload) s)"
    by (auto simp: ipc_send_to_raw_def Let_def ipc_port_send_isr_same)
  have "well_typed (descs s) (received (make_msg (descs s d) payload))"
    by (rule well_typed_received [where d = d])
       (use assms(2) a(3) in \<open>simp_all add: make_msg_def desc_type_def eventual_id_def\<close>)
  with extends_port_send(2) [of s x "make_msg (descs s d) payload"] assms a(2) ok show ?thesis
    by (simp add: make_msg_def)
next
  case False
  then have "snd (ipc_send_to_raw P a (Some d) payload s) = s"
    by (cases a) (auto simp: ipc_send_to_raw_def Let_def)
  then show ?thesis by simp
qed

lemma extends_asks: "extends s t \<Longrightarrow> extends s (t\<lparr> next_ask_id := n, ask_table := tab \<rparr>)"
  "extends s t \<Longrightarrow> extends s (t\<lparr> ask_table := tab \<rparr>)"
  by (erule extends_trans, rule extends_same_port, simp_all add: same_types_def)+

lemma alloc_ask_id_frame: "\<exists>n. snd (alloc_ask_id_loop k s) = s\<lparr> next_ask_id := n \<rparr>"
proof (induction k s rule: alloc_ask_id_loop.induct)
  case (1 k s)
  have id: "\<exists>n. s = s\<lparr> next_ask_id := n \<rparr>" by (rule exI [of _ "next_ask_id s"]) simp
  show ?case
  proof (cases "k < IPC_CORE_MAX_INFLIGHT_QUERIES (conf s)")
    case True
    with "1.IH" [OF True refl refl] show ?thesis
      by (subst alloc_ask_id_loop.simps) (simp add: Let_def, blast)
  next
    case False
    with id show ?thesis by (subst alloc_ask_id_loop.simps) simp
  qed
qed

lemma extends_reserve_ask: "extends s (snd (reserve_ask self r cb now ms s))"
proof (cases "alloc_pending_ask s")
  case (Some i)
  obtain n where n: "snd (alloc_ask_id s) = s\<lparr> next_ask_id := n \<rparr>"
    using alloc_ask_id_frame [of 0 s] by (auto simp: alloc_ask_id_def)
  have "extends s (s\<lparr> next_ask_id := n \<rparr>)" "extends s (s\<lparr> next_ask_id := n, ask_table := tab \<rparr>)" for tab
    by (rule extends_same_port; simp add: same_types_def)+
  with n Some show ?thesis
    by (cases "alloc_ask_id s") (auto simp: reserve_ask_def split: sum.split)
qed (simp add: reserve_ask_def)

lemma extends_ask:
  assumes "all_ready s" "msg_readable (call_msg s rq payload)"
  shows "extends s (snd (snd (ipc_ask_with_id_raw P (Some self) (Some rq) payload (Some rp) (Some cb) ms s)))"
proof (cases "\<exists>target. ask_accepted self rq rp target s")
  case False
  then have "\<not> ask_accepted self rq rp (the (find_registered (eventual_id (descs s rq)) s)) s" by blast
  then have "snd (snd (ipc_ask_with_id_raw P (Some self) (Some rq) payload (Some rp) (Some cb) ms s))
      \<in> {s, ipc_ensure_id rq s, ipc_ensure_id rp (ipc_ensure_id rq s)}"
    by (auto simp: ipc_ask_with_id_raw_def prepare_registered_cmd_cases cmd_route_def ask_accepted_def
        valid_descriptor_def ensure_id_desc frame_simps Let_def split: option.split)
  with extends_ensure_id [of s rq] extends_trans [OF extends_ensure_id extends_ensure_id, of s rp rq]
  show ?thesis by auto
next
  case True
  then obtain target where acc: "ask_accepted self rq rp target s" by blast
  let ?s2 = "ipc_ensure_id rp (ipc_ensure_id rq s)"
  have s2: "extends s ?s2" using extends_ensure_id extends_trans by blast
  have eq: "ipc_ask_with_id_raw P (Some self) (Some rq) payload (Some rp) (Some cb) ms s
    = (case reserve_ask self (eventual_id (descs (ipc_ensure_id rq s) rp)) cb (port_now_ms P (port_st s)) ms ?s2 of
         (Inl rc, s3) \<Rightarrow> (rc, 0, s3)
       | (Inr n, s3) \<Rightarrow> ask_tail P self ms target (ask_request s rq rp payload n) n s3)"
    using acc by (intro ipc_ask_with_id_raw_tail) (simp_all add: ask_accepted_def)
  obtain r s3 where res: "reserve_ask self (eventual_id (descs (ipc_ensure_id rq s) rp)) cb
      (port_now_ms P (port_st s)) ms ?s2 = (r, s3)"
    by (cases "reserve_ask self (eventual_id (descs (ipc_ensure_id rq s) rp)) cb (port_now_ms P (port_st s)) ms ?s2")
  then have s3: "extends s s3"
    using extends_trans [OF s2 extends_reserve_ask] by (metis snd_conv)
  have tail: "extends s (snd (snd (ask_tail P self ms target (ask_request s rq rp payload n) n s3)))" for n
  proof -
    define r4 where "r4 = (if ms > 0 then ipc_port_schedule_ask_timeout P self n ms s3 else (0, s3))"
    have s4: "extends s (snd r4)"
      using extends_trans [OF s3 extends_schedule] s3 by (simp add: r4_def)
    have "a_cfg (actors (snd r4) target) = a_cfg (actors s target)" using s4 by (simp add: extends_def)
    then have "d_size (descs s rq) \<le> actor_max_payload_size (actors (snd r4) target)"
      using acc by (simp add: ask_accepted_def actor_max_payload_size_def)
    from extends_deliver_call [OF s4 assms this] s4
    show ?thesis
      by (simp add: ask_tail_def r4_def [symmetric] ask_request_def case_prod_beta extends_clear_ask)
  qed
  show ?thesis
    unfolding eq res using s3 tail by (simp split: sum.split)
qed

text \<open>The sections of replies and timeouts write the ask table only.\<close>

lemma ask_sections_extend:
  "extends s (snd (reply_section req desc s))" "extends s (snd (reply_error_section req s))"
  "extends s (snd (cancel_section self n s))" "extends s (snd (expire_section a n s))"
  "extends s (expire_undo_section a n s)" "extends s (snd (take_pending self msg s))"
  unfolding reply_section_def reply_error_section_def cancel_section_def expire_section_def
    expire_undo_section_def take_pending_def Let_def
  by (rule extends_same_port; simp add: same_types_def split: option.split)+

lemma reply_section_target:
  assumes "reply_section req desc s = (Inr a, t)"
  shows "d_size desc \<le> actor_max_payload_size (actors t a)"
  using assms by (auto simp: reply_section_def Let_def split: option.splits if_splits)

lemma extends_reply:
  assumes "all_ready s" "msg_readable (call_msg s d payload)"
  shows "extends s (snd (ipc_reply_raw P req (Some d) payload s))"
proof -
  let ?s1 = "ipc_ensure_id d s"
  have sec: "extends s (snd (reply_section r (descs ?s1 d) ?s1))" for r
    using extends_trans [OF extends_ensure_id ask_sections_extend(1)] .
  have sent: "extends s (snd (apply_mailbox_overflow_policy a (ipc_port_send P a
      ((make_msg (descs ?s1 d) payload)\<lparr> m_ask_id := m_ask_id r \<rparr>) t)))"
    if "reply_section r (descs ?s1 d) ?s1 = (Inr a, t)" for r a t
  proof -
    have t: "extends s t" using sec [of r] that by simp
    have "d_size (descs s d) \<le> actor_max_payload_size (actors t a)"
      using reply_section_target [OF that] by (simp add: ensure_id_desc)
    from extends_deliver_call [OF t assms this, where i = "m_ask_id r" and j = 0] show ?thesis
      by (simp add: call_msg_def make_msg_def)
  qed
  show ?thesis
  proof (cases "\<exists>r. req = Some r \<and> IPC_CONFIG_ENABLE_ASK (conf s) \<and> m_ask_id r \<noteq> 0
      \<and> valid_descriptor (Some d) IPC_CMD s")
    case False
    then have "snd (ipc_reply_raw P req (Some d) payload s) = s"
      by (auto simp: ipc_reply_raw_def split: option.split)
    then show ?thesis by simp
  next
    case True
    then obtain r where r: "req = Some r" "IPC_CONFIG_ENABLE_ASK (conf s)" "m_ask_id r \<noteq> 0"
      "valid_descriptor (Some d) IPC_CMD s" by blast
    obtain x t where x: "reply_section r (descs ?s1 d) ?s1 = (x, t)"
      by (cases "reply_section r (descs ?s1 d) ?s1")
    show ?thesis
    proof (cases x)
      case (Inl rc)
      with r x sec [of r] show ?thesis by (simp add: ipc_reply_raw_def Let_def)
    next
      case (Inr a)
      with sent [of r a t] x extends_clear_ask [OF sent [of r a t]] r show ?thesis
        by (simp add: ipc_reply_raw_def Let_def case_prod_beta)
    qed
  qed
qed

lemma extends_error_send:
  assumes "extends s t" "all_ready s" "m_size m = 0" "m_result m \<noteq> 0" "m_payload m = None"
  shows "extends s (snd (ipc_port_send P a m t))"
proof -
  have "ready_in t a" using extends_ready [OF assms(1,2)] by blast
  moreover have "msg_readable m" using assms(5) by (simp add: msg_readable_def)
  ultimately show ?thesis
    using extends_trans [OF assms(1)] extends_port_send(1) [of t a m] assms(3) well_typed_error [OF assms(3,4)]
    by simp
qed

lemma extends_reply_error:
  assumes "all_ready s"
  shows "extends s (snd (ipc_reply_error_raw P req result s))"
proof (cases "\<exists>r. req = Some r \<and> IPC_CONFIG_ENABLE_ASK (conf s)
    \<and> \<not> (m_ask_id r = 0 \<or> m_reply_id r = 0 \<or> result = 0)")
  case False
  then have "snd (ipc_reply_error_raw P req result s) = s"
    by (auto simp: ipc_reply_error_raw_def split: option.split)
  then show ?thesis by simp
next
  case True
  then obtain r where r: "req = Some r" "IPC_CONFIG_ENABLE_ASK (conf s)"
    "\<not> (m_ask_id r = 0 \<or> m_reply_id r = 0 \<or> result = 0)" by blast
  obtain x t where x: "reply_error_section r s = (x, t)" by (cases "reply_error_section r s")
  have t: "extends s t" using ask_sections_extend(2) [of s r] x by simp
  show ?thesis
  proof (cases x)
    case (Inl rc)
    with r x t show ?thesis by (simp add: ipc_reply_error_raw_def)
  next
    case (Inr p)
    obtain a i where p: "p = (a, i)" by (cases p)
    have "extends s (snd (ipc_port_send P a (reply_error_msg i (m_ask_id r) result) t))"
      by (rule extends_error_send [OF t assms]) (use r(3) in \<open>simp_all add: reply_error_msg_def\<close>)
    from this extends_clear_ask [OF this] Inr p x r show ?thesis
      by (simp add: ipc_reply_error_raw_def case_prod_beta)
  qed
qed

lemma extends_timeout:
  assumes "all_ready s"
  shows "extends s (ipc_ask_timeout_expired P a n s)"
proof -
  obtain b t where x: "expire_section a n s = (b, t)" by (cases "expire_section a n s")
  have t: "extends s t" using ask_sections_extend(4) [of s a n] x by simp
  have "extends s (snd (ipc_port_send P a (timeout_msg n) t))"
    by (rule extends_error_send [OF t assms]) (simp_all add: timeout_msg_def)
  from this extends_trans [OF this ask_sections_extend(5)] t x show ?thesis
    by (cases b) (simp_all add: ipc_ask_timeout_expired_def case_prod_beta)
qed

lemma extends_cancel: "extends s (snd (ipc_ask_cancel self n s))"
  by (simp add: ipc_ask_cancel_def ask_sections_extend)

end

section \<open>Runs\<close>

text \<open>
  One step of a running program, as far as messages go: an API call of any actor, with payloads that
  can be read; a receive (\<open>takes p q\<close>, a port's own step); the critical section of a dispatch; a
  change of the application's own state.
\<close>

inductive api_step ::
    "'p port_ops \<Rightarrow> ('p \<Rightarrow> 'p \<Rightarrow> bool) \<Rightarrow> ('p, 'u) sys \<Rightarrow> ('p, 'u) sys \<Rightarrow> bool"
  for P :: "'p port_ops" and takes :: "'p \<Rightarrow> 'p \<Rightarrow> bool" where
  send: "msg_readable (call_msg s d payload) \<Longrightarrow>
    api_step P takes s (snd (ipc_send_raw P (Some d) payload s))"
| publish: "msg_readable (call_msg s d payload) \<Longrightarrow>
    api_step P takes s (snd (ipc_publish_raw P (Some d) payload s))"
| send_to: "msg_readable (make_msg (descs s d) payload) \<Longrightarrow>
    api_step P takes s (snd (ipc_send_to_raw P a (Some d) payload s))"
| ask: "msg_readable (call_msg s rq payload) \<Longrightarrow> api_step P takes s
    (snd (snd (ipc_ask_with_id_raw P (Some self) (Some rq) payload (Some rp) (Some cb) ms s)))"
| cancel: "api_step P takes s (snd (ipc_ask_cancel self2 n s))"
| reply: "msg_readable (call_msg s d payload) \<Longrightarrow>
    api_step P takes s (snd (ipc_reply_raw P req (Some d) payload s))"
| reply_error: "api_step P takes s (snd (ipc_reply_error_raw P req rc s))"
| timeout: "api_step P takes s (ipc_ask_timeout_expired P actor n s)"
| receive: "takes (port_st s) p \<Longrightarrow> api_step P takes s (s\<lparr> port_st := p \<rparr>)"
| dispatch: "api_step P takes s (snd (take_pending actor msg s))"
| app: "api_step P takes s (s\<lparr> app_st := u \<rparr>)"

context mailbox_port
begin

text \<open>A receive of the port, once every mailbox is set up, removes messages and keeps them so.\<close>

definition receives :: "('p \<Rightarrow> 'p \<Rightarrow> bool) \<Rightarrow> bool" where
  "receives takes \<longleftrightarrow>
     (\<forall>p q. takes p q \<and> (\<forall>a. \<exists>c. ready p a c) \<longrightarrow> (\<forall>a. set (mail q a) \<subseteq> set (mail p a)) \<and> (\<forall>a c. ready p a c \<longrightarrow> ready q a c))"

lemma api_step_typed:
  assumes "api_step P takes s t" "receives takes" "all_ready s" "mail_typed s"
  shows "same_types s t \<and> all_ready t \<and> mail_typed t"
proof -
  have keep: ?thesis if "extends s t"
    using that extends_ready [OF that assms(3)] extends_mail_typed [OF that assms(4)]
    by (simp add: extends_def)
  show ?thesis
    using assms(1)
  proof cases
    case (receive p)
    then have "\<forall>a. set (mail p a) \<subseteq> set (mail (port_st s) a)" "\<forall>a c. ready (port_st s) a c \<longrightarrow> ready p a c"
      using assms(2,3) unfolding receives_def by blast+
    moreover from this(1) have "mail_typed t"
      using receive(1) assms(4) unfolding mail_typed_def by (simp, blast)
    ultimately show ?thesis using receive(1) assms(3) by (simp add: same_types_def)
  next
    case (app u)
    then show ?thesis by (intro keep extends_same_port) (simp_all add: same_types_def)
  qed (rule keep, simp add: assms(3) extends_send_raw extends_publish_raw extends_send_to_raw extends_ask
         extends_cancel extends_reply extends_reply_error extends_timeout ask_sections_extend)+
qed

lemma api_run_typed:
  assumes "(api_step P takes)\<^sup>*\<^sup>* s t" "receives takes" "all_ready s" "mail_typed s"
  shows "same_types s t \<and> all_ready t \<and> mail_typed t"
  using assms(1)
proof (induction rule: rtranclp_induct)
  case base
  with assms(3,4) show ?case by simp
next
  case (step t u)
  then show ?case using api_step_typed [OF step(2) assms(2)] same_types_trans by blast
qed

end

text \<open>What the adapters see: exactly the payload, when IDs tell payload sizes apart.\<close>

definition sizes_by_id :: "(dptr \<Rightarrow> ipc_msg_desc_t) \<Rightarrow> bool" where
  "sizes_by_id ds \<longleftrightarrow>
     (\<forall>d e. eventual_id (ds d) = eventual_id (ds e) \<longrightarrow> d_size (ds d) = d_size (ds e))"

lemma well_typed_payload:
  assumes "well_typed ds m" "sizes_by_id ds" "eventual_id (ds d) = m_id m" "m_result m = 0"
  shows "m_size m = d_size (ds d)" "cast_payload (d_size (ds d)) (m_payload m) = m_payload m"
proof -
  from assms(1,4) obtain e bs where "desc_type (ds e) = (m_id m, m_kind m, m_size m)"
    and bs: "m_payload m = Some bs" "length bs = m_size m"
    by (auto simp: well_typed_def split: option.splits)
  then show n: "m_size m = d_size (ds d)"
    using assms(2,3) by (metis desc_type_def prod.inject sizes_by_id_def)
  show "cast_payload (d_size (ds d)) (m_payload m) = m_payload m"
    using n bs by (simp add: cast_payload_def)
qed

end
