(* ===== verification/Payload_Structs.thy ===== *)
theory Payload_Structs
  imports Typed_Mailboxes
begin

text \<open>
  The payload structs of the two example programs and their bytes. A payload travels as the bytes of
  its C struct: fields at their natural alignment, multi-byte fields in little-endian order (the
  layout of the targets the examples are built for), padding bytes zero. Each struct has a record, its
  bytes, and the reading of a field block back; the bytes are exactly as many as \<^verbatim>\<open>sizeof\<close> of the struct.
\<close>

section \<open>Fields\<close>

definition bytes_of_u32 :: "u32 \<Rightarrow> u8 list" where
  "bytes_of_u32 w = [ucast w, ucast (drop_bit 8 w), ucast (drop_bit 16 w), ucast (drop_bit 24 w)]"

definition u32_at :: "nat \<Rightarrow> u8 list \<Rightarrow> u32" where
  "u32_at i bs =
     ucast (bs ! i) OR push_bit 8 (ucast (bs ! (i + 1))) OR push_bit 16 (ucast (bs ! (i + 2)))
       OR push_bit 24 (ucast (bs ! (i + 3)))"

lemma length_bytes_of_u32 [simp]: "length (bytes_of_u32 w) = 4"
  by (simp add: bytes_of_u32_def)

lemma u32_parts:
  "ucast (ucast w :: u8) OR push_bit 8 (ucast (ucast (drop_bit 8 w) :: u8))
     OR push_bit 16 (ucast (ucast (drop_bit 16 w) :: u8))
     OR push_bit 24 (ucast (ucast (drop_bit 24 w) :: u8)) = (w :: u32)"
proof (rule bit_word_eqI)
  fix n
  assume "n < LENGTH(32)"
  consider "n < 8" | "8 \<le> n" "n < 16" | "16 \<le> n" "n < 24" | "24 \<le> n" by linarith
  then show "bit (ucast (ucast w :: u8) OR push_bit 8 (ucast (ucast (drop_bit 8 w) :: u8))
      OR push_bit 16 (ucast (ucast (drop_bit 16 w) :: u8))
      OR push_bit 24 (ucast (ucast (drop_bit 24 w) :: u8)) :: u32) n = bit w n"
    using \<open>n < LENGTH(32)\<close> by cases (auto simp: bit_simps)
qed

lemma u32_at_bytes: "length xs = i \<Longrightarrow> u32_at i (xs @ bytes_of_u32 w @ ys) = w"
  using u32_parts [of w] by (simp add: u32_at_def bytes_of_u32_def nth_append)

lemmas u32_at_front = u32_at_bytes [of "[]" 0, simplified]

section \<open>\<^verbatim>\<open>led_actor.h\<close>\<close>

record LedBlink_payload_t =
  lb_period_ms :: u32
  lb_brightness :: u8

record GetLedStateResponse_payload_t =
  gr_channel :: u8
  gr_on :: u8
  gr_brightness :: u8
  gr_on_time_ms :: u32

record LedFault_payload_t =
  lf_error_code :: u32
  lf_channel :: u8

definition LedBlink_bytes :: "LedBlink_payload_t \<Rightarrow> u8 list" where
  "LedBlink_bytes p = bytes_of_u32 (lb_period_ms p) @ [lb_brightness p, 0, 0, 0]"

definition LedBlink_at :: "u8 list \<Rightarrow> LedBlink_payload_t" where
  "LedBlink_at bs = \<lparr> lb_period_ms = u32_at 0 bs, lb_brightness = bs ! 4 \<rparr>"

definition GetLedStateResponse_bytes :: "GetLedStateResponse_payload_t \<Rightarrow> u8 list" where
  "GetLedStateResponse_bytes p =
     [gr_channel p, gr_on p, gr_brightness p, 0] @ bytes_of_u32 (gr_on_time_ms p)"

definition GetLedStateResponse_at :: "u8 list \<Rightarrow> GetLedStateResponse_payload_t" where
  "GetLedStateResponse_at bs =
     \<lparr> gr_channel = bs ! 0, gr_on = bs ! 1, gr_brightness = bs ! 2, gr_on_time_ms = u32_at 4 bs \<rparr>"

definition LedFault_bytes :: "LedFault_payload_t \<Rightarrow> u8 list" where
  "LedFault_bytes p = bytes_of_u32 (lf_error_code p) @ [lf_channel p, 0, 0, 0]"

definition LedFault_at :: "u8 list \<Rightarrow> LedFault_payload_t" where
  "LedFault_at bs = \<lparr> lf_error_code = u32_at 0 bs, lf_channel = bs ! 4 \<rparr>"

section \<open>\<^verbatim>\<open>button_actor.h\<close>\<close>

record ButtonHold_payload_t =
  bh_button_id :: u8
  bh_hold_ms :: u32

definition ButtonHold_bytes :: "ButtonHold_payload_t \<Rightarrow> u8 list" where
  "ButtonHold_bytes p = [bh_button_id p, 0, 0, 0] @ bytes_of_u32 (bh_hold_ms p)"

definition ButtonHold_at :: "u8 list \<Rightarrow> ButtonHold_payload_t" where
  "ButtonHold_at bs = \<lparr> bh_button_id = bs ! 0, bh_hold_ms = u32_at 4 bs \<rparr>"

section \<open>\<^verbatim>\<open>basic_zephyr/src/main.c\<close>\<close>

record BasicStatusResponse_payload_t =
  sr_request_id :: u32
  sr_ping_count :: u32
  sr_pong_count :: u32

definition BasicStatusResponse_bytes :: "BasicStatusResponse_payload_t \<Rightarrow> u8 list" where
  "BasicStatusResponse_bytes p =
     bytes_of_u32 (sr_request_id p) @ bytes_of_u32 (sr_ping_count p) @ bytes_of_u32 (sr_pong_count p)"

definition BasicStatusResponse_at :: "u8 list \<Rightarrow> BasicStatusResponse_payload_t" where
  "BasicStatusResponse_at bs =
     \<lparr> sr_request_id = u32_at 0 bs, sr_ping_count = u32_at 4 bs, sr_pong_count = u32_at 8 bs \<rparr>"

section \<open>Reading back what was written\<close>

lemma payload_lengths [simp]:
  "length (LedBlink_bytes b) = 8" "length (GetLedStateResponse_bytes g) = 8" "length (LedFault_bytes f) = 8"
  "length (ButtonHold_bytes h) = 8" "length (BasicStatusResponse_bytes r) = 12"
  by (simp_all add: LedBlink_bytes_def GetLedStateResponse_bytes_def LedFault_bytes_def ButtonHold_bytes_def
      BasicStatusResponse_bytes_def)

lemma payload_round_trips [simp]:
  "LedBlink_at (LedBlink_bytes b) = b" "GetLedStateResponse_at (GetLedStateResponse_bytes g) = g"
  "LedFault_at (LedFault_bytes f) = f" "ButtonHold_at (ButtonHold_bytes h) = h"
  "BasicStatusResponse_at (BasicStatusResponse_bytes r) = r"
proof -
  show "LedBlink_at (LedBlink_bytes b) = b" "LedFault_at (LedFault_bytes f) = f"
    by (simp_all add: LedBlink_at_def LedBlink_bytes_def LedFault_at_def LedFault_bytes_def u32_at_front
        nth_append)
  show "GetLedStateResponse_at (GetLedStateResponse_bytes g) = g"
    using u32_at_bytes [of "[gr_channel g, gr_on g, gr_brightness g, 0]" 4 "gr_on_time_ms g" "[]"]
    by (simp add: GetLedStateResponse_at_def GetLedStateResponse_bytes_def)
  show "ButtonHold_at (ButtonHold_bytes h) = h"
    using u32_at_bytes [of "[bh_button_id h, 0, 0, 0]" 4 "bh_hold_ms h" "[]"]
    by (simp add: ButtonHold_at_def ButtonHold_bytes_def)
  show "BasicStatusResponse_at (BasicStatusResponse_bytes r) = r"
    using u32_at_bytes [of "bytes_of_u32 (sr_request_id r)" 4 "sr_ping_count r" "bytes_of_u32 (sr_pong_count r)"]
      u32_at_bytes [of "bytes_of_u32 (sr_request_id r) @ bytes_of_u32 (sr_ping_count r)" 8 "sr_pong_count r" "[]"]
    by (simp add: BasicStatusResponse_at_def BasicStatusResponse_bytes_def u32_at_front)
qed

end
