(* ===== verification/Ipc_Startup.thy ===== *)
theory Ipc_Startup
  imports Ipc_Registry
begin

text \<open>
  The static declarations of a program: every declaration macro of a port's \<^verbatim>\<open>ipc_actor_define.h\<close>
  generates a function that the startup code calls before \<^verbatim>\<open>main\<close> (a constructor on POSIX, a
  \<^verbatim>\<open>SYS_INIT\<close> entry on Zephyr), in an order chosen by the linker. This theory runs a list of
  declarations, says when the program comes up and what the tables then hold, and that the order does
  not decide where messages go.
\<close>

section \<open>Declarations\<close>

datatype static_decl =
    Declare_actor aptr
  | Declare_handler aptr dptr fnptr
  | Declare_start_hook aptr fnptr
  | Declare_stop_hook aptr fnptr
  | Declare_unknown_hook aptr fnptr
  | Declare_supervision aptr ipc_supervision_strategy_t
  | Declare_failure_hook aptr fnptr

fun run_decl :: "static_decl \<Rightarrow> ('p, 'u) sys \<Rightarrow> ('p, 'u) sys outcome option" where
  "run_decl (Declare_actor a) = ipc_actor_register_static a"
| "run_decl (Declare_handler a d h) = ipc_actor_register_handler_static a d h"
| "run_decl (Declare_start_hook a h) = ipc_actor_register_start_hook_static a h"
| "run_decl (Declare_stop_hook a h) = ipc_actor_register_stop_hook_static a h"
| "run_decl (Declare_unknown_hook a h) = ipc_actor_register_unknown_hook_static a h"
| "run_decl (Declare_supervision a g) = ipc_actor_register_supervision_static a g"
| "run_decl (Declare_failure_hook a h) = ipc_actor_register_failure_hook_static a h"

fun run_decls :: "static_decl list \<Rightarrow> ('p, 'u) sys \<Rightarrow> ('p, 'u) sys outcome option" where
  "run_decls [] s = Some (Returns s)"
| "run_decls (x # xs) s = then_do (run_decl x s) (run_decls xs)"

text \<open>
  On Zephyr the generated function also returns 0, the success code of a \<^verbatim>\<open>SYS_INIT\<close> entry; the boot
  code goes on with the next entry.
\<close>

definition sys_init_decl :: "static_decl \<Rightarrow> ('p, 'u) sys \<Rightarrow> (int \<times> ('p, 'u) sys) outcome option" where
  "sys_init_decl x s = then_do (run_decl x s) (\<lambda>t. Some (Returns (0, t)))"

fun sys_init_decls :: "static_decl list \<Rightarrow> ('p, 'u) sys \<Rightarrow> ('p, 'u) sys outcome option" where
  "sys_init_decls [] s = Some (Returns s)"
| "sys_init_decls (x # xs) s = then_do (sys_init_decl x s) (\<lambda>(rc, t). sys_init_decls xs t)"

lemma then_do_assoc: "then_do (then_do r f) g = then_do r (\<lambda>x. then_do (f x) g)"
  by (cases "(r, f)" rule: then_do.cases) simp_all

lemma run_decls_snoc: "run_decls (xs @ [x]) s = then_do (run_decls xs s) (run_decl x)"
proof (induction xs arbitrary: s)
  case Nil
  then show ?case by (cases "(run_decl x s, run_decls [] :: ('a, 'b) sys \<Rightarrow> _)" rule: then_do.cases) auto
next
  case (Cons y ys)
  have "run_decls (ys @ [x]) = (\<lambda>s :: ('a, 'b) sys. then_do (run_decls ys s) (run_decl x))"
    by (rule ext) (rule Cons.IH)
  then show ?case by (simp add: then_do_assoc)
qed

lemma sys_init_decls_eq: "sys_init_decls xs = run_decls xs"
proof
  show "sys_init_decls xs s = run_decls xs s" for s :: "('a, 'b) sys"
    by (induction xs arbitrary: s) (simp_all add: sys_init_decl_def then_do_assoc)
qed

section \<open>What a list of declarations says\<close>

fun decl_actor :: "static_decl \<Rightarrow> aptr" where
  "decl_actor (Declare_actor a) = a"
| "decl_actor (Declare_handler a d h) = a"
| "decl_actor (Declare_start_hook a h) = a"
| "decl_actor (Declare_stop_hook a h) = a"
| "decl_actor (Declare_unknown_hook a h) = a"
| "decl_actor (Declare_supervision a g) = a"
| "decl_actor (Declare_failure_hook a h) = a"

fun decl_field :: "static_decl \<Rightarrow> ipc_actor \<Rightarrow> ipc_actor" where
  "decl_field (Declare_start_hook a h) x = x\<lparr> a_start_hook := Some h \<rparr>"
| "decl_field (Declare_stop_hook a h) x = x\<lparr> a_stop_hook := Some h \<rparr>"
| "decl_field (Declare_unknown_hook a h) x = x\<lparr> a_unknown_handler := Some h \<rparr>"
| "decl_field (Declare_supervision a g) x = x\<lparr> a_supervision := g \<rparr>"
| "decl_field (Declare_failure_hook a h) x = x\<lparr> a_failure_hook := Some h \<rparr>"
| "decl_field _ x = x"

type_synonym handler_decl = "aptr \<times> dptr \<times> fnptr"

fun handlers :: "static_decl list \<Rightarrow> handler_decl list" where
  "handlers [] = []"
| "handlers (Declare_handler a d h # xs) = (a, d, h) # handlers xs"
| "handlers (_ # xs) = handlers xs"

lemma handlers_append: "handlers (xs @ ys) = handlers xs @ handlers ys"
  by (induction xs rule: handlers.induct) simp_all

lemma handlers_filter: "handlers xs = [(a, d, h). Declare_handler a d h \<leftarrow> xs]"
  by (induction xs rule: handlers.induct) simp_all

abbreviation handler_id :: "(dptr \<Rightarrow> ipc_msg_desc_t) \<Rightarrow> handler_decl \<Rightarrow> u32" where
  "handler_id ds x \<equiv> eventual_id (ds (fst (snd x)))"

abbreviation handler_name :: "(dptr \<Rightarrow> ipc_msg_desc_t) \<Rightarrow> handler_decl \<Rightarrow> string option" where
  "handler_name ds x \<equiv> d_name (ds (fst (snd x)))"

abbreviation for_event :: "(dptr \<Rightarrow> ipc_msg_desc_t) \<Rightarrow> handler_decl \<Rightarrow> bool" where
  "for_event ds x \<equiv> d_kind (ds (fst (snd x))) = IPC_EVENT"

definition route_of :: "(dptr \<Rightarrow> ipc_msg_desc_t) \<Rightarrow> handler_decl \<Rightarrow> ipc_registration_t" where
  "route_of ds x = \<lparr> r_msg_id = handler_id ds x, r_msg_name = the (handler_name ds x), r_actor = fst x \<rparr>"

definition subscription_of :: "(dptr \<Rightarrow> ipc_msg_desc_t) \<Rightarrow> handler_decl \<Rightarrow> ipc_subscription_t" where
  "subscription_of ds x = \<lparr> s_msg_id = handler_id ds x, s_msg_name = the (handler_name ds x), s_actor = fst x \<rparr>"

definition binding_of :: "(dptr \<Rightarrow> ipc_msg_desc_t) \<Rightarrow> handler_decl \<Rightarrow> ipc_handler_binding_t" where
  "binding_of ds x = \<lparr> b_actor = fst x, b_msg_id = handler_id ds x, b_handler = snd (snd x) \<rparr>"

abbreviation cmds :: "(dptr \<Rightarrow> ipc_msg_desc_t) \<Rightarrow> handler_decl list \<Rightarrow> handler_decl list" where
  "cmds ds \<equiv> filter (\<lambda>x. \<not> for_event ds x)"

abbreviation events :: "(dptr \<Rightarrow> ipc_msg_desc_t) \<Rightarrow> handler_decl list \<Rightarrow> handler_decl list" where
  "events ds \<equiv> filter (for_event ds)"

text \<open>
  The conditions under which a program comes up: one ID never stands for two names, a command has one
  handler, an actor handles an event once, the tables are large enough, and in a build with assertions
  every handled message is a command or an event.
\<close>

definition decls_ok :: "ipc_config \<Rightarrow> (dptr \<Rightarrow> ipc_msg_desc_t) \<Rightarrow> handler_decl list \<Rightarrow> bool" where
  "decls_ok c ds hs \<longleftrightarrow>
     (\<forall>x \<in> set hs. \<forall>y \<in> set hs. handler_id ds x = handler_id ds y \<longrightarrow> handler_name ds x = handler_name ds y)
     \<and> distinct (map (handler_id ds) (cmds ds hs))
     \<and> distinct (map (\<lambda>x. (fst x, handler_id ds x)) (events ds hs))
     \<and> length (cmds ds hs) \<le> IPC_CORE_MAX_REGISTRATIONS c
     \<and> length (events ds hs) \<le> IPC_CORE_MAX_SUBSCRIPTIONS c
     \<and> (build_ndebug c \<or> (\<forall>x \<in> set (cmds ds hs). d_kind (ds (fst (snd x))) = IPC_CMD))"

text \<open>The state after a list of declarations: exactly what they say, in their order.\<close>

definition declared_state ::
    "ipc_config \<Rightarrow> (aptr \<Rightarrow> ipc_actor) \<Rightarrow> (dptr \<Rightarrow> ipc_msg_desc_t) \<Rightarrow> static_decl list \<Rightarrow> ('p, 'u) sys \<Rightarrow> bool" where
  "declared_state c as ds xs t \<longleftrightarrow>
     registration_inv t (fold append_new (map decl_actor xs) [])
     \<and> lifecycle_state t = IPC_LIFECYCLE_STOPPED \<and> conf t = c
     \<and> (\<forall>d. eventual_id (descs t d) = eventual_id (ds d) \<and> d_kind (descs t d) = d_kind (ds d)
          \<and> d_size (descs t d) = d_size (ds d) \<and> d_name (descs t d) = d_name (ds d))
     \<and> regs t = map (route_of ds) (cmds ds (handlers xs))
     \<and> subs t = map (subscription_of ds) (events ds (handlers xs))
     \<and> bindings t = map (binding_of ds) (handlers xs)
     \<and> (\<forall>a. (actors t a)\<lparr> a_next := None \<rparr>
          = (fold decl_field (filter (\<lambda>x. decl_actor x = a) xs) (as a))\<lparr> a_next := None \<rparr>)"

lemma decls_ok_snoc:
  "decls_ok c ds (hs @ [x]) \<longleftrightarrow>
     decls_ok c ds hs
     \<and> (\<forall>y \<in> set hs. handler_id ds y = handler_id ds x \<longrightarrow> handler_name ds y = handler_name ds x)
     \<and> (if for_event ds x
        then (fst x, handler_id ds x) \<notin> (\<lambda>y. (fst y, handler_id ds y)) ` set (events ds hs)
             \<and> length (events ds hs) < IPC_CORE_MAX_SUBSCRIPTIONS c
        else (d_kind (ds (fst (snd x))) = IPC_CMD \<or> build_ndebug c)
             \<and> handler_id ds x \<notin> handler_id ds ` set (cmds ds hs)
             \<and> length (cmds ds hs) < IPC_CORE_MAX_REGISTRATIONS c)"
  unfolding decls_ok_def by (cases "for_event ds x") (auto simp: Suc_le_eq)


section \<open>One declaration\<close>

lemma declared_counts:
  assumes "declared_state c as ds xs t"
  shows "reg_count t = length (cmds ds (handlers xs))" "sub_count t = length (events ds (handlers xs))"
proof -
  have "tables_inv t" "regs t = map (route_of ds) (cmds ds (handlers xs))"
    "subs t = map (subscription_of ds) (events ds (handlers xs))"
    using assms by (simp_all add: declared_state_def registration_inv_def)
  then show "reg_count t = length (cmds ds (handlers xs))" "sub_count t = length (events ds (handlers xs))"
    by (auto simp: tables_inv_def dest!: arg_cong [of "regs t" _ length] arg_cong [of "subs t" _ length])
qed

lemma declared_named_ids:
  assumes "declared_state c as ds xs t"
  shows "set (named_ids t) = (\<lambda>x. (handler_id ds x, the (handler_name ds x))) ` set (handlers xs)"
proof -
  let ?f = "\<lambda>x. (handler_id ds x, the (handler_name ds x))" and ?hs = "handlers xs"
  have tab: "regs t = map (route_of ds) (cmds ds ?hs)" "subs t = map (subscription_of ds) (events ds ?hs)"
    using assms by (simp_all add: declared_state_def)
  have "set (named_ids t) = ?f ` set (cmds ds ?hs) \<union> ?f ` set (events ds ?hs)"
    unfolding named_ids_def tab by (simp add: image_image route_of_def subscription_of_def)
  also have "\<dots> = ?f ` set ?hs" by auto
  finally show ?thesis .
qed

lemma declared_accepts:
  assumes "declared_state c as ds xs t" "decls_ok c ds (handlers xs)"
    and "\<forall>y \<in> set (handlers xs). handler_name ds y \<noteq> None" "d_name (ds d) \<noteq> None"
  shows "handler_accepted a d t \<longleftrightarrow> decls_ok c ds (handlers xs @ [(a, d, h)])"
proof -
  have d: "eventual_id (descs t d) = eventual_id (ds d)" "d_kind (descs t d) = d_kind (ds d)"
    "d_name (descs t d) = d_name (ds d)" "conf t = c"
    and tab: "regs t = map (route_of ds) (cmds ds (handlers xs))"
    "subs t = map (subscription_of ds) (events ds (handlers xs))"
    using assms(1) by (simp_all add: declared_state_def)
  have ids: "r_msg_id ` set (regs t) = handler_id ds ` set (cmds ds (handlers xs))"
    "sub_key ` set (subs t) = (\<lambda>y. (fst y, handler_id ds y)) ` set (events ds (handlers xs))"
    unfolding tab by (simp_all add: image_image route_of_def subscription_of_def)
  have names: "list_all (\<lambda>(j, m). j = eventual_id (ds d) \<longrightarrow> Some m = d_name (ds d)) (named_ids t)
      \<longleftrightarrow> (\<forall>y \<in> set (handlers xs). handler_id ds y = eventual_id (ds d) \<longrightarrow> handler_name ds y = d_name (ds d))"
    using assms(3) by (auto simp: list_all_iff declared_named_ids [OF assms(1)])
  have counts: "sub_count t < n \<longleftrightarrow> length (events ds (handlers xs)) < n"
    "reg_count t < n \<longleftrightarrow> length (cmds ds (handlers xs)) < n" for n
    by (simp_all only: declared_counts [OF assms(1)])
  show ?thesis
    unfolding handler_accepted_def Let_def d names decls_ok_snoc set_map ids counts
    using assms(2) by simp
qed

text \<open>What an accepted handler changes, and what it leaves alone.\<close>

lemma eventual_id_ensure_id: "eventual_id (descs (ipc_ensure_id d s) e) = eventual_id (descs s e)"
  by (cases "e = d") (simp_all add: eventual_id_ensured ensure_id_desc)

lemma registered_with_frame:
  "lifecycle_state (registered_with a d h s) = lifecycle_state s" "conf (registered_with a d h s) = conf s"
  "actors (registered_with a d h s) = actors s"
  "eventual_id (descs (registered_with a d h s) e) = eventual_id (descs s e)"
  "d_kind (descs (registered_with a d h s) e) = d_kind (descs s e)"
  "d_size (descs (registered_with a d h s) e) = d_size (descs s e)"
  "d_name (descs (registered_with a d h s) e) = d_name (descs s e)"
proof -
  have eq: "registered_with a d h s = (if d_kind (descs (ipc_ensure_id d s) d) = IPC_EVENT
      then add_subscription a (d_id (descs (ipc_ensure_id d s) d)) (the (d_name (descs (ipc_ensure_id d s) d))) h
             (ipc_ensure_id d s)
      else add_route a (d_id (descs (ipc_ensure_id d s) d)) (the (d_name (descs (ipc_ensure_id d s) d))) h
             (ipc_ensure_id d s))"
    by (simp only: registered_with_def Let_def)
  have "descs (registered_with a d h s) = descs (ipc_ensure_id d s)"
    unfolding eq by (simp add: add_subscription_def add_route_def)
  then show "eventual_id (descs (registered_with a d h s) e) = eventual_id (descs s e)"
    "d_kind (descs (registered_with a d h s) e) = d_kind (descs s e)"
    "d_size (descs (registered_with a d h s) e) = d_size (descs s e)"
    "d_name (descs (registered_with a d h s) e) = d_name (descs s e)"
    by (simp_all add: ensure_id_desc eventual_id_ensure_id)
  show "lifecycle_state (registered_with a d h s) = lifecycle_state s" "conf (registered_with a d h s) = conf s"
    "actors (registered_with a d h s) = actors s"
    unfolding eq by (simp_all add: add_subscription_def add_route_def ensure_id_frame)
qed

lemma registered_with_tables:
  assumes "tables_inv s" "handler_accepted a d s" "d_name (descs s d) \<noteq> None"
  shows "regs (registered_with a d h s) = regs s @ map (route_of (descs s)) (cmds (descs s) [(a, d, h)])"
    "subs (registered_with a d h s) = subs s @ map (subscription_of (descs s)) (events (descs s) [(a, d, h)])"
    "bindings (registered_with a d h s) = bindings s @ [binding_of (descs s) (a, d, h)]"
proof -
  let ?s2 = "ipc_ensure_id d s"
  have "same_tables s ?s2" by (rule same_tables_ensure_id) (simp add: same_tables_def)
  then have inv: "tables_inv ?s2" using assms(1) tables_inv_cong by blast
  have room: "if d_kind (descs s d) = IPC_EVENT then sub_count ?s2 < IPC_CORE_MAX_SUBSCRIPTIONS (conf ?s2)
      else reg_count ?s2 < IPC_CORE_MAX_REGISTRATIONS (conf ?s2)"
    using assms(2) unfolding handler_accepted_def Let_def by (auto simp: ensure_id_frame)
  show "regs (registered_with a d h s) = regs s @ map (route_of (descs s)) (cmds (descs s) [(a, d, h)])"
    "subs (registered_with a d h s) = subs s @ map (subscription_of (descs s)) (events (descs s) [(a, d, h)])"
    "bindings (registered_with a d h s) = bindings s @ [binding_of (descs s) (a, d, h)]"
    using room add_route_tables [OF inv] add_subscription_tables [OF inv]
    by (simp_all add: registered_with_def Let_def ensure_id_desc ensure_id_frame route_of_def subscription_of_def
        binding_of_def split: if_splits)
qed

lemma entry_of_cong:
  assumes "\<And>d. eventual_id (ds' d) = eventual_id (ds d) \<and> d_kind (ds' d) = d_kind (ds d) \<and> d_name (ds' d) = d_name (ds d)"
  shows "route_of ds' = route_of ds" "subscription_of ds' = subscription_of ds" "binding_of ds' = binding_of ds"
    "cmds ds' = cmds ds" "events ds' = events ds"
  using assms by (simp_all add: fun_eq_iff route_of_def subscription_of_def binding_of_def)

lemma declared_handler:
  assumes "declared_state c as ds xs t" "decls_ok c ds (handlers xs)"
    and "\<forall>y \<in> set (handlers (xs @ [Declare_handler a d h])). handler_name ds y \<noteq> None"
  shows "if decls_ok c ds (handlers (xs @ [Declare_handler a d h]))
    then \<exists>u. ipc_actor_register_handler_static a d h t = Some (Returns u)
           \<and> declared_state c as ds (xs @ [Declare_handler a d h]) u
    else ipc_actor_register_handler_static a d h t = Some Aborts"
proof -
  let ?ys = "fold append_new (map decl_actor xs) []"
  have inv: "registration_inv t ?ys" and st: "lifecycle_state t = IPC_LIFECYCLE_STOPPED"
    using assms(1) by (simp_all add: declared_state_def)
  then have al: "actor_list t ?ys" and ti: "tables_inv t" by (simp_all add: registration_inv_def)
  obtain n where n: "d_name (descs t d) = Some n"
    using assms(1,3) by (auto simp: declared_state_def handlers_append)
  obtain t1 where t1: "ipc_actor_register_static a t = Some (Returns t1)"
    "actor_list t1 (append_new a ?ys)" "links_only t t1"
    using register_static_cases [OF al st] by blast
  have acc: "handler_accepted a d t \<longleftrightarrow> decls_ok c ds (handlers (xs @ [Declare_handler a d h]))"
    using declared_accepts [OF assms(1,2), of d a h] assms(3) by (simp add: handlers_append)
  note eq = register_handler_static_eq [OF al st ti n t1(1,3), of h]
  show ?thesis
  proof (cases "handler_accepted a d t")
    case True
    let ?u = "registered_with a d h t1"
    have "registration_inv ?u (append_new a ?ys)"
      by (rule registered_with_inv [OF inv True n t1(2,3)])
    moreover have frame: "lifecycle_state ?u = IPC_LIFECYCLE_STOPPED" "conf ?u = c"
      "eventual_id (descs ?u e) = eventual_id (ds e)" "d_kind (descs ?u e) = d_kind (ds e)"
      "d_size (descs ?u e) = d_size (ds e)" "d_name (descs ?u e) = d_name (ds e)"
      "(actors ?u b)\<lparr> a_next := None \<rparr> = (actors t b)\<lparr> a_next := None \<rparr>" for e b
      using assms(1) t1(3) by (auto simp: registered_with_frame declared_state_def links_only_def)
    moreover have "regs ?u = map (route_of ds) (cmds ds (handlers xs @ [(a, d, h)]))"
      "subs ?u = map (subscription_of ds) (events ds (handlers xs @ [(a, d, h)]))"
      "bindings ?u = map (binding_of ds) (handlers xs @ [(a, d, h)])"
    proof -
      have same: "same_tables t t1" "descs t1 = descs t" using links_only_fields [OF t1(3)] by simp_all
      have ti1: "tables_inv t1" using ti tables_inv_cong [OF same(1)] by simp
      have acc1: "handler_accepted a d t1" using True handler_accepted_cong [OF same] by simp
      have ds: "\<And>d. eventual_id (descs t1 d) = eventual_id (ds d) \<and> d_kind (descs t1 d) = d_kind (ds d)
          \<and> d_name (descs t1 d) = d_name (ds d)"
        using assms(1) same(2) by (simp add: declared_state_def)
      have old: "regs t1 = map (route_of ds) (cmds ds (handlers xs))"
        "subs t1 = map (subscription_of ds) (events ds (handlers xs))"
        "bindings t1 = map (binding_of ds) (handlers xs)"
        using assms(1) same(1) by (simp_all add: declared_state_def same_tables_def)
      have "d_name (descs t1 d) \<noteq> None" using n same(2) by simp
      note new = registered_with_tables [OF ti1 acc1 this, of h, unfolded entry_of_cong [OF ds] old]
      show "regs ?u = map (route_of ds) (cmds ds (handlers xs @ [(a, d, h)]))"
        "subs ?u = map (subscription_of ds) (events ds (handlers xs @ [(a, d, h)]))"
        "bindings ?u = map (binding_of ds) (handlers xs @ [(a, d, h)])"
        unfolding new using ds [of d] by simp_all
    qed
    ultimately have "declared_state c as ds (xs @ [Declare_handler a d h]) ?u"
      using assms(1) unfolding declared_state_def by (simp add: handlers_append)
    then show ?thesis using eq acc True by auto
  qed (use eq acc in simp)
qed


lemma decl_field_links:
  "y\<lparr> a_next := None \<rparr> = z\<lparr> a_next := None \<rparr> \<Longrightarrow>
     (decl_field x y)\<lparr> a_next := None \<rparr> = (decl_field x z)\<lparr> a_next := None \<rparr>"
proof -
  have "(decl_field x y)\<lparr> a_next := None \<rparr> = decl_field x (y\<lparr> a_next := None \<rparr>)" for y
    by (cases x) simp_all
  then show "y\<lparr> a_next := None \<rparr> = z\<lparr> a_next := None \<rparr> \<Longrightarrow>
     (decl_field x y)\<lparr> a_next := None \<rparr> = (decl_field x z)\<lparr> a_next := None \<rparr>" by simp
qed

lemma decl_field_eqs:
  "decl_field (Declare_start_hook a h) = (\<lambda>x. x\<lparr> a_start_hook := Some h \<rparr>)"
  "decl_field (Declare_stop_hook a h) = (\<lambda>x. x\<lparr> a_stop_hook := Some h \<rparr>)"
  "decl_field (Declare_unknown_hook a h) = (\<lambda>x. x\<lparr> a_unknown_handler := Some h \<rparr>)"
  "decl_field (Declare_supervision a g) = (\<lambda>x. x\<lparr> a_supervision := g \<rparr>)"
  "decl_field (Declare_failure_hook a h) = (\<lambda>x. x\<lparr> a_failure_hook := Some h \<rparr>)"
  by (simp_all add: fun_eq_iff)

lemma declared_same_tables:
  assumes "declared_state c as ds xs t" "handlers (xs @ [x]) = handlers xs" "same_tables t u"
    and "descs u = descs t" "lifecycle_state u = lifecycle_state t"
    and "actor_list u (append_new (decl_actor x) (fold append_new (map decl_actor xs) []))"
    and "\<And>b. (actors u b)\<lparr> a_next := None \<rparr>
      = (if b = decl_actor x then decl_field x (actors t b) else actors t b)\<lparr> a_next := None \<rparr>"
  shows "declared_state c as ds (xs @ [x]) u"
proof -
  have "registration_inv u (append_new (decl_actor x) (fold append_new (map decl_actor xs) []))"
    by (rule registration_inv_same_tables [OF _ assms(3,6)])
       (use assms(1) in \<open>auto simp: declared_state_def set_append_new\<close>)
  moreover have "(actors u b)\<lparr> a_next := None \<rparr>
      = (fold decl_field (filter (\<lambda>y. decl_actor y = b) (xs @ [x])) (as b))\<lparr> a_next := None \<rparr>" for b
  proof -
    have old: "(actors t b)\<lparr> a_next := None \<rparr>
        = (fold decl_field (filter (\<lambda>y. decl_actor y = b) xs) (as b))\<lparr> a_next := None \<rparr>"
      using assms(1) by (simp add: declared_state_def)
    show ?thesis
      using old decl_field_links [OF old, of x] unfolding assms(7) [of b]
      by (cases "b = decl_actor x") simp_all
  qed
  ultimately show ?thesis
    using assms(1,3-5) unfolding declared_state_def assms(2) by (simp add: same_tables_def)
qed

lemma declared_actor:
  assumes "declared_state c as ds xs t" "x = Declare_actor a"
  shows "\<exists>u. run_decl x t = Some (Returns u) \<and> declared_state c as ds (xs @ [x]) u"
proof -
  have "actor_list t (fold append_new (map decl_actor xs) [])" "lifecycle_state t = IPC_LIFECYCLE_STOPPED"
    using assms(1) by (simp_all add: declared_state_def registration_inv_def)
  from register_static_cases [OF this, of a]
  obtain u where u: "ipc_actor_register_static a t = Some (Returns u)"
    "actor_list u (append_new a (fold append_new (map decl_actor xs) []))" "links_only t u" by blast
  note f = links_only_fields [OF u(3)]
  have "declared_state c as ds (xs @ [x]) u"
    by (rule declared_same_tables [OF assms(1) _ f(3,1,2)])
       (use u(2,3) assms(2) in \<open>auto simp: handlers_append links_only_def\<close>)
  then show ?thesis using u(1) assms(2) by simp
qed

lemma declared_field:
  assumes "declared_state c as ds xs t" "run_decl x t = register_actor_field (decl_actor x) (decl_field x) t"
    and "handlers [x] = []"
  shows "\<exists>u. run_decl x t = Some (Returns u) \<and> declared_state c as ds (xs @ [x]) u"
proof -
  have al: "actor_list t (fold append_new (map decl_actor xs) [])" and st: "lifecycle_state t = IPC_LIFECYCLE_STOPPED"
    using assms(1) by (simp_all add: declared_state_def registration_inv_def)
  have next_of: "a_next (decl_field x y) = a_next y" for y by (cases x) simp_all
  obtain t1 where t1: "run_decl x t
      = Some (Returns (t1\<lparr> actors := (actors t1)(decl_actor x := decl_field x (actors t1 (decl_actor x))) \<rparr>))"
    "links_only t t1"
    "actor_list (t1\<lparr> actors := (actors t1)(decl_actor x := decl_field x (actors t1 (decl_actor x))) \<rparr>)
       (append_new (decl_actor x) (fold append_new (map decl_actor xs) []))"
    using register_actor_field_eq [OF al st next_of, where a = "decl_actor x"] unfolding assms(2) by blast
  let ?u = "t1\<lparr> actors := (actors t1)(decl_actor x := decl_field x (actors t1 (decl_actor x))) \<rparr>"
  note f = links_only_fields [OF t1(2)]
  have old: "(actors t1 b)\<lparr> a_next := None \<rparr> = (actors t b)\<lparr> a_next := None \<rparr>" for b
    using t1(2) by (auto simp: links_only_def)
  have "declared_state c as ds (xs @ [x]) ?u"
  proof (rule declared_same_tables [OF assms(1) _ _ _ _ t1(3)])
    show "(actors ?u b)\<lparr> a_next := None \<rparr>
      = (if b = decl_actor x then decl_field x (actors t b) else actors t b)\<lparr> a_next := None \<rparr>" for b
      using old [of b] decl_field_links [OF old [of b], of x] by (cases "b = decl_actor x") simp_all
  qed (use f(1-3) assms(3) in \<open>simp_all add: handlers_append same_tables_def\<close>)
  then show ?thesis using t1(1) by simp
qed

lemma declared_step:
  assumes "declared_state c as ds xs t" "decls_ok c ds (handlers xs)"
    and "\<forall>y \<in> set (handlers (xs @ [x])). handler_name ds y \<noteq> None"
  shows "if decls_ok c ds (handlers (xs @ [x]))
    then \<exists>u. run_decl x t = Some (Returns u) \<and> declared_state c as ds (xs @ [x]) u
    else run_decl x t = Some Aborts"
proof (cases x)
  case (Declare_handler a d h)
  with declared_handler [OF assms(1,2), of a d h] assms(3) show ?thesis by simp
next
  case (Declare_actor a)
  with declared_actor [OF assms(1) this] assms(2) show ?thesis by (simp add: handlers_append)
next
  case (Declare_start_hook a h)
  with declared_field [OF assms(1), of x] assms(2) show ?thesis
    by (simp add: handlers_append register_hook_defs decl_field_eqs)
next
  case (Declare_stop_hook a h)
  with declared_field [OF assms(1), of x] assms(2) show ?thesis
    by (simp add: handlers_append register_hook_defs decl_field_eqs)
next
  case (Declare_unknown_hook a h)
  with declared_field [OF assms(1), of x] assms(2) show ?thesis
    by (simp add: handlers_append register_hook_defs decl_field_eqs)
next
  case (Declare_supervision a g)
  with declared_field [OF assms(1), of x] assms(2) show ?thesis
    by (simp add: handlers_append register_hook_defs decl_field_eqs)
next
  case (Declare_failure_hook a h)
  with declared_field [OF assms(1), of x] assms(2) show ?thesis
    by (simp add: handlers_append register_hook_defs decl_field_eqs)
qed


section \<open>Properties\<close>

lemma declared_state_initial: "declared_state c as ds [] (ipc_initial c as ds p u)"
proof -
  let ?s = "ipc_initial c as ds p u"
  have "lifecycle_state ?s = IPC_LIFECYCLE_STOPPED" "conf ?s = c" "descs ?s = ds" "actors ?s = as"
    "reg_count ?s = 0" "sub_count ?s = 0" "handler_count ?s = 0"
    by (simp_all add: ipc_initial_def)
  then show ?thesis
    using registration_inv_initial [of c as ds p u] by (simp add: declared_state_def)
qed

lemma decls_ok_prefix: "decls_ok c ds (hs @ ks) \<Longrightarrow> decls_ok c ds hs"
proof (induction ks rule: rev_induct)
  case (snoc k ks)
  then have "decls_ok c ds ((hs @ ks) @ [k])" by simp
  then show ?case using snoc.IH unfolding decls_ok_snoc by blast
qed simp

lemma run_decls_from_initial:
  assumes "\<forall>x \<in> set (handlers xs). handler_name ds x \<noteq> None"
  shows "if decls_ok c ds (handlers xs)
    then \<exists>t. run_decls xs (ipc_initial c as ds p u) = Some (Returns t) \<and> declared_state c as ds xs t
    else run_decls xs (ipc_initial c as ds p u) = Some Aborts"
  using assms
proof (induction xs rule: rev_induct)
  case Nil
  show ?case using declared_state_initial [of c as ds p u] by (simp add: decls_ok_def)
next
  case (snoc x xs)
  then have IH: "if decls_ok c ds (handlers xs)
    then \<exists>t. run_decls xs (ipc_initial c as ds p u) = Some (Returns t) \<and> declared_state c as ds xs t
    else run_decls xs (ipc_initial c as ds p u) = Some Aborts"
    by (auto simp: handlers_append)
  show ?case
  proof (cases "decls_ok c ds (handlers xs)")
    case True
    with IH obtain t where t: "run_decls xs (ipc_initial c as ds p u) = Some (Returns t)"
      "declared_state c as ds xs t" by auto
    from declared_step [OF t(2) True snoc.prems] show ?thesis
      by (simp add: run_decls_snoc t(1))
  next
    case False
    then have "\<not> decls_ok c ds (handlers (xs @ [x]))"
      using decls_ok_prefix [of c ds "handlers xs" "handlers [x]"] by (auto simp: handlers_append)
    with IH False show ?thesis by (simp add: run_decls_snoc)
  qed
qed


text \<open>
  C26: a program's declarations bring it up exactly when they are consistent, in whatever order the
  startup code runs them. From the zeroed program, if no two handled names share an ID, no command has
  two handlers, no actor handles an event twice and the tables are large enough, all registrations
  return, and the actor list, routes, subscriptions, handler bindings, hooks and policies are exactly
  the declared ones, each in the order of their declarations; otherwise some registration ends the
  program. It never walks the actor list for ever.
\<close>

theorem static_declarations_start:
  assumes "\<forall>x \<in> set (handlers xs). handler_name ds x \<noteq> None"
  shows "if decls_ok c ds (handlers xs)
    then \<exists>t. run_decls xs (ipc_initial c as ds p u) = Some (Returns t) \<and> declared_state c as ds xs t
    else run_decls xs (ipc_initial c as ds p u) = Some Aborts"
  by (rule run_decls_from_initial [OF assms])

lemma find_distinct_iff:
  "distinct (map f xs) \<Longrightarrow> find (\<lambda>x. f x = i) xs = Some y \<longleftrightarrow> y \<in> set xs \<and> f y = i"
  by (induction xs) (auto simp: image_iff)

lemma find_distinct_perm:
  assumes "distinct (map f xs)" "distinct (map f ys)" "mset xs = mset ys"
  shows "find (\<lambda>x. f x = i) xs = find (\<lambda>x. f x = i) ys"
  using find_distinct_iff [OF assms(1), of i] find_distinct_iff [OF assms(2), of i] mset_eq_setD [OF assms(3)]
  by (metis option.exhaust)

lemma distinct_map_perm: "mset xs = mset ys \<Longrightarrow> distinct (map f xs) \<longleftrightarrow> distinct (map f ys)"
  by (rule mset_eq_imp_distinct_iff) simp

text \<open>Consistency does not depend on the order, nor do the routes, subscriptions and bindings as sets.\<close>

lemma decls_ok_perm:
  assumes "mset xs = mset ys"
  shows "decls_ok c ds (handlers xs) \<longleftrightarrow> decls_ok c ds (handlers ys)"
    "mset (handlers xs) = mset (handlers ys)"
proof -
  have "mset (handlers xs) = sum_mset (image_mset (\<lambda>x. mset (handlers [x])) (mset xs))" for xs
    by (induction xs rule: handlers.induct) simp_all
  then show eq: "mset (handlers xs) = mset (handlers ys)" using assms by metis
  have sets: "set (handlers xs) = set (handlers ys)" by (rule mset_eq_setD [OF eq])
  have part: "mset (filter p (handlers xs)) = mset (filter p (handlers ys))" for p by (simp add: eq)
  have "distinct (map (handler_id ds) (filter p (handlers xs)))
      \<longleftrightarrow> distinct (map (handler_id ds) (filter p (handlers ys)))"
    "distinct (map (\<lambda>x. (fst x, handler_id ds x)) (filter p (handlers xs)))
      \<longleftrightarrow> distinct (map (\<lambda>x. (fst x, handler_id ds x)) (filter p (handlers ys)))" for p
    by (rule distinct_map_perm [OF part])+
  moreover have "length (filter p (handlers xs)) = length (filter p (handlers ys))" for p
    using part [of p] by (rule mset_eq_length)
  ultimately show "decls_ok c ds (handlers xs) \<longleftrightarrow> decls_ok c ds (handlers ys)"
    unfolding decls_ok_def set_filter sets by simp
qed

lemma run_decls_perm:
  assumes "\<forall>x \<in> set (handlers xs). handler_name ds x \<noteq> None" "mset xs = mset ys"
    and "run_decls xs (ipc_initial c as ds p u) = Some (Returns s)"
  shows "\<exists>t. run_decls ys (ipc_initial c as ds p u) = Some (Returns t)
    \<and> (\<forall>i. find_registered i t = find_registered i s)
    \<and> mset (subs t) = mset (subs s) \<and> mset (bindings t) = mset (bindings s)"
proof -
  have names: "\<forall>x \<in> set (handlers ys). handler_name ds x \<noteq> None"
    using assms(1) mset_eq_setD [OF decls_ok_perm(2) [OF assms(2)]] by simp
  have ok: "decls_ok c ds (handlers xs)" and s: "declared_state c as ds xs s"
    using run_decls_from_initial [OF assms(1), of c as p u] assms(3) by (auto split: if_splits)
  from ok names obtain t where t: "run_decls ys (ipc_initial c as ds p u) = Some (Returns t)"
    "declared_state c as ds ys t"
    using run_decls_from_initial [OF names, of c as p u] decls_ok_perm(1) [OF assms(2)] by auto
  have perm: "mset (filter q (handlers ys)) = mset (filter q (handlers xs))" for q
    by (simp add: decls_ok_perm(2) [OF assms(2)])
  have regs: "mset (regs t) = mset (regs s)"
    using s t(2) perm by (simp add: declared_state_def)
  have "tables_inv t" "tables_inv s" using s t(2) by (simp_all add: declared_state_def registration_inv_def)
  then have "distinct (map r_msg_id (regs t))" "distinct (map r_msg_id (regs s))"
    using tables_inv_unique_route by blast+
  then have "find_registered i t = find_registered i s" for i
    unfolding find_registered_def using find_distinct_perm [OF _ _ regs] by metis
  moreover have "mset (subs t) = mset (subs s)" "mset (bindings t) = mset (bindings s)"
    using s t(2) perm decls_ok_perm(2) [OF assms(2)] by (simp_all add: declared_state_def)
  ultimately show ?thesis using t(1) by blast
qed

text \<open>
  The order in which the startup code runs the declarations does not decide where messages go. If
  one order brings the program up, so does every other, and in the states they reach every command ID
  has the same receiver, every event ID the same subscribers, and every actor the same handlers.
\<close>

theorem startup_order_irrelevant:
  assumes "\<forall>x \<in> set (handlers xs). handler_name ds x \<noteq> None" "mset xs = mset ys"
    and "run_decls xs (ipc_initial c as ds p u) = Some (Returns s)"
  shows "\<exists>t. run_decls ys (ipc_initial c as ds p u) = Some (Returns t)
    \<and> (\<forall>i. find_registered i t = find_registered i s)
    \<and> mset (subs t) = mset (subs s) \<and> mset (bindings t) = mset (bindings s)"
  by (rule run_decls_perm [OF assms])

section \<open>Concrete runs\<close>

lemma ex_decls_ok: "decls_ok ex_config ex_descs (handlers [Declare_actor 2, Declare_handler 1 0 51])"
  by (simp add: decls_ok_def ex_defs)

lemma ex_decl_names:
  "\<forall>x \<in> set (handlers [Declare_actor 2, Declare_handler 1 0 51]). handler_name ex_descs x \<noteq> None"
  by (simp add: ex_defs)

theorem static_declarations_start_witness:
  "\<exists>t. run_decls [Declare_actor 2, Declare_handler 1 0 51] (ex_initial () ()) = Some (Returns t)
    \<and> bindings t = [binding_of ex_descs (1, 0, 51)] \<and> actor_list t [2, 1]"
  using static_declarations_start [OF ex_decl_names, of ex_config ex_actors "()" "()"] ex_decls_ok
  by (auto simp: ex_initial_def declared_state_def registration_inv_def append_new_def)

theorem startup_order_irrelevant_witness:
  "\<exists>s t. run_decls [Declare_actor 2, Declare_handler 1 0 51] (ex_initial () ()) = Some (Returns s)
    \<and> run_decls [Declare_handler 1 0 51, Declare_actor 2] (ex_initial () ()) = Some (Returns t)
    \<and> mset (bindings t) = mset (bindings s)"
proof -
  obtain s where s: "run_decls [Declare_actor 2, Declare_handler 1 0 51] (ipc_initial ex_config ex_actors ex_descs () ())
      = Some (Returns s)"
    using run_decls_from_initial [OF ex_decl_names, of ex_config ex_actors "()" "()"] ex_decls_ok by auto
  have "mset [Declare_actor 2, Declare_handler 1 0 51] = mset [Declare_handler 1 0 51, Declare_actor 2]" by simp
  from startup_order_irrelevant [OF ex_decl_names this s] s show ?thesis
    unfolding ex_initial_def by blast
qed

section \<open>Fields set by declarations\<close>

text \<open>A field holds what is declared for it, when all declarations for it agree.\<close>

lemma fold_decl_field:
  assumes "\<And>y x. y \<in> set xs \<Longrightarrow> get (decl_field y x) = get x \<or> get (decl_field y x) = g"
    and "\<exists>y \<in> set xs. \<forall>x. get (decl_field y x) = g"
  shows "get (fold decl_field xs x) = g"
  using assms
proof (induction xs rule: rev_induct)
  case (snoc y ys)
  show ?case
  proof (cases "\<exists>z \<in> set ys. \<forall>x. get (decl_field z x) = g")
    case True
    then have "get (fold decl_field ys x) = g" using snoc by simp
    then show ?thesis using snoc.prems(1) [of y "fold decl_field ys x"] by auto
  next
    case False
    then show ?thesis using snoc.prems(2) by auto
  qed
qed simp

end
