(* ===== verification/Zephyr_Example.thy ===== *)
theory Zephyr_Example
  imports Payload_Structs Ipc_Startup Ipc_Lifecycle Zephyr_Run
begin

text \<open>
  The example program \<^verbatim>\<open>examples/basic_zephyr/src/main.c\<close>: the ping and the pong actor, their static
  variables as the application state, and the steps of \<^verbatim>\<open>main\<close> between its sleeps. The relaxed atomic
  counters are plain fields: each is written by one actor only. \<^verbatim>\<open>printk\<close> is left out.
\<close>

section \<open>Declarations\<close>

abbreviation (input) ping_actor :: aptr where "ping_actor \<equiv> 1"
abbreviation (input) pong_actor :: aptr where "pong_actor \<equiv> 2"

abbreviation (input) BasicPing :: dptr where "BasicPing \<equiv> 20"
abbreviation (input) BasicPong :: dptr where "BasicPong \<equiv> 21"
abbreviation (input) BasicFault :: dptr where "BasicFault \<equiv> 22"
abbreviation (input) BasicStatusRequest :: dptr where "BasicStatusRequest \<equiv> 23"
abbreviation (input) BasicStatusResponse :: dptr where "BasicStatusResponse \<equiv> 24"

definition basic_descs :: "dptr \<Rightarrow> ipc_msg_desc_t" where
  "basic_descs d =
     (if d = BasicPing then IPC_CMD_DEFINE ''BasicPing'' 4
      else if d = BasicPong then IPC_CMD_DEFINE ''BasicPong'' 4
      else if d = BasicFault then IPC_CMD_DEFINE ''BasicFault'' 4
      else if d = BasicStatusRequest then IPC_CMD_DEFINE ''BasicStatusRequest'' 4
      else IPC_CMD_DEFINE ''BasicStatusResponse'' 12)"

text \<open>\<open>prio\<close> is the kernel's \<^verbatim>\<open>K_PRIO_PREEMPT\<close>, \<open>usable\<close> its \<^verbatim>\<open>K_THREAD_STACK_SIZEOF\<close>.\<close>

definition basic_actors :: "(nat \<Rightarrow> nat) \<Rightarrow> (int \<Rightarrow> int) \<Rightarrow> aptr \<Rightarrow> ipc_actor" where
  "basic_actors usable prio a =
     (if a = ping_actor then ZEPHYR_ACTOR_DEFINE usable ''ipc_ping'' 1024 (prio 7) 4 (IPC_MESSAGE_MAX [4, 12])
      else ZEPHYR_ACTOR_DEFINE usable ''ipc_pong'' 2048 (prio 7) 4 (IPC_MESSAGE_MAX [4, 4, 4]))"

abbreviation (input) fn_pong_on_start :: fnptr where "fn_pong_on_start \<equiv> 75"
abbreviation (input) fn_pong_on_stop :: fnptr where "fn_pong_on_stop \<equiv> 76"
abbreviation (input) fn_pong_on_failure :: fnptr where "fn_pong_on_failure \<equiv> 77"
abbreviation (input) fn_on_basic_status_response :: fnptr where "fn_on_basic_status_response \<equiv> 74"

text \<open>The hooks of the ping actor, and both unknown hooks, only print.\<close>

definition basic_decls :: "static_decl list" where
  "basic_decls =
     [Declare_actor ping_actor, Declare_actor pong_actor,
      Declare_supervision pong_actor IPC_SUPERVISE_RESTART,
      Declare_start_hook ping_actor 78, Declare_stop_hook ping_actor 79, Declare_unknown_hook ping_actor 80,
      Declare_start_hook pong_actor fn_pong_on_start, Declare_stop_hook pong_actor fn_pong_on_stop,
      Declare_unknown_hook pong_actor 81, Declare_failure_hook pong_actor fn_pong_on_failure,
      Declare_handler pong_actor BasicPing 70, Declare_handler ping_actor BasicPong 71,
      Declare_handler pong_actor BasicStatusRequest 72, Declare_handler pong_actor BasicFault 73]"

section \<open>Static variables\<close>

record basic_vars =
  basic_ping_count :: u32
  basic_pong_count :: u32
  pong_restart_pending :: bool
  pong_restart_count :: u32
  basic_bad_read :: bool

definition basic_vars_initial :: basic_vars where
  "basic_vars_initial =
     \<lparr> basic_ping_count = 0, basic_pong_count = 0, pong_restart_pending = False, pong_restart_count = 0,
       basic_bad_read = False \<rparr>"

type_synonym 'p basic_sys = "('p, basic_vars) sys"

section \<open>Hooks\<close>

definition pong_on_start :: "aptr \<Rightarrow> 'p basic_sys \<Rightarrow> 'p basic_sys" where
  "pong_on_start self s =
     (if pong_restart_pending (app_st s) then s\<lparr> app_st := (app_st s)\<lparr> pong_restart_pending := False \<rparr> \<rparr> else s)"

definition pong_on_failure :: "aptr \<Rightarrow> int \<Rightarrow> 'p basic_sys \<Rightarrow> 'p basic_sys" where
  "pong_on_failure self reason s =
     s\<lparr> app_st := (app_st s)\<lparr> pong_restart_count := pong_restart_count (app_st s) + 1,
                               pong_restart_pending := True \<rparr> \<rparr>"

fun basic_hooks :: "user_call \<Rightarrow> 'p basic_sys \<Rightarrow> 'p basic_sys" where
  "basic_hooks (Call_start_hook f self) s = (if f = fn_pong_on_start then pong_on_start self s else s)"
| "basic_hooks (Call_failure_hook f self reason) s =
     (if f = fn_pong_on_failure then pong_on_failure self reason s else s)"
| "basic_hooks _ s = s"

section \<open>Handlers\<close>

definition on_basic_ping ::
    "'p port_ops \<Rightarrow> aptr \<Rightarrow> u8 list \<Rightarrow> ipc_msg \<Rightarrow> 'p basic_sys \<Rightarrow> 'p basic_sys" where
  "on_basic_ping P self msg raw_msg s =
     snd (ipc_send_raw P (Some BasicPong) (Some (bytes_of_u32 (u32_at 0 msg)))
        (s\<lparr> app_st := (app_st s)\<lparr> basic_ping_count := basic_ping_count (app_st s) + 1 \<rparr> \<rparr>))"

definition on_basic_pong ::
    "'p port_ops \<Rightarrow> aptr \<Rightarrow> u8 list \<Rightarrow> ipc_msg \<Rightarrow> 'p basic_sys \<Rightarrow> 'p basic_sys" where
  "on_basic_pong P self msg raw_msg s =
     (let s1 = s\<lparr> app_st := (app_st s)\<lparr> basic_pong_count := basic_pong_count (app_st s) + 1 \<rparr> \<rparr>
      in if u32_at 0 msg < 5
         then snd (ipc_send_after_raw P (Some BasicPing) 1000 (Some (bytes_of_u32 (u32_at 0 msg + 1))) s1)
         else s1)"

definition on_basic_status_request ::
    "'p port_ops \<Rightarrow> aptr \<Rightarrow> u8 list \<Rightarrow> ipc_msg \<Rightarrow> 'p basic_sys \<Rightarrow> 'p basic_sys" where
  "on_basic_status_request P self msg raw_msg s =
     (if u32_at 0 msg = 0 then snd (ipc_reply_error_raw P (Some raw_msg) (- EINVAL) s)
      else snd (ipc_reply_raw P (Some raw_msg) (Some BasicStatusResponse)
             (Some (BasicStatusResponse_bytes
                \<lparr> sr_request_id = u32_at 0 msg, sr_ping_count = basic_ping_count (app_st s),
                  sr_pong_count = basic_pong_count (app_st s) \<rparr>)) s))"

definition on_basic_fault ::
    "'p port_ops \<Rightarrow> aptr \<Rightarrow> u8 list \<Rightarrow> ipc_msg \<Rightarrow> 'p basic_sys \<Rightarrow> 'p basic_sys" where
  "on_basic_fault P self msg raw_msg s = snd (ipc_actor_fail P basic_hooks (Some self) (- EIO) s)"

text \<open>\<open>report\<close> is what the callback prints: the error, or the fields of the response.\<close>

definition on_basic_status_response ::
    "(int + BasicStatusResponse_payload_t \<Rightarrow> 'p basic_sys \<Rightarrow> 'p basic_sys)
     \<Rightarrow> aptr \<Rightarrow> int \<Rightarrow> u8 list option \<Rightarrow> ipc_msg \<Rightarrow> 'p basic_sys \<Rightarrow> 'p basic_sys" where
  "on_basic_status_response report self result msg raw_msg s =
     (if result \<noteq> 0 then report (Inl result) s
      else report (Inr (BasicStatusResponse_at (the msg))) s)"

section \<open>The program\<close>

text \<open>The typed handlers by function pointer; every request payload is one \<^verbatim>\<open>uint32_t\<close>.\<close>

definition basic_handler ::
    "'p port_ops \<Rightarrow> fnptr \<Rightarrow> (aptr \<Rightarrow> u8 list \<Rightarrow> ipc_msg \<Rightarrow> 'p basic_sys \<Rightarrow> 'p basic_sys) option" where
  "basic_handler P f =
     (if f = 70 then Some (on_basic_ping P) else if f = 71 then Some (on_basic_pong P)
      else if f = 72 then Some (on_basic_status_request P) else if f = 73 then Some (on_basic_fault P) else None)"

fun basic_user ::
    "(int + BasicStatusResponse_payload_t \<Rightarrow> 'p basic_sys \<Rightarrow> 'p basic_sys) \<Rightarrow> 'p port_ops
     \<Rightarrow> user_call \<Rightarrow> 'p basic_sys \<Rightarrow> 'p basic_sys" where
  "basic_user report P (Call_handler f self m) s =
     (case basic_handler P f of
        None \<Rightarrow> s
      | Some h \<Rightarrow>
          (case handle_adapter 4 h self (m_payload m) m s of
             None \<Rightarrow> s\<lparr> app_st := (app_st s)\<lparr> basic_bad_read := True \<rparr> \<rparr>
           | Some t \<Rightarrow> t))"
| "basic_user report P (Call_callback f self result payload sz m) s =
     (if f = fn_on_basic_status_response
      then (case response_handle_adapter (build_ndebug (conf s)) BasicStatusResponse BasicStatusResponse 12
                   (on_basic_status_response report) self result payload sz m s of
              Aborts \<Rightarrow> s\<lparr> app_st := (app_st s)\<lparr> basic_bad_read := True \<rparr> \<rparr>
            | Returns t \<Rightarrow> t)
      else s)"
| "basic_user report P c s = basic_hooks c s"

text \<open>\<^verbatim>\<open>basic_actor_init\<close>, the application's \<^verbatim>\<open>SYS_INIT\<close> entry.\<close>

definition basic_actor_init ::
    "'p port_ops \<Rightarrow> ('p, basic_vars) user_code \<Rightarrow> 'p basic_sys \<Rightarrow> (int \<times> 'p basic_sys) option" where
  "basic_actor_init P U s =
     (case ipc_start_all_actors P U s of
        None \<Rightarrow> None
      | Some (rc, s1) \<Rightarrow>
          Some (if rc \<noteq> 0 then (rc, s1)
                else (case ipc_send_raw P (Some BasicPing) (Some (bytes_of_u32 1)) s1 of
                        (rc2, s2) \<Rightarrow> if rc2 \<noteq> 0 then (rc2, s2) else (0, s2))))"

text \<open>\<^verbatim>\<open>main\<close>: \<open>sleep ms\<close> is what the other threads do meanwhile.\<close>

definition basic_main ::
    "'p port_ops \<Rightarrow> ('p, basic_vars) user_code \<Rightarrow> (nat \<Rightarrow> 'p basic_sys \<Rightarrow> 'p basic_sys)
     \<Rightarrow> 'p basic_sys \<Rightarrow> 'p basic_sys option" where
  "basic_main P U sleep s =
     (let s1 = sleep 6000 s;
          s2 = snd (snd (ipc_ask_with_id_raw P (Some ping_actor) (Some BasicStatusRequest)
                 (Some (bytes_of_u32 1)) (Some BasicStatusResponse) (Some fn_on_basic_status_response) 1000 s1));
          s3 = snd (ipc_ask_raw P (Some ping_actor) (Some BasicStatusRequest) (Some (bytes_of_u32 0))
                 (Some BasicStatusResponse) (Some fn_on_basic_status_response) 1000 s2);
          s4 = sleep 100 s3;
          s5 = snd (ipc_send_after_raw P (Some BasicPing) 1000 (Some (bytes_of_u32 99)) s4);
          s6 = snd (ipc_send_raw P (Some BasicFault) (Some (bytes_of_u32 0xBADCAFE)) s5);
          s7 = sleep 1200 s6
      in ipc_stop_all P U s7)"

end
