(* ===== verification/App_Frame.thy ===== *)
theory App_Frame
  imports Ipc_Lifecycle
begin

text \<open>
  The framework neither reads nor writes the variables of the application: a call of the API made
  after the application changed its variables does the same to the rest of the state, returns the
  same code and keeps the change.
\<close>

definition ignores_app :: "(('p, 'u) sys \<Rightarrow> int \<times> ('p, 'u) sys) \<Rightarrow> bool" where
  "ignores_app f \<longleftrightarrow> (\<forall>s u. f (s\<lparr> app_st := u \<rparr>) = (fst (f s), (snd (f s))\<lparr> app_st := u \<rparr>))"

lemma ignores_appD:
  assumes "ignores_app f"
  shows "f (s\<lparr> app_st := u \<rparr>) = (fst (f s), (snd (f s))\<lparr> app_st := u \<rparr>)" "app_st (snd (f s)) = app_st s"
proof -
  show eq: "f (s\<lparr> app_st := u \<rparr>) = (fst (f s), (snd (f s))\<lparr> app_st := u \<rparr>)" for u
    using assms by (simp add: ignores_app_def)
  have "f s = f (s\<lparr> app_st := app_st s \<rparr>)" by simp
  also have "\<dots> = (fst (f s), (snd (f s))\<lparr> app_st := app_st s \<rparr>)" by (rule eq)
  finally have "snd (f s) = (snd (f s))\<lparr> app_st := app_st s \<rparr>" by (metis snd_conv)
  then show "app_st (snd (f s)) = app_st s" by (metis sys.select_convs(15) sys.surjective sys.update_convs(15))
qed

lemma ensure_id_app: "ipc_ensure_id d (s\<lparr> app_st := u \<rparr>) = (ipc_ensure_id d s)\<lparr> app_st := u \<rparr>"
  by (simp add: ipc_ensure_id_def split: option.split)

lemma overflow_app:
  "apply_mailbox_overflow_policy a (rc, s\<lparr> app_st := u \<rparr>)
     = (fst (apply_mailbox_overflow_policy a (rc, s)),
        (snd (apply_mailbox_overflow_policy a (rc, s)))\<lparr> app_st := u \<rparr>)"
  by (simp add: apply_mailbox_overflow_policy_def)

lemma port_send_app:
  "ipc_port_send P a m (s\<lparr> app_st := u \<rparr>)
     = (fst (ipc_port_send P a m s), (snd (ipc_port_send P a m s))\<lparr> app_st := u \<rparr>)"
  by (simp add: ipc_port_send_def on_port_def case_prod_beta)

lemma publish_loop_app:
  "publish_loop (ipc_port_send P) m i rows rc (s\<lparr> app_st := u \<rparr>)
     = (fst (publish_loop (ipc_port_send P) m i rows rc s),
        (snd (publish_loop (ipc_port_send P) m i rows rc s))\<lparr> app_st := u \<rparr>)"
proof (induction rows arbitrary: rc s)
  case (Cons r rows)
  have step: "(if m_size m > actor_max_payload_size (actors (s\<lparr> app_st := u \<rparr>) (s_actor r))
        then (- EMSGSIZE, s\<lparr> app_st := u \<rparr>)
        else apply_mailbox_overflow_policy (s_actor r) (ipc_port_send P (s_actor r) m (s\<lparr> app_st := u \<rparr>)))
      = (fst x, (snd x)\<lparr> app_st := u \<rparr>)"
    if "x = (if m_size m > actor_max_payload_size (actors s (s_actor r)) then (- EMSGSIZE, s)
        else apply_mailbox_overflow_policy (s_actor r) (ipc_port_send P (s_actor r) m s))" for x
    using that overflow_app [where a = "s_actor r" and rc = "fst (ipc_port_send P (s_actor r) m s)"
        and s = "snd (ipc_port_send P (s_actor r) m s)" and u = u]
    by (simp add: port_send_app)
  show ?case
    by (simp only: publish_loop.simps step [OF refl] Let_def case_prod_beta fst_conv snd_conv Cons.IH)
       (simp add: Let_def case_prod_beta)
qed simp

lemma publish_ignores_app: "ignores_app (ipc_publish_raw P (Some d) payload)"
proof -
  have v: "valid_descriptor (Some d) IPC_EVENT (s\<lparr> app_st := u \<rparr>) = valid_descriptor (Some d) IPC_EVENT s"
    for s :: "('a, 'b) sys" and u
    by (simp add: valid_descriptor_def)
  show ?thesis
    by (simp add: ignores_app_def ipc_publish_raw_def v publish_prepared_msg_def ensure_id_app
        publish_loop_app Let_def)
qed

lemma find_registered_app: "find_registered i (s\<lparr> app_st := u \<rparr>) = find_registered i s"
  by (simp add: find_registered_def)

lemma port_send_after_app:
  "ipc_port_send_after P a m ms (s\<lparr> app_st := u \<rparr>)
     = (fst (ipc_port_send_after P a m ms s), (snd (ipc_port_send_after P a m ms s))\<lparr> app_st := u \<rparr>)"
  by (simp add: ipc_port_send_after_def on_port_def case_prod_beta)

lemma call_msg_app: "call_msg (s\<lparr> app_st := u \<rparr>) d payload = call_msg s d payload"
  by (simp add: call_msg_def ensure_id_app)

lemma prepare_app:
  "prepare_registered_cmd (Some d) payload (s\<lparr> app_st := u \<rparr>)
     = (fst (prepare_registered_cmd (Some d) payload s),
        (snd (prepare_registered_cmd (Some d) payload s))\<lparr> app_st := u \<rparr>)"
  by (simp add: prepare_registered_cmd_cases call_msg_app find_registered_app ensure_id_app
      split: option.split)

lemma send_after_ignores_app: "ignores_app (ipc_send_after_raw P (Some d) ms payload)"
proof -
  have "ipc_send_after_raw P (Some d) ms payload (s\<lparr> app_st := u \<rparr>)
      = (fst (ipc_send_after_raw P (Some d) ms payload s),
         (snd (ipc_send_after_raw P (Some d) ms payload s))\<lparr> app_st := u \<rparr>)" for s :: "('a, 'b) sys" and u :: 'b
    by (cases "prepare_registered_cmd (Some d) payload s")
       (auto simp: ipc_send_after_raw_def prepare_app port_send_after_app split: sum.split)
  then show ?thesis by (simp add: ignores_app_def)
qed


lemma ignores_appI:
  assumes "\<And>s u. f (s\<lparr> app_st := u \<rparr>) = (fst (f s), (snd (f s))\<lparr> app_st := u \<rparr>)"
  shows "ignores_app f"
  using assms by (simp add: ignores_app_def)

lemma send_ignores_app: "ignores_app (ipc_send_raw P (Some d) payload)"
proof (rule ignores_appI)
  fix s :: "('a, 'b) sys" and u
  show "ipc_send_raw P (Some d) payload (s\<lparr> app_st := u \<rparr>)
      = (fst (ipc_send_raw P (Some d) payload s), (snd (ipc_send_raw P (Some d) payload s))\<lparr> app_st := u \<rparr>)"
  proof (cases "prepare_registered_cmd (Some d) payload s")
    case (Pair r s1)
    then show ?thesis
      by (cases r)
         (simp_all add: ipc_send_raw_def prepare_app port_send_app overflow_app case_prod_beta)
  qed
qed

lemma find_pending_app: "find_pending_ask n (s\<lparr> app_st := u \<rparr>) = find_pending_ask n s"
  by (simp add: find_pending_ask_def)

lemma clear_ask_app: "clear_ask n (s\<lparr> app_st := u \<rparr>) = (clear_ask n s)\<lparr> app_st := u \<rparr>"
  by (simp add: clear_ask_def find_pending_app split: option.split)

lemma reply_section_app:
  "reply_section req desc (s\<lparr> app_st := u \<rparr>)
     = (fst (reply_section req desc s), (snd (reply_section req desc s))\<lparr> app_st := u \<rparr>)"
  by (simp add: reply_section_def find_pending_app Let_def split: option.split)

lemma reply_error_section_app:
  "reply_error_section req (s\<lparr> app_st := u \<rparr>)
     = (fst (reply_error_section req s), (snd (reply_error_section req s))\<lparr> app_st := u \<rparr>)"
  by (simp add: reply_error_section_def find_pending_app Let_def split: option.split)

lemma reply_ignores_app: "ignores_app (ipc_reply_raw P (Some req) (Some d) payload)"
proof (rule ignores_appI)
  fix s :: "('a, 'b) sys" and u
  let ?s1 = "ipc_ensure_id d s"
  show "ipc_reply_raw P (Some req) (Some d) payload (s\<lparr> app_st := u \<rparr>)
      = (fst (ipc_reply_raw P (Some req) (Some d) payload s),
         (snd (ipc_reply_raw P (Some req) (Some d) payload s))\<lparr> app_st := u \<rparr>)"
  proof (cases "reply_section req (descs ?s1 d) ?s1")
    case (Pair r s2)
    then show ?thesis
      by (cases r)
         (simp_all add: ipc_reply_raw_def valid_descriptor_def ensure_id_app reply_section_app Let_def
           port_send_app overflow_app clear_ask_app case_prod_beta)
  qed
qed

lemma reply_error_ignores_app: "ignores_app (ipc_reply_error_raw P (Some req) rc)"
proof (rule ignores_appI)
  fix s :: "('a, 'b) sys" and u
  show "ipc_reply_error_raw P (Some req) rc (s\<lparr> app_st := u \<rparr>)
      = (fst (ipc_reply_error_raw P (Some req) rc s),
         (snd (ipc_reply_error_raw P (Some req) rc s))\<lparr> app_st := u \<rparr>)"
  proof (cases "reply_error_section req s")
    case (Pair r s2)
    then show ?thesis
      by (cases r)
         (simp_all add: ipc_reply_error_raw_def reply_error_section_app port_send_app clear_ask_app case_prod_beta)
  qed
qed

lemmas app_frames =
  ignores_appD(1) [OF publish_ignores_app] ignores_appD(2) [OF publish_ignores_app]
  ignores_appD(1) [OF send_after_ignores_app] ignores_appD(2) [OF send_after_ignores_app]
  ignores_appD(1) [OF send_ignores_app] ignores_appD(2) [OF send_ignores_app]
  ignores_appD(1) [OF reply_ignores_app] ignores_appD(2) [OF reply_ignores_app]
  ignores_appD(1) [OF reply_error_ignores_app] ignores_appD(2) [OF reply_error_ignores_app]

end
