(* ===== verification/Api_Frame.thy ===== *)
theory Api_Frame
  imports App_Frame
begin

text \<open>
  What a call of the API can touch, for every port: the mailboxes, the pending asks and their counter,
  the drop counters and the lazily computed IDs. The registration tables, the list of actors and their
  settings, the life cycle and the application's variables are out of its reach (\<open>api_frame\<close>), so the
  handlers of an application built on it keep the links the start and stop loops walk along.

  The second part are applications: code that does no more than call the API, change its own variables
  and report failures stays in the core's share of the frame (\<open>core_frame\<close>).
\<close>

section \<open>The frame\<close>

abbreviation undropped :: "ipc_actor \<Rightarrow> ipc_actor" where
  "undropped x \<equiv> x\<lparr> a_dropped_messages := 0 \<rparr>"

definition core_frame :: "('p, 'u) sys \<Rightarrow> ('p, 'u) sys \<Rightarrow> bool" where
  "core_frame s t \<longleftrightarrow>
     same_tables s t \<and> ipc_actor_list t = ipc_actor_list s \<and> lifecycle_state t = lifecycle_state s
     \<and> (\<forall>a. undropped (actors t a) = undropped (actors s a))
     \<and> (\<forall>d. (descs t d)\<lparr> d_id := 0 \<rparr> = (descs s d)\<lparr> d_id := 0 \<rparr>
            \<and> d_id (descs t d) \<in> {d_id (descs s d), eventual_id (descs s d)})"

definition api_frame :: "('p, 'u) sys \<Rightarrow> ('p, 'u) sys \<Rightarrow> bool" where
  "api_frame s t \<longleftrightarrow> core_frame s t \<and> app_st t = app_st s"

lemma core_frame_refl [simp, intro]: "core_frame s s"
  by (simp add: core_frame_def same_tables_def)

lemma api_frame_refl [simp, intro]: "api_frame s s"
  by (simp add: api_frame_def)

lemma desc_without_id:
  assumes "x\<lparr> d_id := 0 \<rparr> = y\<lparr> d_id := 0 \<rparr>"
  shows "d_name x = d_name y" "d_kind x = d_kind y" "d_size x = d_size y"
  using arg_cong [OF assms, of d_name] arg_cong [OF assms, of d_kind] arg_cong [OF assms, of d_size]
  by simp_all

lemma eventual_id_idem:
  assumes "x\<lparr> d_id := 0 \<rparr> = y\<lparr> d_id := 0 \<rparr>" "d_id x \<in> {d_id y, eventual_id y}"
  shows "eventual_id x = eventual_id y"
  using assms(2) desc_without_id(1) [OF assms(1)] by (auto simp: eventual_id_def split: if_splits)

lemma core_frame_trans:
  assumes "core_frame s t" "core_frame t u"
  shows "core_frame s u"
proof -
  have "(descs u d)\<lparr> d_id := 0 \<rparr> = (descs s d)\<lparr> d_id := 0 \<rparr>
      \<and> d_id (descs u d) \<in> {d_id (descs s d), eventual_id (descs s d)}" for d
  proof -
    have st: "(descs t d)\<lparr> d_id := 0 \<rparr> = (descs s d)\<lparr> d_id := 0 \<rparr>"
      "d_id (descs t d) \<in> {d_id (descs s d), eventual_id (descs s d)}"
      and tu: "(descs u d)\<lparr> d_id := 0 \<rparr> = (descs t d)\<lparr> d_id := 0 \<rparr>"
        "d_id (descs u d) \<in> {d_id (descs t d), eventual_id (descs t d)}"
      using assms unfolding core_frame_def by blast+
    show ?thesis using tu(2) st(2) eventual_id_idem [OF st] trans [OF tu(1) st(1)] by auto
  qed
  moreover have "undropped (actors u a) = undropped (actors s a)" for a
    using assms unfolding core_frame_def by metis
  ultimately show ?thesis using assms unfolding core_frame_def same_tables_def by simp
qed

lemma api_frame_trans: "api_frame s t \<Longrightarrow> api_frame t u \<Longrightarrow> api_frame s u"
  unfolding api_frame_def using core_frame_trans by metis

lemma api_frame_core: "api_frame s t \<Longrightarrow> core_frame s t"
  by (simp add: api_frame_def)

lemma api_frame_app: "api_frame s t \<Longrightarrow> core_frame (s\<lparr> app_st := u \<rparr>) (t\<lparr> app_st := u' \<rparr>)"
  by (simp add: api_frame_def core_frame_def same_tables_def)

lemma core_frame_set_app [simp]: "core_frame s (t\<lparr> app_st := u \<rparr>) \<longleftrightarrow> core_frame s t"
  by (simp add: core_frame_def same_tables_def)

text \<open>The fields a frame keeps of one actor.\<close>

lemma undropped_fields:
  assumes "undropped x = undropped y"
  shows "a_cfg x = a_cfg y" "a_next x = a_next y" "a_supervision x = a_supervision y"
    "a_start_hook x = a_start_hook y" "a_stop_hook x = a_stop_hook y"
    "a_failure_hook x = a_failure_hook y" "a_handler x = a_handler y"
    "a_unknown_handler x = a_unknown_handler y" "a_mailbox_overflow_policy x = a_mailbox_overflow_policy y"
  using arg_cong [OF assms, of a_cfg] arg_cong [OF assms, of a_next] arg_cong [OF assms, of a_supervision]
    arg_cong [OF assms, of a_start_hook] arg_cong [OF assms, of a_stop_hook]
    arg_cong [OF assms, of a_failure_hook] arg_cong [OF assms, of a_handler]
    arg_cong [OF assms, of a_unknown_handler] arg_cong [OF assms, of a_mailbox_overflow_policy]
  by simp_all

lemma core_frame_actors: "core_frame s t \<Longrightarrow> undropped (actors t a) = undropped (actors s a)"
  by (simp add: core_frame_def)

lemma core_frame_links:
  assumes "core_frame s t"
  shows "same_links s t"
  using undropped_fields(2) [OF core_frame_actors [OF assms]] assms
  by (simp add: same_links_def core_frame_def del: split_paired_All)

lemma core_frame_lifecycle: "core_frame s t \<Longrightarrow> lifecycle_state t = lifecycle_state s"
  by (simp add: core_frame_def)

section \<open>The parts of a call\<close>

lemma frame_delivery: "delivery_only s t \<Longrightarrow> api_frame s t"
  unfolding api_frame_def core_frame_def using delivery_only_fields
  by (auto simp: delivery_only_def same_tables_def)

lemma frame_ensure_id: "api_frame s (ipc_ensure_id d s)"
proof -
  have "(descs (ipc_ensure_id d s) e)\<lparr> d_id := 0 \<rparr> = (descs s e)\<lparr> d_id := 0 \<rparr>
      \<and> d_id (descs (ipc_ensure_id d s) e) \<in> {d_id (descs s e), eventual_id (descs s e)}" for e
    by (cases "e = d") (simp_all add: ipc_ensure_id_def eventual_id_def split: option.split)
  then show ?thesis by (simp add: api_frame_def core_frame_def same_tables_def frame_simps)
qed

text \<open>A step that writes only the port, the pending asks and the ask counter.\<close>

definition ask_part :: "('p, 'u) sys \<Rightarrow> ('p, 'u) sys \<Rightarrow> bool" where
  "ask_part s t \<longleftrightarrow> (\<exists>p q n. t = s\<lparr> port_st := p, ask_table := q, next_ask_id := n \<rparr>)"

lemma frame_ask_part: "ask_part s t \<Longrightarrow> api_frame s t"
  by (auto simp: ask_part_def api_frame_def core_frame_def same_tables_def)

lemma ask_part_set_ask: "ask_part s (set_ask i q s)"
  unfolding ask_part_def
  by (rule exI [of _ "port_st s"], rule exI [of _ "(ask_table s)[i := q]"], rule exI [of _ "next_ask_id s"]) simp

lemma frame_set_ask: "api_frame s (set_ask i q s)"
  by (rule frame_ask_part [OF ask_part_set_ask])

lemma frame_clear_ask: "api_frame s (clear_ask n s)"
  by (simp add: clear_ask_def frame_set_ask split: option.split)

lemma frame_alloc_loop: "api_frame s (snd (alloc_ask_id_loop k s))"
proof (induction k s rule: alloc_ask_id_loop.induct)
  case (1 k s)
  let ?t = "s\<lparr> next_ask_id := next_ask_id s + 1 \<rparr>"
  have step: "api_frame s ?t" by (simp add: api_frame_def core_frame_def same_tables_def)
  show ?case
    using step api_frame_trans [OF step 1(1) [OF _ refl refl]] api_frame_trans [OF step 1(2) [OF _ refl refl]]
    by (subst alloc_ask_id_loop.simps) (simp add: Let_def)
qed

lemma frame_reserve_ask: "api_frame s (snd (reserve_ask a i cb now ms s))"
proof (cases "alloc_ask_id s")
  case (Pair r t)
  then have "api_frame s t" using frame_alloc_loop [of s 0] by (simp add: alloc_ask_id_def)
  with Pair show ?thesis
    by (cases r) (simp_all add: reserve_ask_def api_frame_trans [OF _ frame_set_ask] split: option.split)
qed

lemma frame_on_port: "api_frame s (snd (on_port f s))"
  by (rule frame_delivery) (rule delivery_only_on_port)

lemma frame_port_send: "api_frame s (snd (ipc_port_send P a m s))"
  by (simp add: ipc_port_send_def frame_on_port)

lemma frame_sections:
  "api_frame s (snd (cancel_section a n s))" "api_frame s (snd (reply_section req desc s))"
  "api_frame s (snd (reply_error_section req s))" "api_frame s (snd (expire_section a n s))"
  "api_frame s (expire_undo_section a n s)"
  by (simp_all add: cancel_section_def reply_section_def reply_error_section_def expire_section_def
      expire_undo_section_def frame_set_ask Let_def split: option.split)

lemma frame_send: "api_frame s (snd (apply_mailbox_overflow_policy a (ipc_port_send P a m s)))"
  by (rule frame_delivery) (rule delivery_only_send)

lemma frame_prepare: "api_frame s (snd (prepare_registered_cmd d payload s))"
  by (simp add: prepare_registered_cmd_def frame_ensure_id Let_def split: option.split)

lemma frame_publish_loop: "api_frame s (snd (publish_loop (ipc_port_send P) m i rows rc s))"
proof (induction rows arbitrary: rc s)
  case (Cons r rows)
  let ?x = "if m_size m > actor_max_payload_size (actors s (s_actor r)) then (- EMSGSIZE, s)
            else apply_mailbox_overflow_policy (s_actor r) (ipc_port_send P (s_actor r) m s)"
  have "api_frame s (snd ?x)" by (simp add: frame_send)
  with Cons.IH show ?case by (auto simp: Let_def case_prod_beta intro: api_frame_trans)
qed simp

section \<open>Every call\<close>

lemma frame_send_raw: "api_frame s (snd (ipc_send_raw P d payload s))"
  using frame_prepare [of s d payload]
  by (auto simp: ipc_send_raw_def case_prod_beta split: sum.split intro: api_frame_trans frame_send)

lemma frame_send_after_raw: "api_frame s (snd (ipc_send_after_raw P d ms payload s))"
  using frame_prepare [of s d payload]
  by (auto simp: ipc_send_after_raw_def ipc_port_send_after_def case_prod_beta split: sum.split
      intro: api_frame_trans frame_on_port)

lemma frame_publish_raw: "api_frame s (snd (ipc_publish_raw P d payload s))"
  by (auto simp: ipc_publish_raw_def publish_prepared_msg_def Let_def
      intro: api_frame_trans frame_ensure_id frame_publish_loop)

lemma frame_send_to_raw: "api_frame s (snd (ipc_send_to_raw P a d payload s))"
proof -
  have "api_frame s (snd (apply_mailbox_overflow_policy b (ipc_port_send_isr P b m s)))" for b m
    by (rule frame_delivery, rule delivery_only_overflow)
       (simp add: ipc_port_send_isr_def delivery_only_on_port)
  then show ?thesis by (simp add: ipc_send_to_raw_def Let_def split: option.split)
qed

lemma frame_reply_raw: "api_frame s (snd (ipc_reply_raw P req d payload s))"
proof (cases "\<exists>r. req = Some r")
  case True
  then obtain r where r: "req = Some r" by blast
  let ?s1 = "ipc_ensure_id (the d) s"
  let ?sec = "reply_section r (descs ?s1 (the d)) ?s1"
  have "api_frame s (snd ?sec)"
    by (rule api_frame_trans [OF frame_ensure_id frame_sections(2)])
  then have "api_frame s (snd (apply_mailbox_overflow_policy a (ipc_port_send P a m (snd ?sec))))" for a m
    by (rule api_frame_trans) (rule frame_send)
  with \<open>api_frame s (snd ?sec)\<close> show ?thesis
    by (simp add: ipc_reply_raw_def r Let_def case_prod_beta api_frame_trans [OF _ frame_clear_ask]
        split: sum.split)
qed (simp add: ipc_reply_raw_def split: option.split)

lemma frame_reply_error_raw: "api_frame s (snd (ipc_reply_error_raw P req result s))"
proof (cases "\<exists>r. req = Some r")
  case True
  then obtain r where r: "req = Some r" by blast
  have "api_frame s (snd (ipc_port_send P a m (snd (reply_error_section r s))))" for a m
    by (rule api_frame_trans [OF frame_sections(3) frame_port_send])
  with frame_sections(3) [of s r] show ?thesis
    by (simp add: ipc_reply_error_raw_def r Let_def case_prod_beta api_frame_trans [OF _ frame_clear_ask]
        split: sum.split)
qed (simp add: ipc_reply_error_raw_def split: option.split)

lemma frame_ask_with_id_raw: "api_frame s (snd (snd (ipc_ask_with_id_raw P self rq payload rp cb ms s)))"
proof -
  let ?p = "prepare_registered_cmd rq payload s"
  let ?s2 = "ipc_ensure_id (the rp) (snd ?p)"
  let ?r = "reserve_ask (the self) (d_id (descs ?s2 (the rp))) (the cb) (port_now_ms P (port_st ?s2)) ms ?s2"
  have p: "api_frame s (snd ?p)" by (rule frame_prepare)
  have s2: "api_frame s ?s2" by (rule api_frame_trans [OF p frame_ensure_id])
  have r: "api_frame s (snd ?r)" by (rule api_frame_trans [OF s2 frame_reserve_ask])
  have sch: "api_frame s (snd (ipc_port_schedule_ask_timeout P a n k (snd ?r)))" for a n k
    by (rule api_frame_trans [OF r]) (simp add: ipc_port_schedule_ask_timeout_def frame_on_port)
  have snd1: "api_frame s (snd (apply_mailbox_overflow_policy b (ipc_port_send P b m
      (snd (ipc_port_schedule_ask_timeout P a n k (snd ?r))))))" for a n k b m
    by (rule api_frame_trans [OF sch frame_send])
  have snd2: "api_frame s (snd (apply_mailbox_overflow_policy b (ipc_port_send P b m (snd ?r))))" for b m
    by (rule api_frame_trans [OF r frame_send])
  note clear = api_frame_trans [OF _ frame_clear_ask]
  show ?thesis
    unfolding ipc_ask_with_id_raw_def
    by (simp add: Let_def case_prod_beta p s2 r sch snd1 snd2 clear split: sum.split)
qed

lemma frame_ask_raw: "api_frame s (snd (ipc_ask_raw P self rq payload rp cb ms s))"
  using frame_ask_with_id_raw [of s P self rq payload rp cb ms]
  by (simp add: ipc_ask_raw_def case_prod_beta)

lemma frame_timeout: "api_frame s (ipc_ask_timeout_expired P a n s)"
proof -
  have "api_frame s (snd (ipc_port_send P a m (snd (expire_section a n s))))" for m
    by (rule api_frame_trans [OF frame_sections(4) frame_port_send])
  with frame_sections(4) [of s a n] show ?thesis
    by (auto simp: ipc_ask_timeout_expired_def case_prod_beta split: bool.split
        intro: api_frame_trans frame_sections(5))
qed

text \<open>
  C27: For every port, no call of the messaging API (send, delayed send, publish, direct post, ask,
  cancel, reply, error reply, expiry of a timeout), whatever its arguments and its outcome, changes a
  registration table, the list of actors, an actor's configuration, hooks or policies, the life cycle,
  or a variable of the application; of the message descriptors it changes at most an ID, to the one
  computed from the name.
\<close>

theorem api_calls_frame:
  "api_frame s (snd (ipc_send_raw P d payload s))
   \<and> api_frame s (snd (ipc_send_after_raw P d ms payload s))
   \<and> api_frame s (snd (ipc_publish_raw P d payload s))
   \<and> api_frame s (snd (ipc_send_to_raw P a d payload s))
   \<and> api_frame s (snd (snd (ipc_ask_with_id_raw P self d payload reply cb ms s)))
   \<and> api_frame s (snd (ipc_ask_cancel self n s))
   \<and> api_frame s (snd (ipc_reply_raw P req d payload s))
   \<and> api_frame s (snd (ipc_reply_error_raw P req result s))
   \<and> api_frame s (ipc_ask_timeout_expired P actor n s)"
  by (simp add: frame_send_raw frame_send_after_raw frame_publish_raw frame_send_to_raw
      frame_ask_with_id_raw frame_reply_raw frame_reply_error_raw frame_timeout ipc_ask_cancel_def
      frame_sections)

section \<open>Applications\<close>

text \<open>The calls as steps: what framed the state before a call frames it after the call.\<close>

lemma core_steps:
  assumes "core_frame s t"
  shows "core_frame s (snd (ipc_send_raw P d payload t))"
    "core_frame s (snd (ipc_send_after_raw P d ms payload t))"
    "core_frame s (snd (ipc_publish_raw P d payload t))"
    "core_frame s (snd (snd (ipc_ask_with_id_raw P self d payload reply cb ms t)))"
    "core_frame s (snd (ipc_ask_raw P self d payload reply cb ms t))"
    "core_frame s (snd (ipc_reply_raw P req d payload t))"
    "core_frame s (snd (ipc_reply_error_raw P req result t))"
  using core_frame_trans [OF assms] frame_send_raw frame_send_after_raw frame_publish_raw
    frame_ask_with_id_raw frame_ask_raw frame_reply_raw frame_reply_error_raw
  by (meson api_frame_core)+

text \<open>Application code within the frame, and the supervision that calls its hooks.\<close>

definition frames_core :: "('p, 'u) user_code \<Rightarrow> bool" where
  "frames_core U \<longleftrightarrow> (\<forall>c s. core_frame s (U c s))"

lemma frames_core_links: "frames_core U \<Longrightarrow> keeps_links U"
  unfolding frames_core_def keeps_links_def using core_frame_links unfolding same_links_def by blast

lemma frame_call_hook: "frames_core U \<Longrightarrow> core_frame s (call_hook U mk h s)"
  by (simp add: call_hook_def frames_core_def split: option.split)

lemma core_frame_on_port: "core_frame s (snd (on_port f s))"
  using frame_on_port [of s f] by (simp add: api_frame_def)

lemma frame_stop_one:
  assumes "frames_core U"
  shows "core_frame s (stop_one P U a s)"
proof -
  let ?t = "call_hook U (\<lambda>f. Call_stop_hook f a) (a_stop_hook (actors s a)) s"
  have "core_frame ?t (ipc_port_stop_actor P a ?t)"
    by (simp add: ipc_port_stop_actor_def core_frame_def same_tables_def)
  then show ?thesis using core_frame_trans [OF frame_call_hook [OF assms]] by (simp add: stop_one_def)
qed

lemma frame_stops: "frames_core U \<Longrightarrow> core_frame s (fold (stop_one P U) xs s)"
  by (induction xs arbitrary: s) (auto intro: core_frame_trans frame_stop_one)

lemma frame_actor_fail:
  assumes "frames_core U"
  shows "core_frame s (snd (ipc_actor_fail P U a reason s))"
proof (cases a)
  case (Some self)
  let ?s1 = "call_hook U (\<lambda>f. Call_failure_hook f self reason) (a_failure_hook (actors s self)) s"
  let ?s2 = "call_hook U (\<lambda>f. Call_stop_hook f self) (a_stop_hook (actors ?s1 self)) ?s1"
  let ?s3 = "snd (ipc_port_restart_actor P self ?s2)"
  have 1: "core_frame s ?s1" by (rule frame_call_hook [OF assms])
  have 2: "core_frame s ?s2" by (rule core_frame_trans [OF 1 frame_call_hook [OF assms]])
  have 3: "core_frame s ?s3"
    by (rule core_frame_trans [OF 2]) (simp add: ipc_port_restart_actor_def core_frame_on_port)
  have 4: "core_frame s (call_hook U mk h ?s3)" for mk h by (rule core_frame_trans [OF 3 frame_call_hook [OF assms]])
  have 5: "core_frame s (stop_one P U self ?s1)" by (rule core_frame_trans [OF 1 frame_stop_one [OF assms]])
  show ?thesis
    using 1 3 4 5
    by (simp add: ipc_actor_fail_def Some Let_def case_prod_beta split: ipc_supervision_strategy_t.split)
qed (simp add: ipc_actor_fail_def)

end
