(* ===== verification/Program_Life.thy ===== *)
theory Program_Life
  imports Api_Frame
begin

text \<open>
  Start, stop and join of a whole program, for application code that stays within the frame of the
  API: each returns, moves the life cycle on, and leaves the routes, the actor list and the settings
  as they were declared.
\<close>

definition same_program :: "('p, 'u) sys \<Rightarrow> ('p, 'u) sys \<Rightarrow> bool" where
  "same_program s t \<longleftrightarrow> core_frame (s\<lparr> lifecycle_state := lifecycle_state t \<rparr>) t"

lemma core_frame_lifecycle_upd:
  "core_frame s t \<Longrightarrow> core_frame (s\<lparr> lifecycle_state := x \<rparr>) (t\<lparr> lifecycle_state := x \<rparr>)"
  by (simp add: core_frame_def same_tables_def)

lemma same_program_frame: "core_frame s t \<Longrightarrow> same_program s t"
  using core_frame_lifecycle [of s t] by (simp add: same_program_def)

lemma same_program_lifecycle: "same_program s (s\<lparr> lifecycle_state := x \<rparr>)"
  by (simp add: same_program_def)

lemma same_program_trans:
  assumes "same_program s t" "same_program t u"
  shows "same_program s u"
proof -
  have "core_frame (s\<lparr> lifecycle_state := lifecycle_state u \<rparr>) (t\<lparr> lifecycle_state := lifecycle_state u \<rparr>)"
    using core_frame_lifecycle_upd [of "s\<lparr> lifecycle_state := lifecycle_state t \<rparr>" t "lifecycle_state u"] assms(1)
    by (simp add: same_program_def)
  then show ?thesis using assms(2) core_frame_trans unfolding same_program_def by blast
qed

lemma same_program_list:
  assumes "same_program s t"
  shows "actor_list t xs \<longleftrightarrow> actor_list s xs"
proof -
  have "same_links (s\<lparr> lifecycle_state := lifecycle_state t \<rparr>) t"
    using assms core_frame_links unfolding same_program_def by blast
  from same_links_actor_list [OF this] show ?thesis by (simp add: actor_list_def)
qed

section \<open>Start\<close>

lemma start_failed_frames:
  assumes "frames_core U" "actor_list s ys"
  shows "\<exists>t. start_failed P U rc l s = Some (rc, t\<lparr> lifecycle_state := IPC_LIFECYCLE_STOPPING \<rparr>) \<and> core_frame s t"
proof (cases l)
  case None
  then show ?thesis by (intro exI [of _ s]) (simp add: start_failed_def)
next
  case (Some a)
  then show ?thesis
    using stop_actors_from_fold [OF frames_core_links [OF assms(1)], of s "ipc_actor_list s" ys P "Some a"] assms(2)
      frame_stops [OF assms(1), of s P]
    by (intro exI [of _ "fold (stop_one P U) (up_to (Some a) ys) s"])
       (simp add: start_failed_def stop_actors_through_def actor_list_def)
qed

lemma start_loop_frames:
  assumes "frames_core U" "actor_list s ys" "list_seg (next_of s) p xs"
  shows "\<exists>rc t. start_actors_from P U l p s
      = Some (rc, if rc = 0 then t else t\<lparr> lifecycle_state := IPC_LIFECYCLE_STOPPING \<rparr>) \<and> core_frame s t"
  using assms(2,3)
proof (induction xs arbitrary: l p s)
  case Nil
  then show ?case by (subst start_actors_from.simps) (simp add: exI [of _ 0])
next
  case (Cons a xs)
  from Cons.prems have p: "p = Some a" and tl: "list_seg (next_of s) (a_next (actors s a)) xs" by auto
  define s1 where "s1 = snd (ipc_port_actor_init P a s)"
  define s2 where "s2 = call_hook U (\<lambda>f. Call_start_hook f a) (a_start_hook (actors s1 a)) s1"
  define s3 where "s3 = snd (ipc_port_start P a s2)"
  have f1: "core_frame s s1" by (simp add: s1_def ipc_port_actor_init_def core_frame_on_port)
  have "core_frame s2 s3" by (simp add: s3_def ipc_port_start_def core_frame_on_port)
  then have f3: "core_frame s s3"
    using core_frame_trans [OF core_frame_trans [OF f1 frame_call_hook [OF assms(1)]]] by (simp add: s2_def)
  have al: "actor_list s1 ys" "actor_list s3 ys"
    using Cons.prems(1) same_links_actor_list [OF core_frame_links [OF f1]]
      same_links_actor_list [OF core_frame_links [OF f3]] by blast+
  have seg: "list_seg (next_of s3) (a_next (actors s3 a)) xs"
    using tl same_links_seg [OF core_frame_links [OF f3]] core_frame_links [OF f3] by (simp add: same_links_def)
  have step: "start_actors_from P U l p s
      = (if fst (ipc_port_actor_init P a s) \<noteq> 0 then start_failed P U (fst (ipc_port_actor_init P a s)) l s1
         else if fst (ipc_port_start P a s2) \<noteq> 0 then start_failed P U (fst (ipc_port_start P a s2)) (Some a) s3
         else start_actors_from P U (Some a) (a_next (actors s3 a)) s3)"
    by (subst start_actors_from.simps) (simp add: p s1_def s2_def s3_def case_prod_beta)
  consider "fst (ipc_port_actor_init P a s) \<noteq> 0"
    | "fst (ipc_port_actor_init P a s) = 0" "fst (ipc_port_start P a s2) \<noteq> 0"
    | "fst (ipc_port_actor_init P a s) = 0" "fst (ipc_port_start P a s2) = 0" by blast
  then show ?case
  proof cases
    case 1
    with start_failed_frames [OF assms(1) al(1), of P "fst (ipc_port_actor_init P a s)" l]
    show ?thesis unfolding step using core_frame_trans [OF f1] by auto
  next
    case 2
    with start_failed_frames [OF assms(1) al(2), of P "fst (ipc_port_start P a s2)" "Some a"]
    show ?thesis unfolding step using core_frame_trans [OF f3] by auto
  next
    case 3
    obtain rc t where "start_actors_from P U (Some a) (a_next (actors s3 a)) s3
        = Some (rc, if rc = 0 then t else t\<lparr> lifecycle_state := IPC_LIFECYCLE_STOPPING \<rparr>)" "core_frame s3 t"
      using Cons.IH [OF al(2) seg, of "Some a"] by blast
    with 3 show ?thesis
      unfolding step using core_frame_trans [OF f3] by (intro exI [of _ rc] exI [of _ t]) simp
  qed
qed

lemma start_all_program:
  assumes "frames_core U" "actor_list s xs" "lifecycle_state s = IPC_LIFECYCLE_STOPPED"
  shows "\<exists>rc t. ipc_start_all_actors P U s = Some (rc, t) \<and> same_program s t
    \<and> lifecycle_state t = (if rc = 0 then IPC_LIFECYCLE_RUNNING else IPC_LIFECYCLE_STOPPING)"
proof -
  let ?s1 = "s\<lparr> lifecycle_state := IPC_LIFECYCLE_RUNNING \<rparr>"
  have al: "actor_list ?s1 xs" "list_seg (next_of ?s1) (ipc_actor_list ?s1) xs"
    using assms(2) by (simp_all add: actor_list_def)
  obtain rc t where t: "start_actors_from P U None (ipc_actor_list ?s1) ?s1
      = Some (rc, if rc = 0 then t else t\<lparr> lifecycle_state := IPC_LIFECYCLE_STOPPING \<rparr>)" "core_frame ?s1 t"
    using start_loop_frames [OF assms(1) al, of P None] by blast
  have "same_program s t"
    using same_program_trans [OF same_program_lifecycle same_program_frame [OF t(2)]] .
  then have "same_program s (if rc = 0 then t else t\<lparr> lifecycle_state := IPC_LIFECYCLE_STOPPING \<rparr>)"
    using same_program_trans [OF _ same_program_lifecycle, of s t] by (cases "rc = 0") simp_all
  then show ?thesis
    using t core_frame_lifecycle [OF t(2)] assms(3) by (simp add: ipc_start_all_actors_def)
qed

section \<open>Stop and join\<close>

lemma stop_all_program:
  assumes "frames_core U" "actor_list s xs"
  shows "\<exists>t. ipc_stop_all P U s = Some t \<and> same_program s t
    \<and> lifecycle_state t = (if lifecycle_state s = IPC_LIFECYCLE_RUNNING then IPC_LIFECYCLE_STOPPING
                            else lifecycle_state s)"
proof (cases "lifecycle_state s = IPC_LIFECYCLE_RUNNING")
  case True
  let ?s1 = "s\<lparr> lifecycle_state := IPC_LIFECYCLE_STOPPING \<rparr>"
  have "list_seg (next_of ?s1) (ipc_actor_list ?s1) xs" using assms(2) by (simp add: actor_list_def)
  note fold = stop_all_fold [OF frames_core_links [OF assms(1)] this, of P]
  have frame: "core_frame ?s1 (fold (stop_one P U) xs ?s1)" by (rule frame_stops [OF assms(1)])
  show ?thesis
    using True fold same_program_trans [OF same_program_lifecycle same_program_frame [OF frame]]
      core_frame_lifecycle [OF frame]
    by (simp add: ipc_stop_all_def)
qed (simp add: ipc_stop_all_def same_program_frame)

lemma run_all_program:
  assumes "actor_list s xs" "port_run_all P xs (port_st s) = Some (p, rc)"
  shows "\<exists>t. ipc_run_all P s = Some (rc, t) \<and> same_program s t
    \<and> lifecycle_state t = (if rc = 0 \<and> lifecycle_state s = IPC_LIFECYCLE_STOPPING then IPC_LIFECYCLE_STOPPED
                            else lifecycle_state s)"
proof -
  have "walk_actors s (ipc_actor_list s) = Some xs"
    using assms(1) walk_actors_list [of s "ipc_actor_list s" xs] by (simp add: actor_list_def)
  then show ?thesis
    using assms(2) by (simp add: ipc_run_all_def Let_def same_program_def core_frame_def same_tables_def)
qed

end
