(* ===== verification/Zephyr_Program.thy ===== *)
theory Zephyr_Program
  imports Zephyr_Example Program_Life
begin

text \<open>
  The Zephyr example as a whole: its constructors in any order, its \<^verbatim>\<open>SYS_INIT\<close> entry and \<^verbatim>\<open>main\<close>, over any
  port and whatever the other threads do while \<^verbatim>\<open>main\<close> sleeps.
\<close>

section \<open>Routes\<close>

lemma basic_fnv1a:
  "ipc_fnv1a ''BasicPing'' = 4044278465" "ipc_fnv1a ''BasicPong'' = 1393657839" "ipc_fnv1a ''BasicFault'' = 2346188567"
  "ipc_fnv1a ''BasicStatusRequest'' = 523595256" "ipc_fnv1a ''BasicStatusResponse'' = 3458340820"
  by (simp_all add: ipc_fnv1a_def fnv1a_step_def)

lemma basic_ids:
  "eventual_id (basic_descs BasicPing) = 4044278465" "eventual_id (basic_descs BasicPong) = 1393657839"
  "eventual_id (basic_descs BasicFault) = 2346188567" "eventual_id (basic_descs BasicStatusRequest) = 523595256"
  "eventual_id (basic_descs BasicStatusResponse) = 3458340820"
  by (simp_all add: basic_descs_def eventual_id_def IPC_CMD_DEFINE_def basic_fnv1a)

lemma basic_desc_fields: "d_kind (basic_descs d) = IPC_CMD" "d_name (basic_descs d) \<noteq> None"
  by (simp_all add: basic_descs_def IPC_CMD_DEFINE_def)

lemma basic_handlers:
  "handlers basic_decls =
     [(pong_actor, BasicPing, 70), (ping_actor, BasicPong, 71), (pong_actor, BasicStatusRequest, 72),
      (pong_actor, BasicFault, 73)]"
  by (simp add: basic_decls_def)

lemma basic_decls_ok: "decls_ok ipc_default_config basic_descs (handlers basic_decls)"
  by (simp add: decls_ok_def basic_handlers basic_desc_fields basic_ids ipc_default_config_def)

definition basic_routes :: "'p basic_sys \<Rightarrow> bool" where
  "basic_routes t \<longleftrightarrow>
     (\<forall>d \<in> {BasicPing, BasicStatusRequest, BasicFault}. find_registered (eventual_id (basic_descs d)) t = Some pong_actor)
     \<and> find_registered (eventual_id (basic_descs BasicPong)) t = Some ping_actor"

text \<open>With the default Kconfig values, whatever order the constructors run in.\<close>

lemma basic_program_up:
  assumes "mset ys = mset basic_decls"
  shows "\<exists>t. run_decls ys (ipc_initial ipc_default_config as basic_descs p u) = Some (Returns t)
    \<and> declared_state ipc_default_config as basic_descs ys t \<and> basic_routes t"
proof -
  let ?s0 = "ipc_initial ipc_default_config as basic_descs p u"
  have names: "\<forall>x \<in> set (handlers xs). handler_name basic_descs x \<noteq> None" for xs
    by (simp add: basic_desc_fields(2))
  obtain s where s: "run_decls basic_decls ?s0 = Some (Returns s)"
    "declared_state ipc_default_config as basic_descs basic_decls s"
    using run_decls_from_initial [OF names, of ipc_default_config basic_decls as p u] basic_decls_ok by auto
  from run_decls_perm [OF names assms [symmetric] s(1)]
  obtain t where t: "run_decls ys ?s0 = Some (Returns t)" "\<And>i. find_registered i t = find_registered i s"
    by blast
  have dt: "declared_state ipc_default_config as basic_descs ys t"
    using run_decls_from_initial [OF names, of ipc_default_config ys as p u] t(1) by (auto split: if_splits)
  have regs: "regs s = map (route_of basic_descs) (cmds basic_descs (handlers basic_decls))"
    using s(2) by (simp add: declared_state_def)
  have "basic_routes s"
    unfolding basic_routes_def find_registered_def regs basic_handlers
    by (auto simp: basic_desc_fields(1) basic_ids route_of_def)
  then have "basic_routes t" by (simp add: basic_routes_def t(2))
  then show ?thesis using t(1) dt by blast
qed

lemma basic_routes_same: "same_program s t \<Longrightarrow> basic_routes s \<Longrightarrow> basic_routes t"
  using find_registered_cong [of s t]
  by (simp add: basic_routes_def same_program_def core_frame_def same_tables_def)

section \<open>The application stays in the frame\<close>

lemma basic_hooks_frame: "frames_core basic_hooks"
proof -
  have "core_frame s (basic_hooks c s)" for c and s :: "'a basic_sys"
    by (cases c) (simp_all add: pong_on_start_def pong_on_failure_def)
  then show ?thesis by (simp add: frames_core_def)
qed

lemma basic_handler_frame: "basic_handler P f = Some h \<Longrightarrow> core_frame s (h self bs m s)"
  by (auto simp: basic_handler_def on_basic_ping_def on_basic_pong_def on_basic_status_request_def
      on_basic_fault_def Let_def core_steps frame_actor_fail [OF basic_hooks_frame] split: if_splits)

lemma basic_user_frame:
  fixes P :: "'p port_ops" and report :: "int + BasicStatusResponse_payload_t \<Rightarrow> 'p basic_sys \<Rightarrow> 'p basic_sys"
  assumes "\<And>r s. core_frame s (report r s)"
  shows "frames_core (basic_user report P)"
proof -
  have hook: "core_frame s (basic_hooks c s)" for c and s :: "'p basic_sys"
    by (rule basic_hooks_frame [unfolded frames_core_def, rule_format])
  have "core_frame s (basic_user report P c s)" for c and s :: "'p basic_sys"
  proof (cases c)
    case (Call_handler f self m)
    then show ?thesis
      using basic_handler_frame [of P f]
      by (auto simp: handle_adapter_def split: option.split)
  next
    case (Call_callback f self result payload sz m)
    then show ?thesis
      using assms by (auto simp: response_handle_adapter_def on_basic_status_response_def)
  qed (use hook in \<open>simp_all del: basic_hooks.simps\<close>)
  then show ?thesis by (simp add: frames_core_def)
qed

section \<open>From the constructors to the end of main\<close>

lemma basic_init_program:
  assumes "frames_core U" "actor_list s xs" "lifecycle_state s = IPC_LIFECYCLE_STOPPED"
  shows "\<exists>rc t. basic_actor_init P U s = Some (rc, t) \<and> same_program s t
    \<and> lifecycle_state t \<in> {IPC_LIFECYCLE_RUNNING, IPC_LIFECYCLE_STOPPING}
    \<and> (rc = 0 \<longrightarrow> lifecycle_state t = IPC_LIFECYCLE_RUNNING)"
proof -
  obtain rc s1 where start: "ipc_start_all_actors P U s = Some (rc, s1)" "same_program s s1"
    "lifecycle_state s1 = (if rc = 0 then IPC_LIFECYCLE_RUNNING else IPC_LIFECYCLE_STOPPING)"
    using start_all_program [OF assms] by blast
  obtain rc2 s2 where send: "ipc_send_raw P (Some BasicPing) (Some (bytes_of_u32 1)) s1 = (rc2, s2)"
    by (rule prod.exhaust)
  have "core_frame s1 (snd (ipc_send_raw P (Some BasicPing) (Some (bytes_of_u32 1)) s1))"
    by (rule core_steps) simp
  then have "core_frame s1 s2" by (simp add: send)
  then have "same_program s s2" "lifecycle_state s2 = lifecycle_state s1"
    using same_program_trans [OF start(2) same_program_frame] core_frame_lifecycle by blast+
  then show ?thesis using start send by (simp add: basic_actor_init_def)
qed

lemma basic_main_stops:
  assumes "frames_core U" "actor_list s xs"
    and "lifecycle_state s \<in> {IPC_LIFECYCLE_RUNNING, IPC_LIFECYCLE_STOPPING}"
    and "\<And>ms t. core_frame t (sleep ms t)"
  shows "\<exists>t. basic_main P U sleep s = Some t \<and> same_program s t \<and> lifecycle_state t = IPC_LIFECYCLE_STOPPING"
proof -
  note sleeps = core_frame_trans [OF _ assms(4)]
  have "\<exists>s7. basic_main P U sleep s = ipc_stop_all P U s7 \<and> core_frame s s7"
    unfolding basic_main_def Let_def by (intro exI conjI, rule refl) (intro sleeps core_steps core_frame_refl)
  then obtain s7 where s7: "basic_main P U sleep s = ipc_stop_all P U s7" "core_frame s s7" by blast
  have "actor_list s7 xs" using assms(2) same_program_list [OF same_program_frame [OF s7(2)]] by simp
  from stop_all_program [OF assms(1) this, of P] obtain t where "ipc_stop_all P U s7 = Some t" "same_program s7 t"
    "lifecycle_state t = IPC_LIFECYCLE_STOPPING"
    using assms(3) core_frame_lifecycle [OF s7(2)] by auto
  then show ?thesis using s7(1) same_program_trans [OF same_program_frame [OF s7(2)]] by auto
qed

text \<open>
  C37: The Zephyr example, from its constructors to the end of \<^verbatim>\<open>main\<close>. Whatever order the constructors run
  in, whatever port it runs on and whatever the other threads do while \<^verbatim>\<open>main\<close> sleeps, as long as they stay
  in the frame of the API: all registrations return, every command goes to the actor that handles it, the
  \<^verbatim>\<open>SYS_INIT\<close> entry and \<^verbatim>\<open>main\<close> end, the entry returning 0 only with the framework running, and \<^verbatim>\<open>main\<close> leaves
  the framework stopping, a failed start included, with the routes as declared.
\<close>

theorem basic_program_runs:
  fixes P :: "'p port_ops"
  assumes "mset ys = mset basic_decls"
    and "\<And>r t. core_frame t (report r t)" "\<And>ms t. core_frame t (sleep ms t)"
  shows "\<exists>s rc t v. run_decls ys (ipc_initial ipc_default_config as basic_descs p basic_vars_initial)
        = Some (Returns s)
    \<and> basic_actor_init P (basic_user report P) s = Some (rc, t)
    \<and> (rc = 0 \<longrightarrow> lifecycle_state t = IPC_LIFECYCLE_RUNNING)
    \<and> basic_main P (basic_user report P) sleep t = Some v
    \<and> lifecycle_state v = IPC_LIFECYCLE_STOPPING \<and> basic_routes s \<and> basic_routes v"
proof -
  have U: "frames_core (basic_user report P)" by (rule basic_user_frame [OF assms(2)])
  obtain s where up: "run_decls ys (ipc_initial ipc_default_config as basic_descs p basic_vars_initial)
      = Some (Returns s)" "declared_state ipc_default_config as basic_descs ys s" "basic_routes s"
    using basic_program_up [OF assms(1), of as p basic_vars_initial] by (elim exE conjE)
  let ?xs = "fold append_new (map decl_actor ys) []"
  have s: "actor_list s ?xs" "lifecycle_state s = IPC_LIFECYCLE_STOPPED"
    using up(2) by (simp_all add: declared_state_def registration_inv_def)
  from basic_init_program [OF U s, of P]
  obtain rc t where t: "basic_actor_init P (basic_user report P) s = Some (rc, t)" "same_program s t"
    "lifecycle_state t \<in> {IPC_LIFECYCLE_RUNNING, IPC_LIFECYCLE_STOPPING}"
    "rc = 0 \<longrightarrow> lifecycle_state t = IPC_LIFECYCLE_RUNNING" by (elim exE conjE)
  have "actor_list t ?xs" using s(1) same_program_list [OF t(2)] by simp
  from basic_main_stops [OF U this t(3), of sleep P, OF assms(3)]
  obtain v where "basic_main P (basic_user report P) sleep t = Some v" "same_program t v"
    "lifecycle_state v = IPC_LIFECYCLE_STOPPING" by (elim exE conjE)
  with up(1,3) t(1,4) basic_routes_same [OF same_program_trans [OF t(2) this(2)] up(3)] show ?thesis
    by (intro exI conjI)
qed

text \<open>The port states of the two declared actors.\<close>

definition basic_ports :: "zephyr_config \<Rightarrow> (nat \<Rightarrow> nat) \<Rightarrow> aptr \<Rightarrow> zephyr_port_state" where
  "basic_ports c usable a =
     (if a = ping_actor then zephyr_actor_define_port c usable 1024 4 (IPC_MESSAGE_MAX [4, 12])
      else zephyr_actor_define_port c usable 2048 4 (IPC_MESSAGE_MAX [4, 4, 4]))"

text \<open>The program on the kernel that is nothing but its queues.\<close>

definition ex_basic_actors :: "aptr \<Rightarrow> ipc_actor" where
  "ex_basic_actors = basic_actors (\<lambda>n. n) (\<lambda>n. n)"

definition ex_basic_port :: "queues zephyr port_ops" where
  "ex_basic_port = zephyr_port queue_kernel ex_zephyr_config ex_basic_actors"

definition ex_basic_initial :: "queues zephyr basic_sys" where
  "ex_basic_initial = ipc_initial ipc_default_config ex_basic_actors basic_descs
     (zephyr_initial ex_zephyr_config (basic_ports ex_zephyr_config (\<lambda>n. n)) (\<lambda>a. (0, []))) basic_vars_initial"

theorem basic_program_runs_witness:
  "\<exists>s rc t v. run_decls (rev basic_decls) ex_basic_initial = Some (Returns s)
    \<and> basic_actor_init ex_basic_port (basic_user (\<lambda>r t. t) ex_basic_port) s = Some (rc, t)
    \<and> basic_main ex_basic_port (basic_user (\<lambda>r t. t) ex_basic_port) (\<lambda>ms t. t) t = Some v
    \<and> lifecycle_state v = IPC_LIFECYCLE_STOPPING"
  unfolding ex_basic_initial_def
  using basic_program_runs [where P = ex_basic_port and ys = "rev basic_decls" and report = "\<lambda>r t. t"
      and sleep = "\<lambda>ms t. t" and as = ex_basic_actors
      and p = "zephyr_initial ex_zephyr_config (basic_ports ex_zephyr_config (\<lambda>n. n)) (\<lambda>a. (0, []))"]
  by auto

end
