(* ===== verification/Zephyr_Ping_Pong.thy ===== *)
theory Zephyr_Ping_Pong
  imports Zephyr_Program
begin

text \<open>
  The exchange of the Zephyr example, from the first ping to the last pong, through the whole stack:
  the kernel's message queues, the port's sends and delayed work, the actor threads, the dispatcher,
  the typed adapters and the handlers.
\<close>

section \<open>The wiring\<close>

text \<open>What startup leaves for the two message types, and the mailboxes' limits.\<close>

definition basic_wired :: "(aptr \<Rightarrow> ipc_actor) \<Rightarrow> 'p basic_sys \<Rightarrow> bool" where
  "basic_wired xs s \<longleftrightarrow>
     (\<forall>d \<in> {BasicPing, BasicPong}. d_kind (descs s d) = IPC_CMD \<and> d_name (descs s d) \<noteq> None
        \<and> d_size (descs s d) = 4)
     \<and> find_registered (eventual_id (descs s BasicPing)) s = Some pong_actor
     \<and> find_registered (eventual_id (descs s BasicPong)) s = Some ping_actor
     \<and> map_option b_handler
         (find (\<lambda>b. b_actor b = pong_actor \<and> b_msg_id b = eventual_id (descs s BasicPing)) (bindings s)) = Some 70
     \<and> map_option b_handler
         (find (\<lambda>b. b_actor b = ping_actor \<and> b_msg_id b = eventual_id (descs s BasicPong)) (bindings s)) = Some 71
     \<and> (\<forall>a \<in> {ping_actor, pong_actor}. a_handler (actors s a) = Ipc_dispatch_actor_handlers
        \<and> 4 \<le> max_payload_size (a_cfg (actors s a)) \<and> 0 < queue_depth (a_cfg (actors s a))
        \<and> a_cfg (xs a) = a_cfg (actors s a))"

lemma basic_wired_msg:
  assumes "basic_wired xs s" "d \<in> {BasicPing, BasicPong}"
  shows "d_kind (descs s d) = IPC_CMD" "d_name (descs s d) \<noteq> None" "d_size (descs s d) = 4"
    "cmd_route s d (if d = BasicPing then pong_actor else ping_actor)"
  using assms by (auto simp: basic_wired_def cmd_route_def)

lemma basic_wired_actor:
  assumes "basic_wired xs s" "a = ping_actor \<or> a = pong_actor"
  shows "a_handler (actors s a) = Ipc_dispatch_actor_handlers" "4 \<le> max_payload_size (a_cfg (actors s a))"
    "0 < queue_depth (a_cfg (actors s a))" "a_cfg (xs a) = a_cfg (actors s a)"
  using assms by (auto simp: basic_wired_def)

lemma core_frame_desc:
  assumes "core_frame s t"
  shows "d_kind (descs t d) = d_kind (descs s d)" "d_name (descs t d) = d_name (descs s d)"
    "d_size (descs t d) = d_size (descs s d)" "eventual_id (descs t d) = eventual_id (descs s d)"
proof -
  have d: "(descs t d)\<lparr> d_id := 0 \<rparr> = (descs s d)\<lparr> d_id := 0 \<rparr>"
    "d_id (descs t d) \<in> {d_id (descs s d), eventual_id (descs s d)}"
    using assms unfolding core_frame_def by blast+
  show "d_kind (descs t d) = d_kind (descs s d)" "d_name (descs t d) = d_name (descs s d)"
    "d_size (descs t d) = d_size (descs s d)" using desc_without_id [OF d(1)] by simp_all
  show "eventual_id (descs t d) = eventual_id (descs s d)" by (rule eventual_id_idem [OF d])
qed

lemma basic_wired_frame:
  assumes "basic_wired xs s" "core_frame s t"
  shows "basic_wired xs t" "a_cfg (actors t a) = a_cfg (actors s a)"
proof -
  have same: "same_tables s t" using assms(2) by (simp add: core_frame_def)
  have tabs: "find_registered i t = find_registered i s" "bindings t = bindings s" for i
    using same by (simp_all add: find_registered_def same_tables_def)
  note acts = undropped_fields [OF core_frame_actors [OF assms(2)]]
  show "basic_wired xs t"
    using assms(1) unfolding basic_wired_def
    by (simp add: tabs core_frame_desc [OF assms(2)] acts(1,7))
  show "a_cfg (actors t a) = a_cfg (actors s a)" by (rule acts(1))
qed

definition counted :: "('p, 'u) sys \<Rightarrow> dptr \<Rightarrow> u32 \<Rightarrow> ipc_msg" where
  "counted s d n = received (call_msg s d (Some (bytes_of_u32 n)))"

lemma call_msg_eq:
  "call_msg s d payload =
     \<lparr> m_id = eventual_id (descs s d), m_kind = d_kind (descs s d), m_size = d_size (descs s d),
       m_payload = payload, m_ask_id = 0, m_reply_id = 0, m_result = 0 \<rparr>"
  by (simp add: call_msg_def make_msg_def ensure_id_desc)

lemma counted_frame: "core_frame s t \<Longrightarrow> counted t d n = counted s d n"
  by (simp add: counted_def call_msg_eq core_frame_desc)

lemma counted_msg:
  assumes "basic_wired xs s" "d \<in> {BasicPing, BasicPong}"
  shows "msg_readable (call_msg s d (Some (bytes_of_u32 n)))"
    "msg_bytes (call_msg s d (Some (bytes_of_u32 n))) = bytes_of_u32 n"
    "m_size (call_msg s d (Some (bytes_of_u32 n))) = 4"
  using basic_wired_msg(3) [OF assms] by (simp_all add: call_msg_eq msg_readable_def msg_bytes_def)

lemma u32_at_bytes_of [simp]: "u32_at 0 (bytes_of_u32 n) = n"
  using u32_at_bytes [of "[]" 0 n "[]"] by simp

text \<open>A taken message of one of the types reaches its typed handler with its number.\<close>

lemma taken_payload: "zephyr_take K a p = Some (m, q) \<Longrightarrow> \<exists>bs. m_payload m = Some bs"
  by (auto simp: zephyr_take_def load_msg_def split: option.splits)

lemma received_eqD:
  assumes "received m = received m'"
  shows "m_id m = m_id m'" "m_size m = m_size m'" "m_ask_id m = m_ask_id m'" "msg_bytes m = msg_bytes m'"
  using arg_cong [OF assms, of m_id] arg_cong [OF assms, of m_size] arg_cong [OF assms, of m_ask_id]
    arg_cong [OF assms, of m_payload]
  by simp_all

lemma counted_dispatch:
  assumes "basic_wired xs s" "d \<in> {BasicPing, BasicPong}" "received m = counted s d n"
    and "m_payload m = Some bs" "msg_readable m"
    and "(a, h) = (if d = BasicPing then (pong_actor, on_basic_ping P) else (ping_actor, on_basic_pong P))"
  shows "call_actor_handler (basic_user report P) a m s = h a (bytes_of_u32 n) m s"
proof -
  note f = received_eqD [OF assms(3) [unfolded counted_def]]
  have "m_size m = 4" "msg_bytes m = bytes_of_u32 n" using f counted_msg [OF assms(1,2)] by simp_all
  then have cast: "cast_payload 4 (m_payload m) = Some (bytes_of_u32 n)"
    using assms(4,5) by (simp add: cast_payload_def msg_bytes_def msg_readable_def)
  have "m_ask_id m = 0" "m_id m = eventual_id (descs s d)" using f by (simp_all add: call_msg_eq)
  then show ?thesis
    using assms(1,2,6) cast
    by (auto simp: basic_wired_def call_actor_handler_def ipc_dispatch_actor_handlers_def dispatch_to_handler_def
        basic_handler_def handle_adapter_def split: if_splits)
qed

section \<open>The turns of the two threads\<close>

text \<open>The program between two turns: wired, both mailboxes set up, and so is the pong actor's delayed send.\<close>

definition delay_slot_ready :: "aptr \<Rightarrow> ipc_actor_cfg \<Rightarrow> 'k zephyr \<Rightarrow> bool" where
  "delay_slot_ready a c p \<longleftrightarrow>
     z_owner (zport_of p a) = Some a
     \<and> (\<exists>buf. z_delayed_payload (zport_of p a) = Some buf \<and> max_payload_size c \<le> length buf)"

definition basic_live ::
    "('k \<Rightarrow> aptr \<Rightarrow> nat) \<Rightarrow> ('k \<Rightarrow> aptr \<Rightarrow> slot list) \<Rightarrow> (aptr \<Rightarrow> ipc_actor) \<Rightarrow> 'k zephyr basic_sys \<Rightarrow> bool" where
  "basic_live cap Q xs s \<longleftrightarrow>
     basic_wired xs s
     \<and> zephyr_ready cap Q (port_st s) ping_actor (a_cfg (actors s ping_actor))
     \<and> zephyr_ready cap Q (port_st s) pong_actor (a_cfg (actors s pong_actor))
     \<and> delay_slot_ready pong_actor (a_cfg (actors s pong_actor)) (port_st s)"

lemma basic_live_ready:
  "basic_live cap Q xs s \<Longrightarrow> a = ping_actor \<or> a = pong_actor \<Longrightarrow>
     zephyr_ready cap Q (port_st s) a (a_cfg (actors s a))"
  by (auto simp: basic_live_def)

lemma basic_live_step:
  assumes "basic_live cap Q xs s" "core_frame s t"
    and "\<And>a. zephyr_ready cap Q (port_st s) a (a_cfg (actors s a)) \<Longrightarrow> zephyr_ready cap Q (port_st t) a (a_cfg (actors s a))"
    and "delay_slot_ready pong_actor (a_cfg (actors s pong_actor)) (port_st t)"
  shows "basic_live cap Q xs t"
proof -
  have "basic_wired xs s" using assms(1) by (simp add: basic_live_def)
  note w = basic_wired_frame [OF this assms(2)]
  show ?thesis
    unfolding basic_live_def w(2) using w(1) assms(3) [OF basic_live_ready [OF assms(1)]] assms(4) by simp
qed

lemma same_delayed_slot:
  "delay_slot_ready a c p \<Longrightarrow> same_delayed a p q \<Longrightarrow> delay_slot_ready a c q"
  by (simp add: delay_slot_ready_def same_delayed_def)

text \<open>One message in the mailbox: the thread takes it and calls the handler; if the handler leaves the mailbox
  empty the turn ends.\<close>

lemma single_turn:
  assumes C: "msgq_contract K cap Q" and live: "basic_live cap Q xs s"
    and d: "d \<in> {BasicPing, BasicPong}" and mail: "zephyr_mail Q (port_st s) a = [counted s d n]"
    and h: "(a, h) = (if d = BasicPing then (pong_actor, on_basic_ping P) else (ping_actor, on_basic_pong P))"
  shows "\<exists>m p. basic_live cap Q xs (s\<lparr> port_st := p \<rparr>)
    \<and> zephyr_mail Q p = (zephyr_mail Q (port_st s))(a := [])
    \<and> same_delayed pong_actor (port_st s) p
    \<and> (let t = h a (bytes_of_u32 n) m (s\<lparr> port_st := p \<rparr>)
       in zephyr_mail Q (port_st t) a = [] \<and> zephyr_ready cap Q (port_st t) a (a_cfg (actors s a)) \<longrightarrow>
            zephyr_thread_turn K (basic_user report P) a s = Some t)"
proof -
  have a: "a = ping_actor \<or> a = pong_actor" using h by (auto split: if_splits)
  note ready = basic_live_ready [OF live a]
  obtain m p where take: "zephyr_take K a (port_st s) = Some (m, p)"
    using zephyr_take_cases(1) [OF C ready] mail by (cases "zephyr_take K a (port_st s)") auto
  note q = zephyr_take_cases(2) [OF C ready take]
  let ?s = "s\<lparr> port_st := p \<rparr>"
  have msg: "received m = counted s d n" "zephyr_mail Q p a = []" using q mail by simp_all
  have mails: "zephyr_mail Q p = (zephyr_mail Q (port_st s))(a := [])"
    using q msg(2) by (simp add: fun_eq_iff)
  have same: "same_delayed pong_actor (port_st s) p" by (rule same_delayed_take [OF take])
  have frame: "core_frame s ?s" by (simp add: core_frame_def same_tables_def)
  have slot: "delay_slot_ready pong_actor (a_cfg (actors s pong_actor)) p"
    using live same same_delayed_slot unfolding basic_live_def by blast
  have live': "basic_live cap Q xs ?s"
    by (rule basic_live_step [OF live frame]) (use q slot in simp_all)
  obtain bs where bs: "m_payload m = Some bs" using taken_payload [OF take] by blast
  have wired: "basic_wired xs ?s" using live' by (simp add: basic_live_def)
  have cnt: "received m = counted ?s d n" using msg(1) counted_frame [OF frame] by simp
  have read: "msg_readable m" using q by simp
  note disp = counted_dispatch [OF wired d cnt bs read h]
  let ?t = "h a (bytes_of_u32 n) m ?s"
  have "zephyr_thread_turn K (basic_user report P) a s = Some ?t"
    if "zephyr_mail Q (port_st ?t) a = []" "zephyr_ready cap Q (port_st ?t) a (a_cfg (actors s a))"
  proof -
    have "zephyr_take K a (port_st ?t) = None" using zephyr_take_cases(1) [OF C that(2)] that(1) by simp
    then have "zephyr_drain K (basic_user report P) a ?t = Some ?t" by (subst zephyr_drain.simps) simp
    then show ?thesis by (simp add: zephyr_thread_turn_def take disp)
  qed
  with live' mails same show ?thesis unfolding Let_def by (intro exI [of _ m] exI [of _ p]) blast
qed

text \<open>A turn of the pong actor answers a ping with a pong of the same number.\<close>

lemma zephyr_send_raw_slot:
  "same_delayed a (port_st s) (port_st (snd (ipc_send_raw (zephyr_port K z xs) (Some d) payload s)))"
proof -
  have send: "same_delayed a (port_st t) (port_st (snd (apply_mailbox_overflow_policy b
      (ipc_port_send (zephyr_port K z xs) b m t))))" for b m and t :: "('a zephyr, 'b) sys"
  proof -
    have "same_delayed a (port_st t) (port_st (snd (ipc_port_send (zephyr_port K z xs) b m t)))"
      by (simp add: ipc_port_send_def on_port_result same_delayed_send)
    then show ?thesis
      by (simp add: apply_mailbox_overflow_policy_def case_prod_beta same_delayed_def)
  qed
  show ?thesis
  proof (cases "prepare_registered_cmd (Some d) payload s")
    case (Pair r s1)
    have "port_st s1 = port_st s"
      using arg_cong [OF Pair, of "\<lambda>x. port_st (snd x)"]
      by (simp add: prepare_registered_cmd_cases frame_simps split: if_splits option.splits)
    with Pair send [of s1] show ?thesis
      by (cases r) (auto simp: ipc_send_raw_def same_delayed_def)
  qed
qed

lemma basic_live_app:
  "basic_live cap Q xs (s\<lparr> app_st := v \<rparr>) \<longleftrightarrow> basic_live cap Q xs s"
  by (simp add: basic_live_def basic_wired_def find_registered_def)

lemma live_send:
  assumes C: "msgq_contract K cap Q" and live: "basic_live cap Q xs s"
    and d: "d \<in> {BasicPing, BasicPong}" and a: "a = (if d = BasicPing then pong_actor else ping_actor)"
    and empty: "zephyr_mail Q (port_st s) a = []"
    and t: "t = snd (ipc_send_raw (zephyr_port K z xs) (Some d) (Some (bytes_of_u32 n)) s)"
  shows "fst (ipc_send_raw (zephyr_port K z xs) (Some d) (Some (bytes_of_u32 n)) s) = 0"
    "basic_live cap Q xs t" "core_frame s t" "app_st t = app_st s"
    "zephyr_mail Q (port_st t) = (zephyr_mail Q (port_st s))(a := [counted s d n])"
proof -
  have wired: "basic_wired xs s" using live by (simp add: basic_live_def)
  have pp: "a = ping_actor \<or> a = pong_actor" using a by (auto split: if_splits)
  note cnt = counted_msg [OF wired d]
  have route: "cmd_route s d a" using basic_wired_msg(4) [OF wired d] by (simp only: a)
  note ready = basic_live_ready [OF live pp]
  note sent = mailbox_port.send_raw_delivers [OF zephyr_mailbox_port [OF C, of z xs] route ready, of "Some (bytes_of_u32 n)", OF cnt(1), folded t]
  show frame: "core_frame s t" unfolding t by (rule core_steps) simp
  show "app_st t = app_st s" unfolding t by (rule app_frames)
  have code: "delivery_code (actors s a) (length (zephyr_mail Q (port_st s) a))
      (call_msg s d (Some (bytes_of_u32 n))) = 0"
    using basic_wired_actor [OF wired pp] cnt(3) empty
    by (simp add: delivery_code_0_iff actor_max_payload_size_def)
  show "fst (ipc_send_raw (zephyr_port K z xs) (Some d) (Some (bytes_of_u32 n)) s) = 0"
    by (rule trans [OF sent(1) code])
  show "zephyr_mail Q (port_st t) = (zephyr_mail Q (port_st s))(a := [counted s d n])"
    using sent(2) code empty by (simp add: fun_eq_iff delivered_def counted_def)
  have slot: "delay_slot_ready pong_actor (a_cfg (actors s pong_actor)) (port_st t)"
    unfolding t by (rule same_delayed_slot [OF _ zephyr_send_raw_slot]) (use live in \<open>simp add: basic_live_def\<close>)
  show "basic_live cap Q xs t" by (rule basic_live_step [OF live frame sent(5) slot])
qed

lemma pong_turn:
  assumes C: "msgq_contract K cap Q" and live: "basic_live cap Q xs s"
    and mail: "zephyr_mail Q (port_st s) pong_actor = [counted s BasicPing n]" "zephyr_mail Q (port_st s) ping_actor = []"
  shows "\<exists>t. zephyr_thread_turn K (basic_user report (zephyr_port K z xs)) pong_actor s = Some t
    \<and> basic_live cap Q xs t \<and> core_frame s t
    \<and> app_st t = (app_st s)\<lparr> basic_ping_count := basic_ping_count (app_st s) + 1 \<rparr>
    \<and> zephyr_mail Q (port_st t) = (zephyr_mail Q (port_st s))(pong_actor := [], ping_actor := [counted s BasicPong n])"
proof -
  let ?P = "zephyr_port K z xs"
  have "BasicPing \<in> {BasicPing, BasicPong}"
    "(pong_actor, on_basic_ping ?P) = (if BasicPing = BasicPing then (pong_actor, on_basic_ping ?P) else (ping_actor, on_basic_pong ?P))"
    by simp_all
  from single_turn [OF C live this(1) mail(1) this(2), of report]
  obtain m p where turn: "basic_live cap Q xs (s\<lparr> port_st := p \<rparr>)"
    "zephyr_mail Q p = (zephyr_mail Q (port_st s))(pong_actor := [])"
    "let t = on_basic_ping ?P pong_actor (bytes_of_u32 n) m (s\<lparr> port_st := p \<rparr>)
       in zephyr_mail Q (port_st t) pong_actor = [] \<and> zephyr_ready cap Q (port_st t) pong_actor (a_cfg (actors s pong_actor)) \<longrightarrow>
            zephyr_thread_turn K (basic_user report ?P) pong_actor s = Some t"
    by (elim exE conjE)
  define s1 where "s1 = s\<lparr> port_st := p, app_st := (app_st s)\<lparr> basic_ping_count := basic_ping_count (app_st s) + 1 \<rparr> \<rparr>"
  define t where "t = snd (ipc_send_raw ?P (Some BasicPong) (Some (bytes_of_u32 n)) s1)"
  have live1: "basic_live cap Q xs s1" unfolding s1_def basic_live_app by (rule turn(1))
  have mail1: "zephyr_mail Q (port_st s1) = (zephyr_mail Q (port_st s))(pong_actor := [])"
    by (simp add: s1_def turn(2))
  have frame1: "core_frame s s1" by (simp add: s1_def core_frame_def same_tables_def)
  have pong: "BasicPong \<in> {BasicPing, BasicPong}" "ping_actor = (if BasicPong = BasicPing then pong_actor else ping_actor)"
    by simp_all
  have "zephyr_mail Q (port_st s1) ping_actor = []" using mail(2) by (simp add: mail1)
  note send = live_send(2-) [OF C live1 pong this t_def]
  have cfg: "a_cfg (actors t a) = a_cfg (actors s a)" for a
    by (rule undropped_fields(1) [OF core_frame_actors [OF core_frame_trans [OF frame1 send(2)]]])
  have same: "counted s1 BasicPong n = counted s BasicPong n" by (rule counted_frame [OF frame1])
  have "on_basic_ping ?P pong_actor (bytes_of_u32 n) m (s\<lparr> port_st := p \<rparr>) = t"
    by (simp add: on_basic_ping_def t_def s1_def)
  moreover have "zephyr_ready cap Q (port_st t) pong_actor (a_cfg (actors s pong_actor))"
    using basic_live_ready [OF send(1), of pong_actor] by (simp add: cfg)
  ultimately have "zephyr_thread_turn K (basic_user report ?P) pong_actor s = Some t"
    using turn(3) by (simp add: send(4) mail1)
  then show ?thesis
    using send(1,3,4) core_frame_trans [OF frame1 send(2)] mail1 same by (intro exI [of _ t]) (simp add: s1_def)
qed

text \<open>
  A turn of the ping actor: for a number below 5 it schedules the next ping, which the work handler posts to
  the pong actor; for another it does nothing. \<open>never_busy\<close>: the delayed work is not running when it is
  rescheduled, since the ping that caused this turn was its last post.
\<close>

definition never_busy :: "'k kernel \<Rightarrow> bool" where
  "never_busy K \<longleftrightarrow> (\<forall>a k. \<not> fst (k_work_flush K a k))"

definition work_fires :: "'k kernel \<Rightarrow> (aptr \<Rightarrow> ipc_actor) \<Rightarrow> ('k zephyr, 'u) sys \<Rightarrow> ('k zephyr, 'u) sys" where
  "work_fires K xs s = s\<lparr> port_st := delayed_work_fn K xs pong_actor (port_st s) \<rparr>"

lemma idle_cancel:
  assumes "msgq_contract K cap Q" "never_busy K"
  shows "zephyr_mail Q (zephyr_cancel_delayed_send K xs a s) = zephyr_mail Q s"
  using assms by (simp add: zephyr_cancel_delayed_send_def never_busy_def Let_def case_prod_beta zephyr_mail_def
      fun_eq_iff msgq_contract_keeps [OF assms(1)])

lemma live_send_after:
  assumes C: "msgq_contract K cap Q" and idle: "never_busy K" and after: "CONFIG_ACTOR_SEND_AFTER z"
    and live: "basic_live cap Q xs s"
    and t: "t = snd (ipc_send_after_raw (zephyr_port K z xs) (Some BasicPing) ms (Some (bytes_of_u32 n)) s)"
  shows "basic_live cap Q xs t" "core_frame s t" "app_st t = app_st s"
    "zephyr_mail Q (port_st t) = zephyr_mail Q (port_st s)"
    "zephyr_mail Q (port_st t) pong_actor = [] \<Longrightarrow>
       zephyr_mail Q (port_st (work_fires K xs t)) = (zephyr_mail Q (port_st t))(pong_actor := [counted s BasicPing n])"
proof -
  have wired: "basic_wired xs s" using live by (simp add: basic_live_def)
  have ping: "BasicPing \<in> {BasicPing, BasicPong}" by simp
  note msg = basic_wired_msg [OF wired ping] and cnt = counted_msg [OF wired ping]
  let ?m = "call_msg s BasicPing (Some (bytes_of_u32 n))" and ?x = "actors s pong_actor"
  note act = basic_wired_actor [OF wired, of pong_actor, simplified]
  obtain buf where slot: "z_owner (zport_of (port_st s) pong_actor) = Some pong_actor"
    "z_delayed_payload (zport_of (port_st s) pong_actor) = Some buf"
    "max_payload_size (a_cfg (xs pong_actor)) \<le> length buf"
    using live act(4) unfolding basic_live_def delay_slot_ready_def by auto
  have ready: "zephyr_ready cap Q (port_st s) pong_actor (a_cfg (xs pong_actor))"
    using basic_live_ready [OF live, of pong_actor] act(4) by simp
  have fits: "m_size ?m \<le> max_payload_size (a_cfg (xs pong_actor))" using cnt(3) act(2,4) by simp
  have long: "m_size ?m \<le> length buf" using fits slot(3) by (rule le_trans)
  obtain p rc where after_eq: "zephyr_send_after K z xs pong_actor (xs pong_actor) ?m ms (port_st s) = (p, rc)"
    by (rule prod.exhaust)
  note posts = zephyr_send_after_posts [OF C after cnt(1) fits slot ready after_eq]
  note st = zephyr_send_after_state [OF C after fits slot(2), where xs = xs and ms = ms, unfolded after_eq fst_conv snd_conv]
  have "zephyr_send_after K z xs pong_actor (actors s pong_actor) ?m ms (port_st s) = (p, rc)"
    using after_eq unfolding zephyr_send_after_def act(4) .
  then have call: "ipc_send_after_raw (zephyr_port K z xs) (Some BasicPing) ms (Some (bytes_of_u32 n)) s
      = (rc, (ipc_ensure_id BasicPing s)\<lparr> port_st := p \<rparr>)"
    using msg act(2)
    by (auto simp: ipc_send_after_raw_def prepare_registered_cmd_cases cmd_route_def ipc_port_send_after_def
        actor_max_payload_size_def on_port_def frame_simps)
  then have ts: "t = (ipc_ensure_id BasicPing s)\<lparr> port_st := p \<rparr>" by (simp add: t)
  show frame: "core_frame s t" unfolding t by (rule core_steps) simp
  show "app_st t = app_st s" by (simp add: ts frame_simps)
  show "zephyr_mail Q (port_st t) = zephyr_mail Q (port_st s)"
    using posts by (simp add: ts idle_cancel [OF C idle])
  have slot_t: "delay_slot_ready pong_actor (a_cfg (actors s pong_actor)) (port_st t)"
    using st(2,4) slot act(4) long by (simp add: delay_slot_ready_def ts length_copy_payload)
  have rdy: "zephyr_ready cap Q (port_st t) b c" if "zephyr_ready cap Q (port_st s) b c" for b c
    unfolding ts by (simp add: st(6) [OF zephyr_cancel_ready [OF C that]])
  show live_t: "basic_live cap Q xs t" by (rule basic_live_step [OF live frame rdy slot_t])
  assume empty: "zephyr_mail Q (port_st t) pong_actor = []"
  have "same_delayed pong_actor p p" by (simp add: same_delayed_def)
  then have "zephyr_mail Q (delayed_work_fn K xs pong_actor p) pong_actor = [received ?m]"
    using posts empty basic_wired_actor(3) [OF wired, of pong_actor] act(4) by (simp add: ts)
  moreover have "zephyr_mail Q (delayed_work_fn K xs pong_actor p) b = zephyr_mail Q p b" if "b \<noteq> pong_actor" for b
    using mailbox_port.send_others [OF zephyr_mailbox_port [OF C, of z xs] that] st(4) slot(1)
    by (simp add: delayed_work_fn_def Let_def)
  ultimately show "zephyr_mail Q (port_st (work_fires K xs t))
      = (zephyr_mail Q (port_st t))(pong_actor := [counted s BasicPing n])"
    by (simp add: work_fires_def ts fun_eq_iff counted_def)
qed

lemma work_fires_live:
  assumes C: "msgq_contract K cap Q" and live: "basic_live cap Q xs s"
  shows "basic_live cap Q xs (work_fires K xs s)" "core_frame s (work_fires K xs s)"
    "app_st (work_fires K xs s) = app_st s"
proof -
  show frame: "core_frame s (work_fires K xs s)" by (simp add: work_fires_def core_frame_def same_tables_def)
  show "app_st (work_fires K xs s) = app_st s" by (simp add: work_fires_def)
  have "same_delayed pong_actor (port_st s) (delayed_work_fn K xs pong_actor (port_st s))"
    by (cases "z_owner (zport_of (port_st s) pong_actor)")
       (simp_all add: delayed_work_fn_def Let_def same_delayed_send, simp add: same_delayed_def)
  then have slot: "delay_slot_ready pong_actor (a_cfg (actors s pong_actor)) (port_st (work_fires K xs s))"
    using live same_delayed_slot unfolding basic_live_def work_fires_def by fastforce
  have rdy: "zephyr_ready cap Q (port_st (work_fires K xs s)) b c" if "zephyr_ready cap Q (port_st s) b c" for b c
    using delayed_work_ready [OF C that] by (simp add: work_fires_def)
  show "basic_live cap Q xs (work_fires K xs s)" by (rule basic_live_step [OF live frame rdy slot])
qed

lemma ping_turn:
  assumes C: "msgq_contract K cap Q" and idle: "never_busy K" and after: "CONFIG_ACTOR_SEND_AFTER z"
    and live: "basic_live cap Q xs s"
    and mail: "zephyr_mail Q (port_st s) ping_actor = [counted s BasicPong n]" "zephyr_mail Q (port_st s) pong_actor = []"
  shows "\<exists>t. zephyr_thread_turn K (basic_user report (zephyr_port K z xs)) ping_actor s = Some t
    \<and> basic_live cap Q xs t \<and> core_frame s t
    \<and> app_st t = (app_st s)\<lparr> basic_pong_count := basic_pong_count (app_st s) + 1 \<rparr>
    \<and> zephyr_mail Q (port_st t) = (zephyr_mail Q (port_st s))(ping_actor := [])
    \<and> (n < 5 \<longrightarrow> zephyr_mail Q (port_st (work_fires K xs t))
         = (zephyr_mail Q (port_st t))(pong_actor := [counted s BasicPing (n + 1)]))"
proof -
  let ?P = "zephyr_port K z xs"
  have "BasicPong \<in> {BasicPing, BasicPong}"
    "(ping_actor, on_basic_pong ?P) = (if BasicPong = BasicPing then (pong_actor, on_basic_ping ?P) else (ping_actor, on_basic_pong ?P))"
    by simp_all
  from single_turn [OF C live this(1) mail(1) this(2), of report]
  obtain m p where turn: "basic_live cap Q xs (s\<lparr> port_st := p \<rparr>)"
    "zephyr_mail Q p = (zephyr_mail Q (port_st s))(ping_actor := [])"
    "let t = on_basic_pong ?P ping_actor (bytes_of_u32 n) m (s\<lparr> port_st := p \<rparr>)
       in zephyr_mail Q (port_st t) ping_actor = [] \<and> zephyr_ready cap Q (port_st t) ping_actor (a_cfg (actors s ping_actor)) \<longrightarrow>
            zephyr_thread_turn K (basic_user report ?P) ping_actor s = Some t"
    by (elim exE conjE)
  define s1 where "s1 = s\<lparr> port_st := p, app_st := (app_st s)\<lparr> basic_pong_count := basic_pong_count (app_st s) + 1 \<rparr> \<rparr>"
  define u where "u = snd (ipc_send_after_raw ?P (Some BasicPing) 1000 (Some (bytes_of_u32 (n + 1))) s1)"
  define t where "t = (if n < 5 then u else s1)"
  have live1: "basic_live cap Q xs s1" unfolding s1_def basic_live_app by (rule turn(1))
  have mail1: "zephyr_mail Q (port_st s1) = (zephyr_mail Q (port_st s))(ping_actor := [])"
    by (simp add: s1_def turn(2))
  have frame1: "core_frame s s1" by (simp add: s1_def core_frame_def same_tables_def)
  note after = live_send_after [OF C idle after live1 u_def]
  have t: "basic_live cap Q xs t" "core_frame s t" "app_st t = app_st s1"
    "zephyr_mail Q (port_st t) = zephyr_mail Q (port_st s1)"
    using live1 frame1 after(1,3,4) core_frame_trans [OF frame1 after(2)] by (simp_all add: t_def)
  have cfg: "a_cfg (actors t a) = a_cfg (actors s a)" for a
    by (rule undropped_fields(1) [OF core_frame_actors [OF t(2)]])
  have same: "counted s1 BasicPing k = counted s BasicPing k" for k by (rule counted_frame [OF frame1])
  have "on_basic_pong ?P ping_actor (bytes_of_u32 n) m (s\<lparr> port_st := p \<rparr>) = t"
    by (simp add: on_basic_pong_def t_def u_def s1_def)
  moreover have "zephyr_ready cap Q (port_st t) ping_actor (a_cfg (actors s ping_actor))"
    using basic_live_ready [OF t(1), of ping_actor] by (simp add: cfg)
  ultimately have "zephyr_thread_turn K (basic_user report ?P) ping_actor s = Some t"
    using turn(3) by (simp add: t(4) mail1)
  moreover have "zephyr_mail Q (port_st (work_fires K xs t))
      = (zephyr_mail Q (port_st t))(pong_actor := [counted s BasicPing (n + 1)])" if "n < 5"
    using after(5) mail(2) that by (simp add: t_def after(4) mail1 same)
  ultimately show ?thesis
    using t mail1 by (intro exI [of _ t]) (simp add: s1_def)
qed

section \<open>The exchange\<close>

text \<open>One round is a turn of each thread; between two rounds the delayed ping is posted.\<close>

definition ping_pong_round ::
    "'k kernel \<Rightarrow> ('k zephyr, basic_vars) user_code \<Rightarrow> 'k zephyr basic_sys \<Rightarrow> 'k zephyr basic_sys option" where
  "ping_pong_round K U s = Option.bind (zephyr_thread_turn K U pong_actor s) (zephyr_thread_turn K U ping_actor)"

fun ping_pong_rounds ::
    "'k kernel \<Rightarrow> (aptr \<Rightarrow> ipc_actor) \<Rightarrow> ('k zephyr, basic_vars) user_code \<Rightarrow> nat \<Rightarrow> 'k zephyr basic_sys
     \<Rightarrow> 'k zephyr basic_sys option" where
  "ping_pong_rounds K xs U 0 s = ping_pong_round K U s"
| "ping_pong_rounds K xs U (Suc k) s =
     Option.bind (ping_pong_round K U s) (\<lambda>t. ping_pong_rounds K xs U k (work_fires K xs t))"

lemma ping_pong_round_result:
  assumes C: "msgq_contract K cap Q" and idle: "never_busy K" and after: "CONFIG_ACTOR_SEND_AFTER z"
    and live: "basic_live cap Q xs s"
    and mail: "zephyr_mail Q (port_st s) pong_actor = [counted s BasicPing n]" "zephyr_mail Q (port_st s) ping_actor = []"
  shows "\<exists>t. ping_pong_round K (basic_user report (zephyr_port K z xs)) s = Some t
    \<and> basic_live cap Q xs t \<and> core_frame s t
    \<and> app_st t = (app_st s)\<lparr> basic_ping_count := basic_ping_count (app_st s) + 1,
                              basic_pong_count := basic_pong_count (app_st s) + 1 \<rparr>
    \<and> zephyr_mail Q (port_st t) pong_actor = [] \<and> zephyr_mail Q (port_st t) ping_actor = []
    \<and> (n < 5 \<longrightarrow> zephyr_mail Q (port_st (work_fires K xs t)) pong_actor = [counted s BasicPing (n + 1)]
         \<and> zephyr_mail Q (port_st (work_fires K xs t)) ping_actor = [])"
proof -
  obtain u where u: "zephyr_thread_turn K (basic_user report (zephyr_port K z xs)) pong_actor s = Some u"
    "basic_live cap Q xs u" "core_frame s u"
    "app_st u = (app_st s)\<lparr> basic_ping_count := basic_ping_count (app_st s) + 1 \<rparr>"
    "zephyr_mail Q (port_st u) = (zephyr_mail Q (port_st s))(pong_actor := [], ping_actor := [counted s BasicPong n])"
    using pong_turn [OF C live mail, of report z] by (elim exE conjE)
  have wired: "basic_wired xs s" using live by (simp add: basic_live_def)
  have same: "counted u d k = counted s d k" for d k by (rule counted_frame [OF u(3)])
  have mail_u: "zephyr_mail Q (port_st u) ping_actor = [counted u BasicPong n]" "zephyr_mail Q (port_st u) pong_actor = []"
    by (simp_all add: u(5) same)
  obtain t where t: "zephyr_thread_turn K (basic_user report (zephyr_port K z xs)) ping_actor u = Some t"
    "basic_live cap Q xs t" "core_frame u t"
    "app_st t = (app_st u)\<lparr> basic_pong_count := basic_pong_count (app_st u) + 1 \<rparr>"
    "zephyr_mail Q (port_st t) = (zephyr_mail Q (port_st u))(ping_actor := [])"
    "n < 5 \<longrightarrow> zephyr_mail Q (port_st (work_fires K xs t))
         = (zephyr_mail Q (port_st t))(pong_actor := [counted u BasicPing (n + 1)])"
    using ping_turn [OF C idle after u(2) mail_u, of report] by (elim exE conjE)
  show ?thesis
    using u(1,4) t core_frame_trans [OF u(3) t(3)]
    by (intro exI [of _ t]) (simp add: ping_pong_round_def u(5) same)
qed

lemma ping_pong_rounds_result:
  assumes C: "msgq_contract K cap Q" and idle: "never_busy K" and after: "CONFIG_ACTOR_SEND_AFTER z"
    and "basic_live cap Q xs s" "unat n + k = 5"
    and "zephyr_mail Q (port_st s) pong_actor = [counted s BasicPing n]" "zephyr_mail Q (port_st s) ping_actor = []"
  shows "\<exists>t. ping_pong_rounds K xs (basic_user report (zephyr_port K z xs)) k s = Some t
    \<and> basic_ping_count (app_st t) = basic_ping_count (app_st s) + of_nat (Suc k)
    \<and> basic_pong_count (app_st t) = basic_pong_count (app_st s) + of_nat (Suc k)
    \<and> zephyr_mail Q (port_st t) pong_actor = [] \<and> zephyr_mail Q (port_st t) ping_actor = []"
  using assms(4-)
proof (induction k arbitrary: s n)
  case 0
  from ping_pong_round_result [OF C idle after 0(1,3,4), of report] show ?case by auto
next
  case (Suc k)
  obtain t where t: "ping_pong_round K (basic_user report (zephyr_port K z xs)) s = Some t"
    "basic_live cap Q xs t" "core_frame s t"
    "app_st t = (app_st s)\<lparr> basic_ping_count := basic_ping_count (app_st s) + 1,
                              basic_pong_count := basic_pong_count (app_st s) + 1 \<rparr>"
    "n < 5 \<longrightarrow> zephyr_mail Q (port_st (work_fires K xs t)) pong_actor = [counted s BasicPing (n + 1)]
         \<and> zephyr_mail Q (port_st (work_fires K xs t)) ping_actor = []"
    using ping_pong_round_result [OF C idle after Suc.prems(1,3,4), of report] by (elim exE conjE)
  let ?w = "work_fires K xs t"
  note w = work_fires_live [OF C t(2)]
  have wired: "basic_wired xs s" using Suc.prems(1) by (simp add: basic_live_def)
  have same: "counted ?w BasicPing k = counted s BasicPing k" for k
    by (rule counted_frame [OF core_frame_trans [OF t(3) w(2)]])
  have "n < 5" using Suc.prems(2) by (simp add: word_less_nat_alt)
  then have mail: "zephyr_mail Q (port_st ?w) pong_actor = [counted ?w BasicPing (n + 1)]"
    "zephyr_mail Q (port_st ?w) ping_actor = []"
    using t(5) by (simp_all add: same)
  have "unat (n + 1) = unat n + 1" using Suc.prems(2) by (simp add: unat_plus_simple [THEN iffD1] unat_word_ariths)
  then have "unat (n + 1) + k = 5" using Suc.prems(2) by simp
  from Suc.IH [OF w(1) this mail] show ?case by (auto simp: t(1,4) w(3))
qed

end
