(* ===== verification/Zephyr_Exchange.thy ===== *)
theory Zephyr_Exchange
  imports Zephyr_Ping_Pong
begin

text \<open>
  The exchange of the Zephyr example from power-on: the constructors in any order, \<^verbatim>\<open>basic_actor_init\<close>, which
  starts both actors and sends the first ping, and the turns of the two threads.
\<close>

section \<open>What the constructors leave alone\<close>

text \<open>A registration that returns keeps the port's state and the application's variables.\<close>

definition keeps_world :: "('p, 'u) sys \<Rightarrow> ('p, 'u) sys outcome option \<Rightarrow> bool" where
  "keeps_world s r \<longleftrightarrow> (\<forall>t. r = Some (Returns t) \<longrightarrow> port_st t = port_st s \<and> app_st t = app_st s)"

lemma write_link_world [simp]:
  "port_st (write_link l v s) = port_st s" "app_st (write_link l v s) = app_st s"
  by (cases l; simp)+

lemma keeps_world_list: "keeps_world s (ipc_actor_register_static a s)"
  by (auto simp: keeps_world_def ipc_actor_register_static_def then_do_Returns_iff
      split: if_splits option.splits)

lemma keeps_world_field: "keeps_world s (register_actor_field a f s)"
proof -
  have "port_st t = port_st s \<and> app_st t = app_st s"
    if "register_actor_field a f s = Some (Returns t)" for t
    using that keeps_world_list [of s a] unfolding register_actor_field_def then_do_Returns_iff
    by (auto simp: keeps_world_def then_do_Returns_iff split: if_splits)
  then show ?thesis by (simp add: keeps_world_def)
qed

lemma register_table_world:
  "register_cmd_unlocked a d s = Returns (rc, t) \<Longrightarrow> port_st t = port_st s \<and> app_st t = app_st s"
  "subscribe_event_unlocked a d s = Returns (rc, t) \<Longrightarrow> port_st t = port_st s \<and> app_st t = app_st s"
  by (auto simp: register_cmd_unlocked_def subscribe_event_unlocked_def failed_assert_def Let_def frame_simps
      split: if_splits)

lemma keeps_world_handler: "keeps_world s (ipc_actor_register_handler_static a d h s)"
proof -
  have "port_st t = port_st s \<and> app_st t = app_st s"
    if run: "ipc_actor_register_handler_static a d h s = Some (Returns t)" for t
  proof (cases "registration_closed s = Returns True")
    case True
    with run show ?thesis by (simp add: ipc_actor_register_handler_static_def)
  next
    case False
    with run obtain s1 rc s3 where "ipc_actor_register_static a s = Some (Returns s1)"
      and s3: "subscribe_event_unlocked a d (ipc_ensure_id d s1) = Returns (rc, s3)
        \<or> register_cmd_unlocked a d (ipc_ensure_id d s1) = Returns (rc, s3)" "add_handler_binding a d h s3 = Returns t"
      by (auto simp: ipc_actor_register_handler_static_def then_do_Returns_iff Let_def split: if_splits)
    then have w1: "port_st s1 = port_st s \<and> app_st s1 = app_st s"
      using keeps_world_list [of s a] by (simp add: keeps_world_def)
    have "port_st s3 = port_st s1 \<and> app_st s3 = app_st s1"
      using s3(1) register_table_world [of a d "ipc_ensure_id d s1" rc s3] by (auto simp: frame_simps)
    moreover have "port_st t = port_st s3 \<and> app_st t = app_st s3"
      using s3(2) by (auto simp: add_handler_binding_def split: if_splits)
    ultimately show ?thesis using w1 by simp
  qed
  then show ?thesis by (simp add: keeps_world_def)
qed

lemma keeps_world_decl: "keeps_world s (run_decl x s)"
  by (cases x) (simp_all add: keeps_world_list keeps_world_handler keeps_world_field
      ipc_actor_register_start_hook_static_def ipc_actor_register_stop_hook_static_def
      ipc_actor_register_unknown_hook_static_def ipc_actor_register_supervision_static_def
      ipc_actor_register_failure_hook_static_def)

lemma run_decls_world:
  "run_decls xs s = Some (Returns t) \<Longrightarrow> port_st t = port_st s \<and> app_st t = app_st s"
proof (induction xs arbitrary: s)
  case (Cons x xs)
  then obtain u where "run_decl x s = Some (Returns u)" "run_decls xs u = Some (Returns t)"
    by (auto simp: then_do_Returns_iff)
  with Cons.IH [OF this(2)] keeps_world_decl [of s x] show ?case by (simp add: keeps_world_def)
qed simp

text \<open>Nor do the declarations change an actor's configuration or entry point.\<close>

lemma decl_fields_keep: "a_cfg (fold decl_field xs x) = a_cfg x \<and> a_handler (fold decl_field xs x) = a_handler x"
proof (induction xs arbitrary: x)
  case (Cons y ys)
  have "a_cfg (decl_field y x) = a_cfg x \<and> a_handler (decl_field y x) = a_handler x" by (cases y; simp)
  with Cons.IH [of "decl_field y x"] show ?case by simp
qed simp

lemma declared_actor_fields:
  assumes "declared_state c as ds xs t"
  shows "a_cfg (actors t a) = a_cfg (as a)" "a_handler (actors t a) = a_handler (as a)"
proof -
  have "(actors t a)\<lparr> a_next := None \<rparr>
      = (fold decl_field (filter (\<lambda>x. decl_actor x = a) xs) (as a))\<lparr> a_next := None \<rparr>"
    using assms by (simp add: declared_state_def)
  from arg_cong [OF this, of a_cfg] arg_cong [OF this, of a_handler]
  show "a_cfg (actors t a) = a_cfg (as a)" "a_handler (actors t a) = a_handler (as a)"
    by (simp_all add: decl_fields_keep)
qed

section \<open>The wiring the constructors set up\<close>

lemma found_binding:
  assumes "mset bs = mset cs" "distinct (map binding_key cs)" "b \<in> set cs"
  shows "find (\<lambda>x. b_actor x = b_actor b \<and> b_msg_id x = b_msg_id b) bs = Some b"
proof -
  have "distinct (map binding_key bs)" using assms(2) distinct_map_perm [OF assms(1)] by blast
  moreover have "b \<in> set bs" using assms(3) mset_eq_setD [OF assms(1)] by simp
  ultimately show ?thesis using find_distinct_iff [of binding_key bs "binding_key b" b] by simp
qed

lemma basic_bindings:
  "map (binding_of basic_descs) (handlers basic_decls) =
     [\<lparr> b_actor = pong_actor, b_msg_id = eventual_id (basic_descs BasicPing), b_handler = 70 \<rparr>,
      \<lparr> b_actor = ping_actor, b_msg_id = eventual_id (basic_descs BasicPong), b_handler = 71 \<rparr>,
      \<lparr> b_actor = pong_actor, b_msg_id = eventual_id (basic_descs BasicStatusRequest), b_handler = 72 \<rparr>,
      \<lparr> b_actor = pong_actor, b_msg_id = eventual_id (basic_descs BasicFault), b_handler = 73 \<rparr>]"
  by (simp add: basic_handlers binding_of_def)

lemma basic_declared_wired:
  assumes "mset ys = mset basic_decls" "basic_routes s"
    and "declared_state c (basic_actors usable prio) basic_descs ys s"
  shows "basic_wired (basic_actors usable prio) s"
proof -
  have descs: "eventual_id (descs s d) = eventual_id (basic_descs d)" "d_kind (descs s d) = d_kind (basic_descs d)"
    "d_name (descs s d) = d_name (basic_descs d)" "d_size (descs s d) = d_size (basic_descs d)" for d
    using assms(3) unfolding declared_state_def by blast+
  let ?bs = "map (binding_of basic_descs) (handlers basic_decls)"
  have "bindings s = map (binding_of basic_descs) (handlers ys)" using assms(3) by (simp add: declared_state_def)
  then have same: "mset (bindings s) = mset ?bs" using decls_ok_perm(2) [OF assms(1)] by simp
  have distinct: "distinct (map binding_key ?bs)" unfolding basic_bindings by (simp add: basic_ids)
  note found = found_binding [OF same distinct]
  have hs: "find (\<lambda>b. b_actor b = pong_actor \<and> b_msg_id b = eventual_id (basic_descs BasicPing)) (bindings s)
      = Some \<lparr> b_actor = pong_actor, b_msg_id = eventual_id (basic_descs BasicPing), b_handler = 70 \<rparr>"
    "find (\<lambda>b. b_actor b = ping_actor \<and> b_msg_id b = eventual_id (basic_descs BasicPong)) (bindings s)
      = Some \<lparr> b_actor = ping_actor, b_msg_id = eventual_id (basic_descs BasicPong), b_handler = 71 \<rparr>"
    using found [of "\<lparr> b_actor = pong_actor, b_msg_id = eventual_id (basic_descs BasicPing), b_handler = 70 \<rparr>"]
      found [of "\<lparr> b_actor = ping_actor, b_msg_id = eventual_id (basic_descs BasicPong), b_handler = 71 \<rparr>"]
    unfolding basic_bindings by simp_all
  have kinds: "d_size (basic_descs BasicPing) = 4" "d_size (basic_descs BasicPong) = 4"
    by (simp_all add: basic_descs_def IPC_CMD_DEFINE_def)
  have actor: "a_handler (basic_actors usable prio a) = Ipc_dispatch_actor_handlers"
    "4 \<le> max_payload_size (a_cfg (basic_actors usable prio a))" "0 < queue_depth (a_cfg (basic_actors usable prio a))" for a
    by (simp_all add: basic_actors_def ZEPHYR_ACTOR_DEFINE_def IPC_ACTOR_DEFINE_def)
  show ?thesis
    using assms(2) hs kinds actor unfolding basic_wired_def basic_routes_def
    by (simp add: descs basic_desc_fields declared_actor_fields [OF assms(3)])
qed

section \<open>Starting both actors\<close>

definition booted ::
    "('k \<Rightarrow> aptr \<Rightarrow> nat) \<Rightarrow> ('k \<Rightarrow> aptr \<Rightarrow> slot list) \<Rightarrow> zephyr_config \<Rightarrow> (nat \<Rightarrow> nat) \<Rightarrow> (aptr \<Rightarrow> ipc_actor)
     \<Rightarrow> aptr set \<Rightarrow> 'k zephyr \<Rightarrow> bool" where
  "booted cap Q z usable xs done p \<longleftrightarrow>
     (\<forall>a \<in> done. zephyr_ready cap Q p a (a_cfg (xs a)) \<and> zephyr_mail Q p a = [] \<and> delay_slot_ready a (a_cfg (xs a)) p)
     \<and> (\<forall>a. a \<notin> done \<longrightarrow> zport_of p a = basic_ports z usable a)"

text \<open>Initialising an actor touches its own port state and queue only.\<close>

lemma zephyr_actor_init_others:
  assumes "msgq_contract K cap Q" "zephyr_actor_init K z a x s = (t, rc)" "b \<noteq> a"
  shows "zport_of t b = zport_of s b" "zephyr_ready cap Q t b c = zephyr_ready cap Q s b c"
    "zephyr_mail Q t b = zephyr_mail Q s b"
proof -
  have "zport_of t b = zport_of s b \<and> cap (kern t) b = cap (kern s) b \<and> Q (kern t) b = Q (kern s) b"
    using assms(2,3)
    by (auto simp: zephyr_actor_init_def Let_def msgq_contractD [OF assms(1)] msgq_contract_keeps [OF assms(1)]
        split: if_splits)
  then show "zport_of t b = zport_of s b" "zephyr_ready cap Q t b c = zephyr_ready cap Q s b c"
    "zephyr_mail Q t b = zephyr_mail Q s b"
    by (simp_all add: zephyr_ready_def zephyr_mail_def)
qed

lemma zephyr_actor_init_slot:
  assumes "zephyr_actor_init K z a x s = (t, 0)" "CONFIG_ACTOR_SEND_AFTER z"
  shows "zport_of t a = (zport_of s a)\<lparr> z_owner := Some a \<rparr>"
  using assms by (auto simp: zephyr_actor_init_def Let_def split: if_splits)

lemma zephyr_actor_init_cfg:
  "a_cfg x = a_cfg y \<Longrightarrow> zephyr_actor_init K z a x s = zephyr_actor_init K z a y s"
  unfolding zephyr_actor_init_def by (simp only:)

lemma boot_actor:
  assumes C: "msgq_contract K cap Q" and after: "CONFIG_ACTOR_SEND_AFTER z"
    and stack: "0 < usable 1024" "0 < usable 2048"
    and boot: "booted cap Q z usable (basic_actors usable prio) done p" "a \<notin> done"
    and x: "a_cfg x = a_cfg (basic_actors usable prio a)"
  shows "\<exists>q. zephyr_actor_init K z a x p = (q, 0) \<and> booted cap Q z usable (basic_actors usable prio) (insert a done) q"
proof -
  let ?as = "basic_actors usable prio"
  obtain q rc where run: "zephyr_actor_init K z a (?as a) p = (q, rc)" by (rule prod.exhaust)
  have port: "zport_of p a = basic_ports z usable a" using boot by (simp add: booted_def)
  have up: "rc = 0 \<and> zephyr_ready cap Q q a (a_cfg (?as a)) \<and> zephyr_mail Q q a = []"
  proof (cases "a = ping_actor")
    case True
    then have "?as a = ZEPHYR_ACTOR_DEFINE usable ''ipc_ping'' 1024 (prio 7) 4 12"
      "zport_of p a = zephyr_actor_define_port z usable 1024 4 12"
      unfolding port unfolding basic_actors_def basic_ports_def by simp_all
    from zephyr_declared_actor_starts [OF C this stack(1) _ _ run] show ?thesis by simp
  next
    case False
    then have "?as a = ZEPHYR_ACTOR_DEFINE usable ''ipc_pong'' 2048 (prio 7) 4 4"
      "zport_of p a = zephyr_actor_define_port z usable 2048 4 4"
      by (simp_all add: port basic_actors_def basic_ports_def)
    from zephyr_declared_actor_starts [OF C this stack(2) _ _ run] show ?thesis by simp
  qed
  have run0: "zephyr_actor_init K z a (?as a) p = (q, 0)" using run up by simp
  have slot: "zport_of q a = (basic_ports z usable a)\<lparr> z_owner := Some a \<rparr>"
    using zephyr_actor_init_slot [OF run0 after] by (simp add: port)
  have "delay_slot_ready a (a_cfg (?as a)) q"
    by (simp add: delay_slot_ready_def slot basic_ports_def basic_actors_def zephyr_actor_define_port_def Let_def
        ZEPHYR_ACTOR_DEFINE_def IPC_ACTOR_DEFINE_def after)
  moreover have "zephyr_ready cap Q q b (a_cfg (?as b)) \<and> zephyr_mail Q q b = [] \<and> delay_slot_ready b (a_cfg (?as b)) q"
    if "b \<in> done" for b
  proof -
    have "b \<noteq> a" using that boot(2) by blast
    from zephyr_actor_init_others [OF C run this] show ?thesis
      using boot(1) that by (simp add: booted_def delay_slot_ready_def)
  qed
  moreover have "zport_of q b = basic_ports z usable b" if "b \<notin> insert a done" for b
    using zephyr_actor_init_others(1) [OF C run, of b] boot(1) that by (simp add: booted_def)
  ultimately have "booted cap Q z usable ?as (insert a done) q"
    using up unfolding booted_def by blast
  then show ?thesis using run0 unfolding zephyr_actor_init_cfg [OF x] by (intro exI [of _ q] conjI)
qed


text \<open>The start loop over actors that are not up yet, with start hooks that do nothing now.\<close>

lemma zephyr_start_step:
  assumes "zephyr_actor_init K z a (actors s a) (port_st s) = (q, 0)"
    and "\<And>f. U (Call_start_hook f a) (s\<lparr> port_st := q \<rparr>) = s\<lparr> port_st := q \<rparr>"
  shows "start_actors_from (zephyr_port K z xs) U l (Some a) s
    = start_actors_from (zephyr_port K z xs) U (Some a) (a_next (actors s a)) (s\<lparr> port_st := q \<rparr>)"
  using assms
  by (subst start_actors_from.simps)
     (simp add: ipc_port_actor_init_def ipc_port_start_def on_port_def zephyr_start_def call_hook_def split: option.split)

lemma boot_loop:
  assumes C: "msgq_contract K cap Q" and after: "CONFIG_ACTOR_SEND_AFTER z"
    and stack: "0 < usable 1024" "0 < usable 2048"
    and cfg: "\<And>a. a_cfg (actors s a) = a_cfg (basic_actors usable prio a)"
    and hook: "\<And>f a q. U (Call_start_hook f a) (s\<lparr> port_st := q \<rparr>) = s\<lparr> port_st := q \<rparr>"
    and "booted cap Q z usable (basic_actors usable prio) done q" "list_seg (next_of s) p as" "distinct as"
    and "done \<inter> set as = {}"
  shows "\<exists>r. start_actors_from (zephyr_port K z xs) U l p (s\<lparr> port_st := q \<rparr>) = Some (0, s\<lparr> port_st := r \<rparr>)
    \<and> booted cap Q z usable (basic_actors usable prio) (done \<union> set as) r"
  using assms(7-)
proof (induction as arbitrary: "done" q p l)
  case Nil
  then have "start_actors_from (zephyr_port K z xs) U l p (s\<lparr> port_st := q \<rparr>) = Some (0, s\<lparr> port_st := q \<rparr>)"
    by (subst start_actors_from.simps) simp
  with Nil(1) show ?case by (intro exI [of _ q]) simp
next
  case (Cons a as)
  have "a \<notin> done" using Cons.prems(4) by simp
  obtain r where r: "zephyr_actor_init K z a (actors s a) q = (r, 0)"
    "booted cap Q z usable (basic_actors usable prio) (insert a done) r"
    using boot_actor [OF C after stack Cons.prems(1) \<open>a \<notin> done\<close> cfg] by blast
  have p: "p = Some a" "list_seg (next_of s) (a_next (actors s a)) as" using Cons.prems(2) by simp_all
  have "zephyr_actor_init K z a (actors (s\<lparr> port_st := q \<rparr>) a) (port_st (s\<lparr> port_st := q \<rparr>)) = (r, 0)"
    using r(1) by simp
  from zephyr_start_step [OF this, of U]
  have step: "start_actors_from (zephyr_port K z xs) U l p (s\<lparr> port_st := q \<rparr>)
      = start_actors_from (zephyr_port K z xs) U (Some a) (a_next (actors s a)) (s\<lparr> port_st := r \<rparr>)"
    using hook by (simp add: p(1))
  have "distinct as" "insert a done \<inter> set as = {}" using Cons.prems(3,4) by auto
  from Cons.IH [OF r(2) p(2) this] show ?case unfolding step by simp
qed

lemma basic_boot:
  assumes C: "msgq_contract K cap Q" and after: "CONFIG_ACTOR_SEND_AFTER z"
    and stack: "0 < usable 1024" "0 < usable 2048"
    and ys: "mset ys = mset basic_decls" and decl: "declared_state c (basic_actors usable prio) basic_descs ys s"
    and port: "port_st s = zephyr_initial z (basic_ports z usable) k"
    and quiet: "\<not> pong_restart_pending (app_st s)"
  shows "\<exists>r. ipc_start_all_actors (zephyr_port K z xs) (basic_user report P) s
      = Some (0, s\<lparr> lifecycle_state := IPC_LIFECYCLE_RUNNING, port_st := r \<rparr>)
    \<and> booted cap Q z usable (basic_actors usable prio) {ping_actor, pong_actor} r"
proof -
  let ?s = "s\<lparr> lifecycle_state := IPC_LIFECYCLE_RUNNING \<rparr>" and ?as = "fold append_new (map decl_actor ys) []"
  have "actor_list s ?as" and life: "lifecycle_state s = IPC_LIFECYCLE_STOPPED"
    using decl by (simp_all add: declared_state_def registration_inv_def)
  then have as: "list_seg (next_of ?s) (ipc_actor_list s) ?as" "distinct ?as" by (simp_all add: actor_list_def)
  have "set (fold append_new zs bs) = set bs \<union> set zs" for zs bs :: "aptr list"
    by (induction zs arbitrary: bs) (auto simp: append_new_def)
  then have "set ?as = decl_actor ` set basic_decls" using mset_eq_setD [OF ys] by simp
  then have set: "set ?as = {ping_actor, pong_actor}" by (auto simp: basic_decls_def)
  have cfg: "a_cfg (actors ?s a) = a_cfg (basic_actors usable prio a)" for a
    by (simp add: declared_actor_fields [OF decl])
  have hook: "basic_user report P (Call_start_hook f a) (?s\<lparr> port_st := q \<rparr>) = ?s\<lparr> port_st := q \<rparr>" for f a q
    using quiet by (simp add: pong_on_start_def)
  have "booted cap Q z usable (basic_actors usable prio) {} (port_st s)"
    by (simp add: booted_def port zephyr_initial_def)
  from boot_loop [where s = ?s and U = "basic_user report P", OF C after stack cfg hook this as, of xs None]
  have "\<exists>r. start_actors_from (zephyr_port K z xs) (basic_user report P) None (ipc_actor_list s) ?s
      = Some (0, ?s\<lparr> port_st := r \<rparr>) \<and> booted cap Q z usable (basic_actors usable prio) {ping_actor, pong_actor} r"
    unfolding set by simp
  then show ?thesis by (simp add: ipc_start_all_actors_def life)
qed


section \<open>From power-on to the last pong\<close>

text \<open>
  C36: The exchange of the Zephyr example, from power-on. Over any kernel whose message queues keep their
  contract and whose work handler is idle when it is cancelled, and whatever order the constructors run in:
  the program comes up, \<^verbatim>\<open>basic_actor_init\<close> starts both actors and sends the first ping, and after five
  rounds (a turn of the pong thread, a turn of the ping thread, the delayed ping) both threads have ended
  their turns, five pings and five pongs have been counted, and both mailboxes are empty.
\<close>

theorem basic_ping_pong:
  fixes K :: "'k kernel" and report :: "int + BasicStatusResponse_payload_t \<Rightarrow> 'k zephyr basic_sys \<Rightarrow> 'k zephyr basic_sys"
  assumes "msgq_contract K cap Q" "never_busy K" "CONFIG_ACTOR_SEND_AFTER z"
    and "0 < usable 1024" "0 < usable 2048" "mset ys = mset basic_decls"
    and "as = basic_actors usable prio" "P = zephyr_port K z as" "U = basic_user report P"
    and "s0 = ipc_initial ipc_default_config as basic_descs (zephyr_initial z (basic_ports z usable) k)
          basic_vars_initial"
  shows "\<exists>s t v. run_decls ys s0 = Some (Returns s) \<and> basic_actor_init P U s = Some (0, t)
    \<and> ping_pong_rounds K as U 4 t = Some v
    \<and> basic_ping_count (app_st v) = 5 \<and> basic_pong_count (app_st v) = 5
    \<and> zephyr_mail Q (port_st v) ping_actor = [] \<and> zephyr_mail Q (port_st v) pong_actor = []"
proof -
  obtain s where s: "run_decls ys s0 = Some (Returns s)"
    "declared_state ipc_default_config as basic_descs ys s" "basic_routes s"
    using basic_program_up [OF assms(6), of as "zephyr_initial z (basic_ports z usable) k" basic_vars_initial] unfolding assms(10) by (elim exE conjE)
  have world: "port_st s = zephyr_initial z (basic_ports z usable) k" "app_st s = basic_vars_initial"
    using run_decls_world [OF s(1)] by (simp_all add: assms(10) ipc_initial_def)
  note decl = s(2) [unfolded assms(7)]
  have wired: "basic_wired as s" unfolding assms(7) by (rule basic_declared_wired [OF assms(6) s(3) decl])
  have "\<not> pong_restart_pending (app_st s)" by (simp add: world(2) basic_vars_initial_def)
  from basic_boot [OF assms(1,3-6) decl world(1) this, of as report P]
  obtain r where r: "ipc_start_all_actors P U s = Some (0, s\<lparr> lifecycle_state := IPC_LIFECYCLE_RUNNING, port_st := r \<rparr>)"
    "booted cap Q z usable as {ping_actor, pong_actor} r"
    unfolding assms(8,9) assms(7) by (elim exE conjE)
  let ?s = "s\<lparr> lifecycle_state := IPC_LIFECYCLE_RUNNING, port_st := r \<rparr>"
  have cfg: "a_cfg (actors s a) = a_cfg (as a)" for a by (rule declared_actor_fields [OF s(2)])
  have live: "basic_live cap Q as ?s"
    using wired r(2) by (simp add: basic_live_def booted_def cfg basic_wired_def find_registered_def)
  have mails: "zephyr_mail Q (port_st ?s) pong_actor = []" "zephyr_mail Q (port_st ?s) ping_actor = []"
    using r(2) by (simp_all add: booted_def)
  define t where "t = snd (ipc_send_raw P (Some BasicPing) (Some (bytes_of_u32 1)) ?s)"
  have t: "fst (ipc_send_raw P (Some BasicPing) (Some (bytes_of_u32 1)) ?s) = 0"
    "basic_live cap Q as t" "core_frame ?s t" "app_st t = app_st ?s"
    "zephyr_mail Q (port_st t) = (zephyr_mail Q (port_st ?s))(pong_actor := [counted ?s BasicPing 1])"
    using live_send [OF assms(1) live, of BasicPing pong_actor t z 1] mails(1) by (simp_all add: t_def assms(8))
  have init: "basic_actor_init P U s = Some (0, t)"
    using r(1) t(1) by (simp add: basic_actor_init_def case_prod_beta t_def)
  have mail: "zephyr_mail Q (port_st t) pong_actor = [counted t BasicPing 1]" "zephyr_mail Q (port_st t) ping_actor = []"
    using t(5) mails(2) counted_frame [OF t(3), of BasicPing 1] by simp_all
  have "unat (1 :: u32) + 4 = 5" by simp
  from ping_pong_rounds_result [OF assms(1-3) t(2) this mail, of report]
  obtain v where "ping_pong_rounds K as U 4 t = Some v"
    "basic_ping_count (app_st v) = basic_ping_count (app_st t) + of_nat (Suc 4)"
    "basic_pong_count (app_st v) = basic_pong_count (app_st t) + of_nat (Suc 4)"
    "zephyr_mail Q (port_st v) pong_actor = []" "zephyr_mail Q (port_st v) ping_actor = []"
    unfolding assms(8,9) by (elim exE conjE)
  then show ?thesis
    using s(1) init by (intro exI conjI) (simp_all add: t(4) world(2) basic_vars_initial_def)
qed

lemma queue_kernel_never_busy: "never_busy queue_kernel"
  by (simp add: never_busy_def queue_kernel_def)

theorem basic_ping_pong_witness:
  "\<exists>s t v. run_decls (rev basic_decls) ex_basic_initial = Some (Returns s)
    \<and> basic_actor_init ex_basic_port (basic_user (\<lambda>r t. t) ex_basic_port) s = Some (0, t)
    \<and> ping_pong_rounds queue_kernel ex_basic_actors (basic_user (\<lambda>r t. t) ex_basic_port) 4 t = Some v
    \<and> basic_ping_count (app_st v) = 5 \<and> basic_pong_count (app_st v) = 5"
proof -
  have "CONFIG_ACTOR_SEND_AFTER ex_zephyr_config" "mset (rev basic_decls) = mset basic_decls"
    "0 < (\<lambda>n :: nat. n) 1024" "0 < (\<lambda>n :: nat. n) 2048"
    by (simp_all add: ex_zephyr_config_def)
  from basic_ping_pong [OF queue_kernel_contract queue_kernel_never_busy this(1,3,4,2) ex_basic_actors_def
      ex_basic_port_def refl ex_basic_initial_def, of "\<lambda>r t. t"]
  show ?thesis by blast
qed

end
