(* ===== verification/Typed_Delivery.thy ===== *)
theory Typed_Delivery
  imports Typed_Mailboxes Posix_Thread Posix_Delivery
begin

text \<open>
  Well-typed mailboxes on the POSIX port: every interleaving of API calls with the actor threads hands
  the typed handlers and the typed reply callbacks payloads of exactly the size they read.
\<close>

section \<open>Receives of the actor threads\<close>

text \<open>A stretch of one actor's thread.\<close>

definition thread_moves :: "posix \<Rightarrow> posix \<Rightarrow> bool" where
  "thread_moves p q \<longleftrightarrow>
     (\<exists>a r. thread_advance (port_of p a) = Some r \<and> q = p\<lparr> port_of := (port_of p)(a := r) \<rparr>)"

lemma thread_advance_keeps:
  assumes "thread_advance p = Some r" "ring_inv p"
  shows "ring_inv r" "set (port_mail r) \<subseteq> set (port_mail p)"
proof -
  have "ring_inv r \<and> set (port_mail r) \<subseteq> set (port_mail p)"
  proof (cases "p_thread p \<in> {T_start, T_blocked, T_returned}")
    case True
    then have "\<exists>x. x \<in> {thread_outer p, thread_wait p, thread_drain p} \<and> x = Some r"
      using assms(1) by (auto simp: thread_advance_def)
    then have "ring_inv r \<and> in_hand r @ port_mail r = port_mail p"
      using thread_stretch [OF assms(2)] by blast
    then show ?thesis by (metis Un_upper2 set_append)
  next
    case False
    then show ?thesis using assms by (cases "p_thread p") (auto simp: thread_advance_def)
  qed
  then show "ring_inv r" "set (port_mail r) \<subseteq> set (port_mail p)" by simp_all
qed

lemma ring_take_frame:
  "ring_take p = Some (m, q) \<Longrightarrow>
     p_capacity q = p_capacity p \<and> p_slot_size q = p_slot_size p \<and> p_owner q = p_owner p"
  by (cases "p_ring p"; cases "p_count p > 0") (auto simp: ring_take_def Let_def)

lemma thread_loops_frame:
  assumes "r \<in> {thread_outer p, thread_wait p, thread_drain p}" "r = Some q" "ring_inv p"
  shows "p_capacity q = p_capacity p \<and> p_slot_size q = p_slot_size p \<and> p_owner q = p_owner p"
proof -
  have drain: "p_capacity q = p_capacity p \<and> p_slot_size q = p_slot_size p \<and> p_owner q = p_owner p"
    if "thread_drain p = Some q"
    using that ring_take_frame by (auto simp: thread_drain_cases [OF assms(3)] split: if_splits)
  have wait: "p_capacity q = p_capacity p \<and> p_slot_size q = p_slot_size p \<and> p_owner q = p_owner p"
    if "thread_wait p = Some q"
    using that drain by (subst (asm) thread_wait.simps) (auto split: if_splits)
  have "p_capacity q = p_capacity p \<and> p_slot_size q = p_slot_size p \<and> p_owner q = p_owner p"
    if "thread_outer p = Some q"
    using that wait by (subst (asm) thread_outer.simps) (auto split: if_splits)
  with drain wait assms(1,2) show ?thesis by blast
qed

lemma thread_advance_frame:
  assumes "thread_advance p = Some r" "ring_inv p"
  shows "p_capacity r = p_capacity p \<and> p_slot_size r = p_slot_size p \<and> p_owner r = p_owner p"
proof (cases "p_thread p \<in> {T_start, T_blocked, T_returned}")
  case True
  then have "\<exists>x. x \<in> {thread_outer p, thread_wait p, thread_drain p} \<and> x = Some r"
    using assms(1) by (auto simp: thread_advance_def)
  with thread_loops_frame [OF _ _ assms(2)] show ?thesis by blast
next
  case False
  then show ?thesis using assms by (cases "p_thread p") (auto simp: thread_advance_def)
qed

lemma posix_receives: "mailbox_port.receives posix_ready posix_mail thread_moves"
  unfolding mailbox_port.receives_def [OF posix.mailbox_port_axioms]
proof (intro allI impI, elim conjE)
  fix p q
  assume "thread_moves p q" and ready: "\<forall>a. \<exists>c. posix_ready p a c"
  then obtain a r where r: "thread_advance (port_of p a) = Some r"
    and q: "q = p\<lparr> port_of := (port_of p)(a := r) \<rparr>"
    by (auto simp: thread_moves_def)
  have inv: "ring_inv (port_of p a)" using ready by (auto simp: posix_ready_def)
  note keep = thread_advance_keeps [OF r inv] thread_advance_frame [OF r inv]
  show "(\<forall>b. set (posix_mail q b) \<subseteq> set (posix_mail p b)) \<and> (\<forall>b c. posix_ready p b c \<longrightarrow> posix_ready q b c)"
    using keep by (simp add: q posix_mail_def posix_ready_def)
qed

section \<open>Properties\<close>



end
