(* ===== verification/Led_Example.thy ===== *)
theory Led_Example
  imports Payload_Structs Ipc_Lifecycle
begin

text \<open>
  The example program \<^verbatim>\<open>examples/led_actor\<close>: three actors written against the public macros. Its static
  variables are the application state, every handler and hook is a function on the whole state, and
  \<open>led_user\<close> is the application code the framework calls, by function pointer. \<^verbatim>\<open>printf\<close> is left out.

  The types in a header included by several files have one descriptor per file with the same fields,
  hence the same ID; here they have one.
\<close>

section \<open>Declarations\<close>

abbreviation (input) led_actor :: aptr where "led_actor \<equiv> 1"
abbreviation (input) app_actor :: aptr where "app_actor \<equiv> 2"
abbreviation (input) button_actor :: aptr where "button_actor \<equiv> 3"

abbreviation (input) LedOn :: dptr where "LedOn \<equiv> 10"
abbreviation (input) LedOff :: dptr where "LedOff \<equiv> 11"
abbreviation (input) LedBlink :: dptr where "LedBlink \<equiv> 12"
abbreviation (input) GetLedStateRequest :: dptr where "GetLedStateRequest \<equiv> 13"
abbreviation (input) GetLedStateResponse :: dptr where "GetLedStateResponse \<equiv> 14"
abbreviation (input) LedFault :: dptr where "LedFault \<equiv> 15"
abbreviation (input) ButtonClick :: dptr where "ButtonClick \<equiv> 16"
abbreviation (input) ButtonDoubleClick :: dptr where "ButtonDoubleClick \<equiv> 17"
abbreviation (input) ButtonHold :: dptr where "ButtonHold \<equiv> 18"
abbreviation (input) ButtonTick :: dptr where "ButtonTick \<equiv> 19"

definition led_descs :: "dptr \<Rightarrow> ipc_msg_desc_t" where
  "led_descs d =
     (if d = LedOn then IPC_CMD_DEFINE ''LedOn'' 1
      else if d = LedOff then IPC_CMD_DEFINE ''LedOff'' 1
      else if d = LedBlink then IPC_CMD_DEFINE ''LedBlink'' 8
      else if d = GetLedStateRequest then IPC_CMD_DEFINE ''GetLedStateRequest'' 1
      else if d = GetLedStateResponse then IPC_CMD_DEFINE ''GetLedStateResponse'' 8
      else if d = LedFault then IPC_EVENT_DEFINE ''LedFault'' 8
      else if d = ButtonClick then IPC_EVENT_DEFINE ''ButtonClick'' 1
      else if d = ButtonDoubleClick then IPC_EVENT_DEFINE ''ButtonDoubleClick'' 1
      else if d = ButtonHold then IPC_EVENT_DEFINE ''ButtonHold'' 8
      else IPC_CMD_DEFINE ''ButtonTick'' 4)"

definition led_actors :: "aptr \<Rightarrow> ipc_actor" where
  "led_actors a =
     (if a = led_actor then IPC_ACTOR_DEFINE ''led'' 512 5 8 (IPC_MESSAGE_MAX [1, 1, 8, 1, 8, 8])
      else if a = app_actor then IPC_ACTOR_DEFINE ''app'' 1024 4 32 (IPC_MESSAGE_MAX [8, 8, 1, 1, 8])
      else IPC_ACTOR_DEFINE ''button'' 1024 5 16 (IPC_MESSAGE_MAX [4, 8]))"

section \<open>Static variables\<close>

record led_vars =
  g_blink_remaining :: int
  g_blink_period :: u32
  g_blink_brightness :: u8
  g_disabled :: bool
  g_restart_pending :: bool
  g_restart_count :: u32

datatype btn_state_t = BTN_IDLE | BTN_FIRST_DOWN | BTN_HELD

record button_vars =
  g_state :: btn_state_t
  g_ticks :: u32
  g_btn_id :: u8
  g_presses :: u32
  g_hold_ticks :: u32
  g_fault_fired :: bool

text \<open>\<open>bad_read\<close> is set when an adapter's cast would read past the bytes of its message.\<close>

record led_program =
  led :: led_vars
  btn :: button_vars
  bad_read :: bool

definition led_program_initial :: led_program where
  "led_program_initial =
     \<lparr> led = \<lparr> g_blink_remaining = 0, g_blink_period = 0, g_blink_brightness = 0, g_disabled = False,
               g_restart_pending = False, g_restart_count = 0 \<rparr>,
       btn = \<lparr> g_state = BTN_IDLE, g_ticks = 0, g_btn_id = 0, g_presses = 0, g_hold_ticks = 0,
               g_fault_fired = False \<rparr>,
       bad_read = False \<rparr>"

type_synonym 'p led_sys = "('p, led_program) sys"

abbreviation set_led :: "led_vars \<Rightarrow> 'p led_sys \<Rightarrow> 'p led_sys" where
  "set_led v s \<equiv> s\<lparr> app_st := (app_st s)\<lparr> led := v \<rparr> \<rparr>"

abbreviation set_btn :: "button_vars \<Rightarrow> 'p led_sys \<Rightarrow> 'p led_sys" where
  "set_btn v s \<equiv> s\<lparr> app_st := (app_st s)\<lparr> btn := v \<rparr> \<rparr>"

section \<open>The LED actor\<close>

definition led_on_start :: "aptr \<Rightarrow> 'p led_sys \<Rightarrow> 'p led_sys" where
  "led_on_start self s =
     (let v = (led (app_st s))\<lparr> g_disabled := False, g_blink_remaining := 0 \<rparr>
      in set_led (if g_restart_pending v then v\<lparr> g_restart_pending := False \<rparr> else v) s)"

definition led_on_stop :: "aptr \<Rightarrow> 'p led_sys \<Rightarrow> 'p led_sys" where
  "led_on_stop self s = s"

definition led_on_failure :: "aptr \<Rightarrow> int \<Rightarrow> 'p led_sys \<Rightarrow> 'p led_sys" where
  "led_on_failure self reason s =
     (let v = led (app_st s)
      in set_led (v\<lparr> g_restart_count := g_restart_count v + 1, g_restart_pending := True \<rparr>) s)"

definition led_on_handler :: "aptr \<Rightarrow> u8 list \<Rightarrow> ipc_msg \<Rightarrow> 'p led_sys \<Rightarrow> 'p led_sys" where
  "led_on_handler self msg raw_msg s =
     (if g_disabled (led (app_st s)) then s
      else set_led ((led (app_st s))\<lparr> g_blink_remaining := 0 \<rparr>) s)"

definition led_off_handler :: "aptr \<Rightarrow> u8 list \<Rightarrow> ipc_msg \<Rightarrow> 'p led_sys \<Rightarrow> 'p led_sys" where
  "led_off_handler self msg raw_msg s = set_led ((led (app_st s))\<lparr> g_blink_remaining := 0 \<rparr>) s"

definition led_blink_handler ::
    "'p port_ops \<Rightarrow> aptr \<Rightarrow> u8 list \<Rightarrow> ipc_msg \<Rightarrow> 'p led_sys \<Rightarrow> 'p led_sys" where
  "led_blink_handler P self msg raw_msg s =
     (let v = led (app_st s); m = LedBlink_at msg
      in if g_disabled v then s
         else
           (let v1 = (if g_blink_remaining v = 0
                      then v\<lparr> g_blink_period := lb_period_ms m, g_blink_brightness := lb_brightness m,
                              g_blink_remaining := 5 \<rparr>
                      else v)
            in if g_blink_remaining v1 > 0
               then snd (ipc_send_after_raw P (Some LedBlink) (g_blink_period v1)
                      (Some (LedBlink_bytes \<lparr> lb_period_ms = g_blink_period v1,
                                              lb_brightness = g_blink_brightness v1 \<rparr>))
                      (set_led (v1\<lparr> g_blink_remaining := g_blink_remaining v1 - 1 \<rparr>) s))
               else set_led v1 s))"

definition get_led_state_handler ::
    "'p port_ops \<Rightarrow> aptr \<Rightarrow> u8 list \<Rightarrow> ipc_msg \<Rightarrow> 'p led_sys \<Rightarrow> 'p led_sys" where
  "get_led_state_handler P self msg raw_msg s =
     (if msg ! 0 > 1 then snd (ipc_reply_error_raw P (Some raw_msg) (- ENODEV) s)
      else snd (ipc_reply_raw P (Some raw_msg) (Some GetLedStateResponse)
             (Some (GetLedStateResponse_bytes
                \<lparr> gr_channel = msg ! 0, gr_on = (if g_disabled (led (app_st s)) then 0 else 1),
                  gr_brightness = 80, gr_on_time_ms = 12345 \<rparr>)) s))"

text \<open>The hooks, by function pointer; the unknown hooks of all three actors only print.\<close>

abbreviation (input) fn_led_on_start :: fnptr where "fn_led_on_start \<equiv> 30"
abbreviation (input) fn_led_on_stop :: fnptr where "fn_led_on_stop \<equiv> 31"
abbreviation (input) fn_led_on_failure :: fnptr where "fn_led_on_failure \<equiv> 32"

fun led_hooks :: "user_call \<Rightarrow> 'p led_sys \<Rightarrow> 'p led_sys" where
  "led_hooks (Call_start_hook f self) s = (if f = fn_led_on_start then led_on_start self s else s)"
| "led_hooks (Call_stop_hook f self) s = (if f = fn_led_on_stop then led_on_stop self s else s)"
| "led_hooks (Call_failure_hook f self reason) s =
     (if f = fn_led_on_failure then led_on_failure self reason s else s)"
| "led_hooks _ s = s"

definition led_fault_handler ::
    "'p port_ops \<Rightarrow> aptr \<Rightarrow> u8 list \<Rightarrow> ipc_msg \<Rightarrow> 'p led_sys \<Rightarrow> 'p led_sys" where
  "led_fault_handler P self msg raw_msg s = snd (ipc_actor_fail P led_hooks (Some self) (- EIO) s)"

section \<open>The app actor\<close>

definition app_fault_handler :: "aptr \<Rightarrow> u8 list \<Rightarrow> ipc_msg \<Rightarrow> 'p led_sys \<Rightarrow> 'p led_sys" where
  "app_fault_handler self msg raw_msg s = s"

text \<open>\<open>report\<close> is what the callback prints: the error, or the fields of the response.\<close>

definition on_led_state ::
    "(int + GetLedStateResponse_payload_t \<Rightarrow> 'p led_sys \<Rightarrow> 'p led_sys)
     \<Rightarrow> aptr \<Rightarrow> int \<Rightarrow> u8 list option \<Rightarrow> ipc_msg \<Rightarrow> 'p led_sys \<Rightarrow> 'p led_sys" where
  "on_led_state report self result msg raw_msg s =
     (if result \<noteq> 0 then report (Inl result) s
      else report (Inr (GetLedStateResponse_at (the msg))) s)"

definition on_click :: "'p port_ops \<Rightarrow> aptr \<Rightarrow> u8 list \<Rightarrow> ipc_msg \<Rightarrow> 'p led_sys \<Rightarrow> 'p led_sys" where
  "on_click P self msg raw_msg s = snd (ipc_send_raw P (Some LedOn) (Some [50 + msg ! 0 * 20]) s)"

definition on_double_click :: "'p port_ops \<Rightarrow> aptr \<Rightarrow> u8 list \<Rightarrow> ipc_msg \<Rightarrow> 'p led_sys \<Rightarrow> 'p led_sys" where
  "on_double_click P self msg raw_msg s =
     snd (ipc_send_raw P (Some LedBlink)
        (Some (LedBlink_bytes \<lparr> lb_period_ms = 150, lb_brightness = 200 \<rparr>)) s)"

definition on_hold :: "'p port_ops \<Rightarrow> aptr \<Rightarrow> u8 list \<Rightarrow> ipc_msg \<Rightarrow> 'p led_sys \<Rightarrow> 'p led_sys" where
  "on_hold P self msg raw_msg s = snd (ipc_send_raw P (Some LedOff) (Some [0]) s)"

abbreviation (input) fn_on_led_state :: fnptr where "fn_on_led_state \<equiv> 50"

text \<open>The scenario \<^verbatim>\<open>main\<close> runs: two asks and a fault.\<close>

definition app_run :: "'p port_ops \<Rightarrow> 'p led_sys \<Rightarrow> 'p led_sys" where
  "app_run P s =
     (case ipc_ask_with_id_raw P (Some app_actor) (Some GetLedStateRequest) (Some [0])
             (Some GetLedStateResponse) (Some fn_on_led_state) 1000 s of
        (_, _, s1) \<Rightarrow>
          (case ipc_ask_raw P (Some app_actor) (Some GetLedStateRequest) (Some [2])
                  (Some GetLedStateResponse) (Some fn_on_led_state) 1000 s1 of
             (_, s2) \<Rightarrow>
               snd (ipc_publish_raw P (Some LedFault)
                 (Some (LedFault_bytes \<lparr> lf_error_code = 0xDEAD, lf_channel = 1 \<rparr>)) s2)))"

section \<open>The button actor\<close>

definition on_tick :: "'p port_ops \<Rightarrow> aptr \<Rightarrow> 'p led_sys \<Rightarrow> 'p led_sys" where
  "on_tick P self s0 =
     (let v0 = btn (app_st s0); v = v0\<lparr> g_ticks := g_ticks v0 + 250 \<rparr>;
          s = snd (ipc_send_after_raw P (Some ButtonTick) 250 (Some (bytes_of_u32 (g_ticks v)))
                (set_btn v s0))
      in case g_state v of
           BTN_IDLE \<Rightarrow>
             set_btn (v\<lparr> g_state := BTN_FIRST_DOWN, g_ticks := 0, g_btn_id := ucast (g_presses v mod 3),
                         g_presses := g_presses v + 1 \<rparr>) s
         | BTN_FIRST_DOWN \<Rightarrow>
             if g_btn_id v = 0 \<and> g_ticks v \<ge> 250 then
               snd (ipc_publish_raw P (Some ButtonClick) (Some [g_btn_id v])
                 (set_btn (v\<lparr> g_state := BTN_IDLE \<rparr>) s))
             else if g_btn_id v = 1 \<and> g_ticks v \<ge> 250 then
               snd (ipc_publish_raw P (Some ButtonDoubleClick) (Some [g_btn_id v])
                 (set_btn (v\<lparr> g_state := BTN_IDLE \<rparr>) s))
             else if g_btn_id v = 2 \<and> g_ticks v \<ge> 500 then
               set_btn (v\<lparr> g_state := BTN_HELD, g_ticks := 0 \<rparr>) s
             else s
         | BTN_HELD \<Rightarrow>
             (let (v1, s1) = (if g_ticks v \<ge> 1000
                    then (v\<lparr> g_ticks := 0 \<rparr>,
                          set_btn (v\<lparr> g_ticks := 0 \<rparr>) (snd (ipc_publish_raw P (Some ButtonHold)
                            (Some (ButtonHold_bytes \<lparr> bh_button_id = g_btn_id v, bh_hold_ms = g_ticks v \<rparr>)) s)))
                    else (v, s));
                  (v2, s2) = (if g_ticks v1 = 0 \<and> g_hold_ticks v1 \<ge> 4 \<and> \<not> g_fault_fired v1
                    then (v1\<lparr> g_fault_fired := True \<rparr>,
                          set_btn (v1\<lparr> g_fault_fired := True \<rparr>) (snd (ipc_publish_raw P (Some LedFault)
                            (Some (LedFault_bytes \<lparr> lf_error_code = 0xBADC0DE, lf_channel = g_btn_id v1 \<rparr>)) s1)))
                    else (v1, s1))
              in if g_ticks v2 = 0
                 then set_btn
                   (if g_hold_ticks v2 \<ge> 5
                    then v2\<lparr> g_hold_ticks := 0, g_fault_fired := False, g_state := BTN_IDLE,
                             g_presses := (g_presses v2 + 1) mod 3 \<rparr>
                    else v2\<lparr> g_hold_ticks := g_hold_ticks v2 + 1 \<rparr>) s2
                 else s2))"

definition on_tick_msg :: "'p port_ops \<Rightarrow> aptr \<Rightarrow> u8 list \<Rightarrow> ipc_msg \<Rightarrow> 'p led_sys \<Rightarrow> 'p led_sys" where
  "on_tick_msg P self msg raw_msg s = on_tick P self s"

definition on_fault :: "aptr \<Rightarrow> u8 list \<Rightarrow> ipc_msg \<Rightarrow> 'p led_sys \<Rightarrow> 'p led_sys" where
  "on_fault self msg raw_msg s =
     set_btn ((btn (app_st s))\<lparr> g_state := BTN_IDLE, g_ticks := 0, g_hold_ticks := 0,
                                g_fault_fired := False \<rparr>) s"

definition button_actor_kick :: "'p port_ops \<Rightarrow> 'p led_sys \<Rightarrow> 'p led_sys" where
  "button_actor_kick P s =
     snd (ipc_send_after_raw P (Some ButtonTick) 1000 (Some (bytes_of_u32 1)) s)"

section \<open>The application code\<close>

text \<open>The typed handlers by function pointer, each with the size of its payload struct.\<close>

definition led_handler ::
    "'p port_ops \<Rightarrow> fnptr \<Rightarrow> (nat \<times> (aptr \<Rightarrow> u8 list \<Rightarrow> ipc_msg \<Rightarrow> 'p led_sys \<Rightarrow> 'p led_sys)) option" where
  "led_handler P f =
     (if f = 40 then Some (1, led_on_handler) else if f = 41 then Some (1, led_off_handler)
      else if f = 42 then Some (8, led_blink_handler P) else if f = 43 then Some (1, get_led_state_handler P)
      else if f = 44 then Some (8, led_fault_handler P) else if f = 45 then Some (8, app_fault_handler)
      else if f = 46 then Some (1, on_click P) else if f = 47 then Some (1, on_double_click P)
      else if f = 48 then Some (8, on_hold P) else if f = 49 then Some (4, on_tick_msg P)
      else if f = 51 then Some (8, on_fault) else None)"

fun led_user ::
    "(int + GetLedStateResponse_payload_t \<Rightarrow> 'p led_sys \<Rightarrow> 'p led_sys) \<Rightarrow> 'p port_ops
     \<Rightarrow> user_call \<Rightarrow> 'p led_sys \<Rightarrow> 'p led_sys" where
  "led_user report P (Call_handler f self m) s =
     (case led_handler P f of
        None \<Rightarrow> s
      | Some (n, h) \<Rightarrow>
          (case handle_adapter n h self (m_payload m) m s of
             None \<Rightarrow> s\<lparr> app_st := (app_st s)\<lparr> bad_read := True \<rparr> \<rparr>
           | Some t \<Rightarrow> t))"
| "led_user report P (Call_callback f self result payload sz m) s =
     (if f = fn_on_led_state
      then (case response_handle_adapter (build_ndebug (conf s)) GetLedStateResponse GetLedStateResponse 8
                   (on_led_state report) self result payload sz m s of
              Aborts \<Rightarrow> s\<lparr> app_st := (app_st s)\<lparr> bad_read := True \<rparr> \<rparr>
            | Returns t \<Rightarrow> t)
      else s)"
| "led_user report P c s = led_hooks c s"

end
