(* ===== verification/Led_Button.thy ===== *)
theory Led_Button
  imports Led_Example App_Frame
begin

text \<open>
  The button of the example program as a state machine: an abstract machine over the button's variables
  that emits events, the refinement of the tick handler by it, and its behaviour over a whole cycle.
\<close>

section \<open>The abstract machine\<close>

datatype btn_event = Click u8 | Double_click u8 | Hold u8 u32 | Stuck u8

definition hold_step :: "button_vars \<Rightarrow> button_vars \<times> btn_event list" where
  "hold_step v =
     (if 1000 \<le> g_ticks v then (v\<lparr> g_ticks := 0 \<rparr>, [Hold (g_btn_id v) (g_ticks v)]) else (v, []))"

definition stuck_step :: "button_vars \<Rightarrow> button_vars \<times> btn_event list" where
  "stuck_step v =
     (if g_ticks v = 0 \<and> 4 \<le> g_hold_ticks v \<and> \<not> g_fault_fired v
      then (v\<lparr> g_fault_fired := True \<rparr>, [Stuck (g_btn_id v)]) else (v, []))"

definition release_step :: "button_vars \<Rightarrow> button_vars" where
  "release_step v =
     (if g_ticks v = 0
      then if 5 \<le> g_hold_ticks v
           then v\<lparr> g_hold_ticks := 0, g_fault_fired := False, g_state := BTN_IDLE,
                   g_presses := (g_presses v + 1) mod 3 \<rparr>
           else v\<lparr> g_hold_ticks := g_hold_ticks v + 1 \<rparr>
      else v)"

definition btn_tick :: "button_vars \<Rightarrow> button_vars \<times> btn_event list" where
  "btn_tick v0 =
     (let v = v0\<lparr> g_ticks := g_ticks v0 + 250 \<rparr>
      in case g_state v of
           BTN_IDLE \<Rightarrow>
             (v\<lparr> g_state := BTN_FIRST_DOWN, g_ticks := 0, g_btn_id := ucast (g_presses v mod 3),
                 g_presses := g_presses v + 1 \<rparr>, [])
         | BTN_FIRST_DOWN \<Rightarrow>
             if g_btn_id v = 0 \<and> 250 \<le> g_ticks v then (v\<lparr> g_state := BTN_IDLE \<rparr>, [Click 0])
             else if g_btn_id v = 1 \<and> 250 \<le> g_ticks v then (v\<lparr> g_state := BTN_IDLE \<rparr>, [Double_click 1])
             else if g_btn_id v = 2 \<and> 500 \<le> g_ticks v then (v\<lparr> g_state := BTN_HELD, g_ticks := 0 \<rparr>, [])
             else (v, [])
         | BTN_HELD \<Rightarrow>
             (case hold_step v of
                (v1, e1) \<Rightarrow> (case stuck_step v1 of (v2, e2) \<Rightarrow> (release_step v2, e1 @ e2))))"

definition btn_fault :: "button_vars \<Rightarrow> button_vars" where
  "btn_fault v = v\<lparr> g_state := BTN_IDLE, g_ticks := 0, g_hold_ticks := 0, g_fault_fired := False \<rparr>"

section \<open>Publishing\<close>

fun publish_event :: "'p port_ops \<Rightarrow> btn_event \<Rightarrow> 'p led_sys \<Rightarrow> 'p led_sys" where
  "publish_event P (Click i) s = snd (ipc_publish_raw P (Some ButtonClick) (Some [i]) s)"
| "publish_event P (Double_click i) s = snd (ipc_publish_raw P (Some ButtonDoubleClick) (Some [i]) s)"
| "publish_event P (Hold i ms) s = snd (ipc_publish_raw P (Some ButtonHold)
     (Some (ButtonHold_bytes \<lparr> bh_button_id = i, bh_hold_ms = ms \<rparr>)) s)"
| "publish_event P (Stuck i) s = snd (ipc_publish_raw P (Some LedFault)
     (Some (LedFault_bytes \<lparr> lf_error_code = 0xBADC0DE, lf_channel = i \<rparr>)) s)"

section \<open>Refinement\<close>

lemma on_tick_eq:
  "on_tick P self s
     = set_btn (fst (btn_tick (btn (app_st s)))) (fold (publish_event P) (snd (btn_tick (btn (app_st s))))
         (snd (ipc_send_after_raw P (Some ButtonTick) 250
                 (Some (bytes_of_u32 (g_ticks (btn (app_st s)) + 250))) s)))"
proof -
  let ?v = "(btn (app_st s))\<lparr> g_ticks := g_ticks (btn (app_st s)) + 250 \<rparr>"
  note defs = btn_tick_def on_tick_def app_frames Let_def
  show ?thesis
  proof (cases "g_state (btn (app_st s))")
    case BTN_IDLE
    then show ?thesis by (simp add: defs)
  next
    case BTN_FIRST_DOWN
    then show ?thesis
      by (cases "g_btn_id ?v = 0"; cases "g_btn_id ?v = 1"; cases "250 \<le> g_ticks ?v"; cases "500 \<le> g_ticks ?v")
         (simp_all add: defs)
  next
    case BTN_HELD
    then show ?thesis
      by (cases "1000 \<le> g_ticks ?v"; cases "g_ticks ?v = 0"; cases "4 \<le> g_hold_ticks ?v"; cases "g_fault_fired ?v";
          cases "5 \<le> g_hold_ticks ?v")
         (simp_all add: defs hold_step_def stuck_step_def release_step_def)
  qed
qed


section \<open>A whole cycle\<close>

text \<open>
  One turn of the button: a tick, then the fault it published to itself, which the framework puts
  behind it in the mailbox, before the next tick a quarter of a second later.
\<close>

definition btn_turn :: "button_vars \<Rightarrow> button_vars \<times> btn_event list" where
  "btn_turn v =
     (case btn_tick v of
        (v1, evs) \<Rightarrow> (if \<exists>e \<in> set evs. case e of Stuck i \<Rightarrow> True | _ \<Rightarrow> False then btn_fault v1 else v1, evs))"

fun btn_turns :: "nat \<Rightarrow> button_vars \<Rightarrow> button_vars \<times> btn_event list" where
  "btn_turns 0 v = (v, [])"
| "btn_turns (Suc n) v =
     (case btn_turn v of (v1, e1) \<Rightarrow> (case btn_turns n v1 of (v2, e2) \<Rightarrow> (v2, e1 @ e2)))"


lemma btn_turns_numeral:
  "btn_turns (numeral k) v =
     (case btn_turn v of (v1, e1) \<Rightarrow> (case btn_turns (pred_numeral k) v1 of (v2, e2) \<Rightarrow> (v2, e1 @ e2)))"
  by (simp add: numeral_eq_Suc)

lemma btn_turns_add:
  "btn_turns (m + n) v = (let (v1, e1) = btn_turns m v; (v2, e2) = btn_turns n v1 in (v2, e1 @ e2))"
  by (induction m arbitrary: v) (simp_all add: Let_def case_prod_beta)

lemmas btn_turn_simps =
  btn_turn_def btn_tick_def btn_fault_def hold_step_def stuck_step_def release_step_def

text \<open>The rotation of the button number, as long as the counter of presses does not wrap around.\<close>

lemma unat_next: "unat p + n < 2 ^ 32 \<Longrightarrow> n < 2 ^ 32 \<Longrightarrow> unat (p + of_nat n) = unat p + n" for p :: u32
  by (simp add: unat_word_ariths unat_of_nat take_bit_nat_eq_self)

lemma next_press:
  fixes p :: u32
  assumes "unat p + 1 < 2 ^ 32"
  shows "(p + 1) mod 3 = (if p mod 3 = 0 then 1 else if p mod 3 = 1 then 2 else 0)"
proof -
  have "unat (p + 1) = unat p + 1" using unat_next [of p 1] assms by simp
  then show ?thesis
    by (auto simp: word_unat_eq_iff unat_mod_distrib mod_Suc)
qed

lemma press_turn:
  "btn_turn \<lparr> g_state = BTN_IDLE, g_ticks = t, g_btn_id = i, g_presses = p, g_hold_ticks = h, g_fault_fired = f \<rparr>
     = (\<lparr> g_state = BTN_FIRST_DOWN, g_ticks = 0, g_btn_id = ucast (p mod 3), g_presses = p + 1,
          g_hold_ticks = h, g_fault_fired = f \<rparr>, [])"
  by (simp add: btn_turn_simps)

lemma click_turns:
  assumes "p mod 3 = 0"
  shows "btn_turns 2 \<lparr> g_state = BTN_IDLE, g_ticks = t, g_btn_id = i, g_presses = p, g_hold_ticks = h, g_fault_fired = f \<rparr>
     = (\<lparr> g_state = BTN_IDLE, g_ticks = 250, g_btn_id = 0, g_presses = p + 1, g_hold_ticks = h,
          g_fault_fired = f \<rparr>, [Click 0])"
  using assms by (simp add: btn_turns_numeral press_turn) (simp add: btn_turn_simps)

lemma double_click_turns:
  assumes "p mod 3 = 1"
  shows "btn_turns 2 \<lparr> g_state = BTN_IDLE, g_ticks = t, g_btn_id = i, g_presses = p, g_hold_ticks = h, g_fault_fired = f \<rparr>
     = (\<lparr> g_state = BTN_IDLE, g_ticks = 250, g_btn_id = 1, g_presses = p + 1, g_hold_ticks = h,
          g_fault_fired = f \<rparr>, [Double_click 1])"
  using assms by (simp add: btn_turns_numeral press_turn) (simp add: btn_turn_simps)

lemma hold_start_turns:
  assumes "p mod 3 = 2"
  shows "btn_turns 3 \<lparr> g_state = BTN_IDLE, g_ticks = t, g_btn_id = i, g_presses = p, g_hold_ticks = h, g_fault_fired = f \<rparr>
     = (\<lparr> g_state = BTN_HELD, g_ticks = 0, g_btn_id = 2, g_presses = p + 1, g_hold_ticks = h,
          g_fault_fired = f \<rparr>, [])"
  using assms by (simp add: btn_turns_numeral press_turn) (simp add: btn_turn_simps)

lemma hold_turns:
  assumes "h < 4"
  shows "btn_turns 4 \<lparr> g_state = BTN_HELD, g_ticks = 0, g_btn_id = i, g_presses = p, g_hold_ticks = h, g_fault_fired = f \<rparr>
     = (\<lparr> g_state = BTN_HELD, g_ticks = 0, g_btn_id = i, g_presses = p, g_hold_ticks = h + 1,
          g_fault_fired = f \<rparr>, [Hold i 1000])"
proof -
  have "\<not> 4 \<le> h" "\<not> 5 \<le> h" using assms by (simp_all add: word_le_nat_alt word_less_nat_alt)
  then show ?thesis by (simp add: btn_turns_numeral btn_turn_simps)
qed

lemma stuck_turns:
  "btn_turns 4 \<lparr> g_state = BTN_HELD, g_ticks = 0, g_btn_id = i, g_presses = p, g_hold_ticks = 4, g_fault_fired = False \<rparr>
     = (\<lparr> g_state = BTN_IDLE, g_ticks = 0, g_btn_id = i, g_presses = p, g_hold_ticks = 0,
          g_fault_fired = False \<rparr>, [Hold i 1000, Stuck i])"
  by (simp add: btn_turns_numeral btn_turn_simps)


lemma held_turns:
  "btn_turns 20 \<lparr> g_state = BTN_HELD, g_ticks = 0, g_btn_id = i, g_presses = p, g_hold_ticks = 0, g_fault_fired = False \<rparr>
     = (\<lparr> g_state = BTN_IDLE, g_ticks = 0, g_btn_id = i, g_presses = p, g_hold_ticks = 0,
          g_fault_fired = False \<rparr>, replicate 5 (Hold i 1000) @ [Stuck i])"
proof -
  have "(20::nat) = 4 + (4 + (4 + (4 + 4)))" by simp
  moreover have "replicate 5 x = [x, x, x, x, x]" for x :: btn_event by (simp add: numeral_eq_Suc)
  ultimately show ?thesis
    by (simp only: btn_turns_add Let_def) (simp add: hold_turns stuck_turns)
qed

definition btn_cycle_events :: "btn_event list" where
  "btn_cycle_events = [Click 0, Double_click 1] @ replicate 5 (Hold 2 1000) @ [Stuck 2]"

lemma cycle_turns:
  assumes "p mod 3 = 0" "unat p + 3 < 2 ^ 32"
  shows "btn_turns 27 \<lparr> g_state = BTN_IDLE, g_ticks = t, g_btn_id = i, g_presses = p, g_hold_ticks = 0, g_fault_fired = False \<rparr>
     = (\<lparr> g_state = BTN_IDLE, g_ticks = 0, g_btn_id = 2, g_presses = p + 3, g_hold_ticks = 0,
          g_fault_fired = False \<rparr>, btn_cycle_events)"
proof -
  have n: "(27::nat) = 2 + (2 + (3 + 20))" by simp
  have "unat (p + 1) = unat p + 1" using unat_next [of p 1] assms(2) by simp
  then have ne: "unat p + 1 < 2 ^ 32" "unat (p + 1) + 1 < 2 ^ 32" using assms(2) by simp_all
  have m: "(p + 1) mod 3 = 1" "(p + 1 + 1) mod 3 = 2"
    using next_press [OF ne(1)] next_press [OF ne(2)] assms(1) by simp_all
  show ?thesis
    by (simp only: n btn_turns_add Let_def prod.case click_turns [OF assms(1)] double_click_turns [OF m(1)]
        hold_start_turns [OF m(2)] held_turns)
       (simp add: btn_cycle_events_def add.assoc)
qed

text \<open>
  As long as its counter of presses does not wrap around, the button repeats, every 27 ticks, one
  cycle of events and no other: a click of button 0, a double click of button 1, five one-second holds
  of button 2 and then one stuck-button fault, whose delivery to the button actor itself releases it.
\<close>

theorem button_cycles:
  assumes "g_state v = BTN_IDLE" "g_hold_ticks v = 0" "\<not> g_fault_fired v" "g_presses v mod 3 = 0"
    and "unat (g_presses v) + 3 * k < 2 ^ 32"
  shows "snd (btn_turns (27 * k) v) = concat (replicate k btn_cycle_events)
       \<and> g_state (fst (btn_turns (27 * k) v)) = BTN_IDLE
       \<and> g_presses (fst (btn_turns (27 * k) v)) = g_presses v + of_nat (3 * k)"
  using assms
proof (induction k arbitrary: v)
  case (Suc k)
  obtain t i p where v: "v = \<lparr> g_state = BTN_IDLE, g_ticks = t, g_btn_id = i, g_presses = p,
      g_hold_ticks = 0, g_fault_fired = False \<rparr>" and p: "p mod 3 = 0" "unat p + 3 * Suc k < 2 ^ 32"
    using Suc.prems by (cases v) auto
  let ?w = "\<lparr> g_state = BTN_IDLE, g_ticks = 0, g_btn_id = 2, g_presses = p + 3, g_hold_ticks = 0,
      g_fault_fired = False \<rparr>"
  have c: "btn_turns 27 v = (?w, btn_cycle_events)" unfolding v by (rule cycle_turns) (use p in simp_all)
  have n: "unat (p + 3) = unat p + 3" using unat_next [of p 3] p(2) by simp
  then have "(p + 3) mod 3 = 0" using p(1) by (simp add: word_unat_eq_iff unat_mod_distrib)
  then have "snd (btn_turns (27 * k) ?w) = concat (replicate k btn_cycle_events)
      \<and> g_state (fst (btn_turns (27 * k) ?w)) = BTN_IDLE
      \<and> g_presses (fst (btn_turns (27 * k) ?w)) = p + 3 + of_nat (3 * k)"
    using Suc.IH [of ?w] n p(2) by simp
  then show ?case
    by (simp only: mult_Suc_right btn_turns_add c Let_def prod.case)
       (simp add: v case_prod_beta add.assoc)
qed simp

theorem button_cycles_witness:
  "snd (btn_turns (27 * 1000) (btn led_program_initial)) = concat (replicate 1000 btn_cycle_events)"
  using button_cycles [of "btn led_program_initial" 1000] by (simp add: led_program_initial_def)

text \<open>
  What the branch that releases the button would do if the fault had not reset it first: it advances
  the rotation a second time, the press having advanced it already, so that the next button is 1 and
  button 0 is skipped.
\<close>

theorem button_release_skips_button:
  assumes "g_state v = BTN_HELD" "g_ticks v = 750" "g_hold_ticks v = 5" "g_presses v mod 3 = 0"
    and "unat (g_presses v) + 1 < 2 ^ 32"
  shows "g_state (fst (btn_tick v)) = BTN_IDLE \<and> g_btn_id (fst (btn_tick (fst (btn_tick v)))) = 1"
  using next_press [OF assms(5)] assms(1-4)
  by (cases "g_fault_fired v") (simp_all add: btn_turn_simps)

end
