(* ===== verification/Led_Actor.thy ===== *)
theory Led_Actor
  imports Led_Example App_Frame Posix_Ask
begin

text \<open>
  What the LED actor of the example program guarantees: an invariant of its variables over everything the
  application does, the endless chain of delayed blink messages, the restart after a fault, and the
  answers to state requests, from the typed handler to what the asker's callback reports.
\<close>

section \<open>The LED's variables\<close>

definition led_inv :: "led_vars \<Rightarrow> bool" where
  "led_inv v \<longleftrightarrow> \<not> g_disabled v \<and> 0 \<le> g_blink_remaining v \<and> g_blink_remaining v \<le> 5"

definition keeps_led_inv :: "('p led_sys \<Rightarrow> 'p led_sys) \<Rightarrow> bool" where
  "keeps_led_inv f \<longleftrightarrow> (\<forall>s. led_inv (led (app_st s)) \<longrightarrow> led_inv (led (app_st (f s))))"

lemma keeps_led_invD: "keeps_led_inv f \<Longrightarrow> led_inv (led (app_st s)) \<Longrightarrow> led_inv (led (app_st (f s)))"
  by (simp add: keeps_led_inv_def)

lemma led_hooks_inv: "led_inv (led (app_st s)) \<Longrightarrow> led_inv (led (app_st (led_hooks c s)))"
  by (cases c) (auto simp: led_on_start_def led_on_stop_def led_on_failure_def led_inv_def Let_def)

lemma call_hook_led_inv:
  "led_inv (led (app_st s)) \<Longrightarrow> led_inv (led (app_st (call_hook led_hooks c f s)))"
  by (simp add: call_hook_def led_hooks_inv split: option.split)

lemma port_call_app [simp]:
  "app_st (snd (ipc_port_restart_actor P a s)) = app_st s" "app_st (ipc_port_stop_actor P a s) = app_st s"
  by (simp_all add: ipc_port_restart_actor_def ipc_port_stop_actor_def on_port_fields)

lemma actor_fail_led_inv:
  assumes "led_inv (led (app_st s))"
  shows "led_inv (led (app_st (snd (ipc_actor_fail P led_hooks (Some a) reason s))))"
proof -
  let ?s1 = "call_hook led_hooks (\<lambda>f. Call_failure_hook f a reason) (a_failure_hook (actors s a)) s"
  let ?s2 = "call_hook led_hooks (\<lambda>f. Call_stop_hook f a) (a_stop_hook (actors ?s1 a)) ?s1"
  have "led_inv (led (app_st ?s1))" "led_inv (led (app_st ?s2))"
    using assms by (simp_all add: call_hook_led_inv)
  then show ?thesis
    by (cases "a_supervision (actors ?s1 a)"; cases "ipc_port_restart_actor P a ?s2")
       (use port_call_app(1) [of P a ?s2] in
         \<open>auto simp: ipc_actor_fail_def stop_one_def Let_def call_hook_led_inv\<close>)
qed

lemma led_blink_inv:
  assumes "led_inv (led (app_st s))"
  shows "led_inv (led (app_st (led_blink_handler P self bs m s)))"
  using assms by (auto simp: led_blink_handler_def led_inv_def app_frames Let_def)


lemma button_tick_led: "led (app_st (on_tick P self s)) = led (app_st s)"
  by (cases "g_state (btn (app_st s))") (simp_all add: on_tick_def app_frames Let_def case_prod_beta)

lemma led_handler_inv:
  assumes "led_handler P f = Some (n, h)" "led_inv (led (app_st s))"
  shows "led_inv (led (app_st (h self bs m s)))"
proof -
  have "led_inv (led (app_st (led_on_handler self bs m s)))" "led_inv (led (app_st (led_off_handler self bs m s)))"
    "led_inv (led (app_st (get_led_state_handler P self bs m s)))"
    "led_inv (led (app_st (led_fault_handler P self bs m s)))"
    using assms(2) actor_fail_led_inv [OF assms(2)]
    by (auto simp: led_on_handler_def led_off_handler_def get_led_state_handler_def led_fault_handler_def
        led_inv_def app_frames)
  moreover have "led (app_st (app_fault_handler self bs m s)) = led (app_st s)"
    "led (app_st (on_click P self bs m s)) = led (app_st s)"
    "led (app_st (on_double_click P self bs m s)) = led (app_st s)"
    "led (app_st (on_hold P self bs m s)) = led (app_st s)"
    "led (app_st (on_tick_msg P self bs m s)) = led (app_st s)"
    "led (app_st (on_fault self bs m s)) = led (app_st s)"
    by (simp_all add: app_fault_handler_def on_click_def on_double_click_def on_hold_def on_tick_msg_def
        on_fault_def app_frames button_tick_led)
  ultimately show ?thesis
    using assms led_blink_inv [OF assms(2)] by (auto simp: led_handler_def split: if_splits)
qed

lemma led_user_inv:
  assumes "\<And>r. keeps_led_inv (report r)"
  shows "keeps_led_inv (led_user report P c)"
  unfolding keeps_led_inv_def
proof (intro allI impI)
  fix s :: "'a led_sys"
  assume inv: "led_inv (led (app_st s))"
  show "led_inv (led (app_st (led_user report P c s)))"
  proof (cases c)
    case (Call_handler f self m)
    show ?thesis
      using led_handler_inv [OF _ inv] inv
      by (auto simp: Call_handler handle_adapter_def split: option.splits)
  next
    case (Call_callback f self result payload sz m)
    show ?thesis
      using keeps_led_invD [OF assms inv] inv
      by (auto simp: Call_callback response_handle_adapter_def on_led_state_def split: outcome.splits)
  qed (use led_hooks_inv [OF inv, of c] in simp_all)
qed

section \<open>Properties\<close>

text \<open>
  Every call of the framework into the application keeps the LED actor's variables sane: whatever
  the port, whatever handler, hook or callback is called with whatever message, the LED is never
  disabled and between 0 and 5 blinks remain.
\<close>

theorem led_vars_invariant:
  assumes "\<forall>r s. led (app_st (report r s)) = led (app_st s)"
    and "\<not> g_disabled (led (app_st s))" "g_blink_remaining (led (app_st s)) \<in> {0..5}"
  shows "\<not> g_disabled (led (app_st (led_user report P c s)))
       \<and> g_blink_remaining (led (app_st (led_user report P c s))) \<in> {0..5}"
proof -
  have "keeps_led_inv (led_user report P c)"
    by (rule led_user_inv) (simp add: keeps_led_inv_def assms(1))
  then show ?thesis using assms(2,3) by (simp add: keeps_led_inv_def led_inv_def)
qed

text \<open>
  A LED that has started to blink blinks for good. Every \<^verbatim>\<open>LedBlink\<close> the actor handles, with its
  variables sane, schedules exactly one further \<^verbatim>\<open>LedBlink\<close> to itself, with the period and brightness
  now stored, whether it is the first, the fifth or a later one: when the counter has reached 0 it is
  set to 5 again from the payload.
\<close>

theorem led_blink_rearms:
  assumes "\<not> g_disabled (led (app_st s))" "0 \<le> g_blink_remaining (led (app_st s))"
    and "v = (if g_blink_remaining (led (app_st s)) = 0
              then (led (app_st s))\<lparr> g_blink_period := lb_period_ms p, g_blink_brightness := lb_brightness p,
                     g_blink_remaining := 4 \<rparr>
              else (led (app_st s))\<lparr> g_blink_remaining := g_blink_remaining (led (app_st s)) - 1 \<rparr>)"
  shows "led_blink_handler P self (LedBlink_bytes p) m s
    = snd (ipc_send_after_raw P (Some LedBlink) (g_blink_period v)
        (Some (LedBlink_bytes \<lparr> lb_period_ms = g_blink_period v, lb_brightness = g_blink_brightness v \<rparr>))
        (set_led v s))"
  using assms by (auto simp: led_blink_handler_def Let_def)




section \<open>State requests\<close>

text \<open>
  What the callback of a state request for channel \<open>c\<close> reports, as the responder's variables decide.
\<close>

definition led_state_result :: "u8 \<Rightarrow> led_vars \<Rightarrow> int + GetLedStateResponse_payload_t" where
  "led_state_result c v =
     (if c > 1 then Inl (- ENODEV)
      else Inr \<lparr> gr_channel = c, gr_on = (if g_disabled v then 0 else 1), gr_brightness = 80,
                 gr_on_time_ms = 12345 \<rparr>)"

text \<open>The callback's adapter hands it what the reply carried; the declared reply type always matches.\<close>

lemma led_callback:
  "led_user report P (Call_callback fn_on_led_state a 0 (Some (GetLedStateResponse_bytes r)) 8 msg) s
     = report (Inr r) s"
  "rc \<noteq> 0 \<Longrightarrow> led_user report P (Call_callback fn_on_led_state a rc bs n msg) s = report (Inl rc) s"
  by (simp_all add: response_handle_adapter_def on_led_state_def)

context mailbox_port
begin

lemma led_state_answered:
  assumes "ask_inv s" "reply_accepted req GetLedStateResponse i s" "m_reply_id req \<noteq> 0"
    and "d_size (descs s GetLedStateResponse) = 8" "m_payload req = Some [c]"
    and "q_callback (ask_table s ! i) = fn_on_led_state"
    and "a = q_actor (ask_table s ! i)" "ready_in s a" "queued s a < queue_depth (a_cfg (actors s a))"
    and "t = led_user report P (Call_handler 43 self req) s"
    and "ask_table u = ask_table t" "conf u = conf t"
  shows "\<exists>m. mail (port_st t) a = mail (port_st s) a @ [m]
    \<and> ipc_dispatch_actor_handlers (led_user report P) (Some a) (Some m) u
      = report (led_state_result c (led (app_st s))) (set_ask i zero_pending_ask u)"
proof -
  have t: "t = get_led_state_handler P self [c] req s"
    using assms(5,10) by (simp add: led_handler_def handle_adapter_def cast_payload_def)
  show ?thesis
  proof (cases "c > 1")
    case True
    then have "t = snd (ipc_reply_error_raw P (Some req) (- ENODEV) s)"
      by (simp add: t get_led_state_handler_def)
    moreover have "IPC_CONFIG_ENABLE_ASK (conf s)" "m_ask_id req \<noteq> 0" "pending_at s (m_ask_id req) i"
      "m_reply_id req = q_reply_id (ask_table s ! i)" "\<not> q_reply_sent (ask_table s ! i)"
      using assms(2) by (simp_all add: reply_accepted_def)
    moreover have "- ENODEV \<noteq> 0" by simp
    ultimately show ?thesis
      using error_reply_round_trip(2,3) [OF assms(1) _ _ _ _ assms(3) _ _ assms(7-9) refl _ assms(11,12),
          of "- ENODEV"] assms(6) led_callback(2) [of "- ENODEV"] True
      by (auto simp: led_state_result_def simp del: led_user.simps)
  next
    case False
    let ?r = "\<lparr> gr_channel = c, gr_on = (if g_disabled (led (app_st s)) then 0 else 1), gr_brightness = 80,
        gr_on_time_ms = 12345 \<rparr>"
    let ?m = "reply_msg s req GetLedStateResponse (Some (GetLedStateResponse_bytes ?r))"
    have m: "msg_readable ?m" "msg_bytes ?m = GetLedStateResponse_bytes ?r"
      using assms(4) by (simp_all add: reply_msg_def msg_readable_def msg_bytes_def)
    have "ipc_reply_raw P (Some req) (Some GetLedStateResponse) (Some (GetLedStateResponse_bytes ?r)) s = (0, t)"
      using reply_goes_out [OF assms(1,2,7,8) m(1) assms(9)] False
      by (simp add: t get_led_state_handler_def prod_eq_iff)
    from reply_round_trip [OF assms(1,2,7,8) m(1) refl this assms(11,12), of "led_user report P"]
    show ?thesis
      using assms(4,6) m(2) False led_callback(1) by (auto simp: led_state_result_def simp del: led_user.simps)
  qed
qed

end


text \<open>
  C38: A state request is answered to the asker's callback, end to end on the POSIX port: when the LED
  actor handles the request, exactly one message is put into the mailbox of the asker, and when the
  asker dispatches it, in any state with the same asks, its callback reports the LED's state for the
  requested channel, field by field, or \<^verbatim>\<open>-ENODEV\<close> for a channel the LED does not have; the ask is gone.
\<close>

theorem posix_led_state_answered:
  assumes "ask_inv s" "reply_accepted req GetLedStateResponse i s" "m_reply_id req \<noteq> 0"
    and "d_size (descs s GetLedStateResponse) = 8" "m_payload req = Some [c]"
    and "q_callback (ask_table s ! i) = fn_on_led_state" "a = q_actor (ask_table s ! i)"
    and "posix_ready (port_st s) a (a_cfg (actors s a))"
    and "length (posix_mail (port_st s) a) < queue_depth (a_cfg (actors s a))"
    and "t = led_user report posix_port (Call_handler 43 self req) s"
    and "ask_table u = ask_table t" "conf u = conf t"
  shows "\<exists>m. posix_mail (port_st t) a = posix_mail (port_st s) a @ [m]
    \<and> ipc_dispatch_actor_handlers (led_user report posix_port) (Some a) (Some m) u
      = report (led_state_result c (led (app_st s))) (set_ask i zero_pending_ask u)"
  by (rule mailbox_port.led_state_answered [OF posix.mailbox_port_axioms assms])

section \<open>Concrete runs\<close>

text \<open>
  The LED program with one actor's mailbox set up, the LED actor supervised, and one state request of
  the app actor pending.
\<close>

definition ex_led :: "aptr \<Rightarrow> posix led_sys" where
  "ex_led a =
     (ipc_initial ex_config led_actors led_descs
        (fst (posix_actor_init a (led_actors a) (posix_initial (\<lambda>_. 0)))) led_program_initial)
     \<lparr> actors := led_actors(led_actor := (led_actors led_actor)
          \<lparr> a_supervision := IPC_SUPERVISE_RESTART, a_failure_hook := Some fn_led_on_failure,
            a_stop_hook := Some fn_led_on_stop, a_start_hook := Some fn_led_on_start \<rparr>),
       descs := led_descs(GetLedStateResponse := (led_descs GetLedStateResponse)\<lparr> d_id := 14 \<rparr>),
       ask_table := [pending_entry app_actor 14 fn_on_led_state 0 7, zero_pending_ask] \<rparr>"

lemma led_actor_configs:
  "a_cfg (actors (ex_led b) a) = a_cfg (led_actors a)"
  "queue_depth (a_cfg (led_actors led_actor)) = 8" "queue_depth (a_cfg (led_actors app_actor)) = 32"
  "max_payload_size (a_cfg (led_actors led_actor)) = 8" "max_payload_size (a_cfg (led_actors app_actor)) = 8"
  by (simp_all add: ex_led_def led_actors_def IPC_ACTOR_DEFINE_def)

lemma ex_led_ready:
  assumes "a = led_actor \<or> a = app_actor"
  shows "posix_ready (port_st (ex_led a)) a (a_cfg (actors (ex_led a) a))" "posix_mail (port_st (ex_led a)) a = []"
proof -
  have "snd (posix_actor_init a (led_actors a) (posix_initial (\<lambda>_. 0))) = 0"
    by (simp add: posix_actor_init_def os_call_def posix_initial_def Let_def)
  moreover have "0 < queue_depth (a_cfg (led_actors a))" "max_payload_size (a_cfg (led_actors a)) + 48 \<le> 2 ^ 64"
    using assms led_actor_configs(2-5) by (elim disjE; simp only: le_less; simp)+
  moreover have "port_st (ex_led a) = fst (posix_actor_init a (led_actors a) (posix_initial (\<lambda>_. 0)))"
    by (simp add: ex_led_def ipc_initial_def)
  ultimately show "posix_ready (port_st (ex_led a)) a (a_cfg (actors (ex_led a) a))"
      "posix_mail (port_st (ex_led a)) a = []"
    using posix_actor_init_ready [of "led_actors a" a "posix_initial (\<lambda>_. 0)"]
    by (simp_all add: led_actor_configs(1))
qed

theorem led_vars_invariant_witness:
  "g_blink_remaining (led (app_st (led_user (\<lambda>r s. s) posix_port
      (Call_handler 42 led_actor
         \<lparr> m_id = 12, m_kind = IPC_CMD, m_size = 8, m_payload = Some (LedBlink_bytes \<lparr> lb_period_ms = 150, lb_brightness = 200 \<rparr>),
           m_ask_id = 0, m_reply_id = 0, m_result = 0 \<rparr>) (ex_led 1)))) \<in> {0..5}"
proof -
  have "\<not> g_disabled (led (app_st (ex_led 1)))" "g_blink_remaining (led (app_st (ex_led 1))) \<in> {0..5}"
    by (simp_all add: ex_led_def ipc_initial_def led_program_initial_def)
  from led_vars_invariant [OF _ this, of "\<lambda>r s. s" posix_port] show ?thesis by blast
qed

theorem led_blink_rearms_witness:
  "led_blink_handler posix_port 1 (LedBlink_bytes \<lparr> lb_period_ms = 150, lb_brightness = 200 \<rparr>)
      (timeout_msg 1) (ex_led 1)
    = snd (ipc_send_after_raw posix_port (Some LedBlink) 150
        (Some (LedBlink_bytes \<lparr> lb_period_ms = 150, lb_brightness = 200 \<rparr>))
        (set_led ((led (app_st (ex_led 1)))\<lparr> g_blink_period := 150, g_blink_brightness := 200,
             g_blink_remaining := 4 \<rparr>) (ex_led 1)))"
proof -
  have "\<not> g_disabled (led (app_st (ex_led 1)))" "g_blink_remaining (led (app_st (ex_led 1))) = 0"
    by (simp_all add: ex_led_def ipc_initial_def led_program_initial_def)
  with led_blink_rearms [where s = "ex_led 1" and P = posix_port and self = 1 and m = "timeout_msg 1"
      and p = "\<lparr> lb_period_ms = 150, lb_brightness = 200 \<rparr>", OF _ _ refl]
  show ?thesis by simp
qed


theorem posix_led_state_answered_witness:
  "\<exists>m. posix_mail (port_st (led_user (\<lambda>r s. s) posix_port (Call_handler 43 led_actor
      \<lparr> m_id = 13, m_kind = IPC_CMD, m_size = 1, m_payload = Some [2], m_ask_id = 7, m_reply_id = 14, m_result = 0 \<rparr>)
      (ex_led app_actor))) app_actor = [m]"
proof -
  let ?s = "ex_led 2"
    and ?req = "\<lparr> m_id = 13, m_kind = IPC_CMD, m_size = 1, m_payload = Some [2], m_ask_id = 7, m_reply_id = 14, m_result = 0 \<rparr>"
  have inv: "ask_inv ?s"
    by (simp add: ask_inv_def ex_led_def pending_entry_def less_Suc_eq ipc_initial_def ex_config_def)
  have acc: "reply_accepted ?req GetLedStateResponse 0 ?s"
    by (simp add: reply_accepted_def pending_at_def eventual_id_def ex_led_def pending_entry_def ipc_initial_def
        ex_config_def led_descs_def IPC_CMD_DEFINE_def actor_max_payload_size_def led_actors_def IPC_ACTOR_DEFINE_def)
  have d: "d_size (descs ?s GetLedStateResponse) = 8" "q_callback (ask_table ?s ! 0) = fn_on_led_state"
    "2 = q_actor (ask_table ?s ! 0)"
    by (simp_all add: ex_led_def led_descs_def IPC_CMD_DEFINE_def pending_entry_def)
  from posix_led_state_answered [OF inv acc _ d(1) _ d(2,3) ex_led_ready(1) _ refl refl refl, of 2 "\<lambda>r s. s" led_actor]
  show ?thesis using ex_led_ready(2) [of 2] by (auto simp: led_actor_configs simp del: led_user.simps)
qed

end
