(* ===== verification/Led_Startup.thy ===== *)
theory Led_Startup
  imports Led_Example Ipc_Startup
begin

text \<open>
  How the LED program comes up: the declarations of its three actors, and the routes, subscriptions and
  policies they set up whatever order the constructors run in.
\<close>

section \<open>Declarations\<close>

text \<open>The hooks of the app and button actors, and all unknown hooks, only print.\<close>

definition led_actor_decls :: "static_decl list" where
  "led_actor_decls =
     [Declare_actor led_actor, Declare_supervision led_actor IPC_SUPERVISE_RESTART,
      Declare_start_hook led_actor fn_led_on_start, Declare_stop_hook led_actor fn_led_on_stop,
      Declare_unknown_hook led_actor 60, Declare_failure_hook led_actor fn_led_on_failure,
      Declare_handler led_actor LedOn 40, Declare_handler led_actor LedOff 41,
      Declare_handler led_actor LedBlink 42, Declare_handler led_actor GetLedStateRequest 43,
      Declare_handler led_actor LedFault 44]"

definition app_actor_decls :: "static_decl list" where
  "app_actor_decls =
     [Declare_actor app_actor, Declare_start_hook app_actor 33, Declare_stop_hook app_actor 34,
      Declare_unknown_hook app_actor 61, Declare_handler app_actor LedFault 45,
      Declare_handler app_actor ButtonClick 46, Declare_handler app_actor ButtonDoubleClick 47,
      Declare_handler app_actor ButtonHold 48]"

definition button_actor_decls :: "static_decl list" where
  "button_actor_decls =
     [Declare_actor button_actor, Declare_start_hook button_actor 35, Declare_stop_hook button_actor 36,
      Declare_unknown_hook button_actor 62, Declare_handler button_actor ButtonTick 49,
      Declare_handler button_actor LedFault 51]"

definition led_decls :: "static_decl list" where
  "led_decls = led_actor_decls @ app_actor_decls @ button_actor_decls"

lemmas led_decls_defs = led_decls_def led_actor_decls_def app_actor_decls_def button_actor_decls_def

section \<open>IDs\<close>

text \<open>The names of the program hash to different, non-zero IDs.\<close>

lemma led_fnv1a:
  "ipc_fnv1a ''LedOn'' = 1795301251" "ipc_fnv1a ''LedOff'' = 2305558727" "ipc_fnv1a ''LedBlink'' = 3252938376"
  "ipc_fnv1a ''GetLedStateRequest'' = 990869050" "ipc_fnv1a ''LedFault'' = 3964827270"
  "ipc_fnv1a ''ButtonClick'' = 669624475" "ipc_fnv1a ''ButtonDoubleClick'' = 2694590500"
  "ipc_fnv1a ''ButtonHold'' = 2465563356" "ipc_fnv1a ''ButtonTick'' = 865130952"
  by (simp_all add: ipc_fnv1a_def fnv1a_step_def)

lemma led_ids:
  "eventual_id (led_descs LedOn) = 1795301251" "eventual_id (led_descs LedOff) = 2305558727"
  "eventual_id (led_descs LedBlink) = 3252938376" "eventual_id (led_descs GetLedStateRequest) = 990869050"
  "eventual_id (led_descs LedFault) = 3964827270" "eventual_id (led_descs ButtonClick) = 669624475"
  "eventual_id (led_descs ButtonDoubleClick) = 2694590500" "eventual_id (led_descs ButtonHold) = 2465563356"
  "eventual_id (led_descs ButtonTick) = 865130952"
  by (simp_all add: led_descs_def eventual_id_def IPC_CMD_DEFINE_def IPC_EVENT_DEFINE_def led_fnv1a)

lemma led_desc_fields:
  "d_kind (led_descs d) = (if d \<in> {LedFault, ButtonClick, ButtonDoubleClick, ButtonHold} then IPC_EVENT else IPC_CMD)"
  "d_name (led_descs d) \<noteq> None"
  by (simp_all add: led_descs_def IPC_CMD_DEFINE_def IPC_EVENT_DEFINE_def)

lemma led_handlers:
  "handlers led_decls =
     [(led_actor, LedOn, 40), (led_actor, LedOff, 41), (led_actor, LedBlink, 42),
      (led_actor, GetLedStateRequest, 43), (led_actor, LedFault, 44), (app_actor, LedFault, 45),
      (app_actor, ButtonClick, 46), (app_actor, ButtonDoubleClick, 47), (app_actor, ButtonHold, 48),
      (button_actor, ButtonTick, 49), (button_actor, LedFault, 51)]"
  by (simp add: led_decls_defs)

lemma led_decls_ok: "decls_ok ipc_default_config led_descs (handlers led_decls)"
  by (simp add: decls_ok_def led_handlers led_desc_fields led_ids ipc_default_config_def)


section \<open>Properties\<close>

lemma led_actor_fields:
  assumes "mset ys = mset led_decls" "declared_state c led_actors led_descs ys t"
  shows "a_supervision (actors t led_actor) = IPC_SUPERVISE_RESTART"
    "a_failure_hook (actors t led_actor) = Some fn_led_on_failure"
    "a_stop_hook (actors t led_actor) = Some fn_led_on_stop"
    "a_start_hook (actors t led_actor) = Some fn_led_on_start"
    "a_cfg (actors t a) = a_cfg (led_actors a)"
proof -
  let ?own = "filter (\<lambda>x. decl_actor x = led_actor) ys"
  have act: "(actors t a)\<lparr> a_next := None \<rparr>
      = (fold decl_field (filter (\<lambda>x. decl_actor x = a) ys) (led_actors a))\<lparr> a_next := None \<rparr>" for a
    using assms(2) by (simp add: declared_state_def)
  have "filter (\<lambda>x. decl_actor x = led_actor) led_decls = led_actor_decls"
    by (simp add: led_decls_defs)
  moreover have "set ?own = set (filter (\<lambda>x. decl_actor x = led_actor) led_decls)"
    unfolding set_filter mset_eq_setD [OF assms(1)] ..
  ultimately have own: "set ?own = set led_actor_decls" by (simp only:)
  have same: "get (actors t a) = get (fold decl_field (filter (\<lambda>x. decl_actor x = a) ys) (led_actors a))"
    if "\<And>x. get (x\<lparr> a_next := None \<rparr>) = get x" for get :: "ipc_actor \<Rightarrow> 'x" and a
    by (rule arg_cong [OF act [of a], of get, unfolded that])
  show "a_supervision (actors t led_actor) = IPC_SUPERVISE_RESTART"
    unfolding same [of a_supervision, simplified]
    by (rule fold_decl_field) (unfold own, auto simp: led_actor_decls_def)
  show "a_failure_hook (actors t led_actor) = Some fn_led_on_failure"
    unfolding same [of a_failure_hook, simplified]
    by (rule fold_decl_field) (unfold own, auto simp: led_actor_decls_def)
  show "a_stop_hook (actors t led_actor) = Some fn_led_on_stop"
    unfolding same [of a_stop_hook, simplified]
    by (rule fold_decl_field) (unfold own, auto simp: led_actor_decls_def)
  show "a_start_hook (actors t led_actor) = Some fn_led_on_start"
    unfolding same [of a_start_hook, simplified]
    by (rule fold_decl_field) (unfold own, auto simp: led_actor_decls_def)
  have "a_cfg (decl_field y x) = a_cfg x" for y x by (cases y) simp_all
  then have "a_cfg (fold decl_field zs x) = a_cfg x" for zs x by (induction zs arbitrary: x) simp_all
  then show "a_cfg (actors t a) = a_cfg (led_actors a)" using same [of a_cfg a] by simp
qed

text \<open>
  The LED program comes up, whatever order its constructors run in: every command then goes to the actor
  that handles it, every button event to the app actor, a fault to all three actors, and the LED actor
  restarts on failure with its own hooks.
\<close>

definition led_routes :: "'p led_sys \<Rightarrow> bool" where
  "led_routes t \<longleftrightarrow>
     (\<forall>d \<in> {LedOn, LedOff, LedBlink, GetLedStateRequest}. find_registered (eventual_id (led_descs d)) t = Some led_actor)
     \<and> find_registered (eventual_id (led_descs ButtonTick)) t = Some button_actor
     \<and> (\<forall>d \<in> {ButtonClick, ButtonDoubleClick, ButtonHold}.
          set (subscribers (subs t) (eventual_id (led_descs d))) = {app_actor})
     \<and> set (subscribers (subs t) (eventual_id (led_descs LedFault))) = {led_actor, app_actor, button_actor}"

lemma led_program_up:
  assumes "mset ys = mset led_decls"
  shows "\<exists>t. run_decls ys (ipc_initial ipc_default_config led_actors led_descs p u) = Some (Returns t)
    \<and> declared_state ipc_default_config led_actors led_descs ys t \<and> led_routes t"
proof -
  let ?s0 = "ipc_initial ipc_default_config led_actors led_descs p u"
  have names: "\<forall>x \<in> set (handlers xs). handler_name led_descs x \<noteq> None" for xs
    by (simp add: led_desc_fields(2))
  obtain s where s: "run_decls led_decls ?s0 = Some (Returns s)" "declared_state ipc_default_config led_actors led_descs led_decls s"
    using run_decls_from_initial [OF names, of ipc_default_config led_decls led_actors p u] led_decls_ok by auto
  from run_decls_perm [OF names assms [symmetric] s(1)]
  obtain t where t: "run_decls ys ?s0 = Some (Returns t)" "\<And>i. find_registered i t = find_registered i s"
    "mset (subs t) = mset (subs s)" by blast
  have dt: "declared_state ipc_default_config led_actors led_descs ys t"
    using run_decls_from_initial [OF names, of ipc_default_config ys led_actors p u] t(1) by (auto split: if_splits)
  have tabs: "regs s = map (route_of led_descs) (cmds led_descs (handlers led_decls))"
    "subs s = map (subscription_of led_descs) (events led_descs (handlers led_decls))"
    using s(2) by (simp_all add: declared_state_def)
  have sets: "set (subscribers (subs t) i) = set (subscribers (subs s) i)" for i
    by (simp add: subscribers_def mset_eq_setD [OF t(3)])
  have routes: "find_registered (eventual_id (led_descs d)) s = Some led_actor"
    if "d \<in> {LedOn, LedOff, LedBlink, GetLedStateRequest}" for d
    using that unfolding find_registered_def tabs led_handlers
    by (auto simp: led_desc_fields(1) led_ids route_of_def)
  have tick: "find_registered (eventual_id (led_descs ButtonTick)) s = Some button_actor"
    unfolding find_registered_def tabs led_handlers by (simp add: led_desc_fields(1) led_ids route_of_def)
  have buttons: "set (subscribers (subs s) (eventual_id (led_descs d))) = {app_actor}"
    if "d \<in> {ButtonClick, ButtonDoubleClick, ButtonHold}" for d
    using that unfolding tabs led_handlers by (auto simp: led_desc_fields(1) led_ids subscription_of_def)
  have faults: "set (subscribers (subs s) (eventual_id (led_descs LedFault))) = {led_actor, app_actor, button_actor}"
    unfolding tabs led_handlers by (auto simp: led_desc_fields(1) led_ids subscription_of_def)
  have "led_routes t" using routes tick buttons faults unfolding led_routes_def t(2) sets by blast
  then show ?thesis using t(1) dt by blast
qed

end
