(* ===== verification/Led_Program.thy ===== *)
theory Led_Program
  imports Led_Startup Led_Button Program_Life Test_Port
begin

text \<open>
  The LED program as a whole: the constructors, then \<^verbatim>\<open>main\<close> of \<^verbatim>\<open>examples/led_actor/main.c\<close>. \<open>sleep ms\<close> is
  what the other threads do while \<^verbatim>\<open>main\<close> sleeps, \<open>finish\<close> what they do until the join returns; both
  are parameters, and so is what the response callback prints.
\<close>

section \<open>The main function\<close>

text \<open>The three \<^verbatim>\<open>module_init\<close> functions return 0, and \<^verbatim>\<open>main\<close> reads no return code.\<close>

definition led_main ::
    "'p port_ops \<Rightarrow> ('p, led_program) user_code \<Rightarrow> (nat \<Rightarrow> 'p led_sys \<Rightarrow> 'p led_sys)
     \<Rightarrow> ('p led_sys \<Rightarrow> 'p led_sys) \<Rightarrow> 'p led_sys \<Rightarrow> 'p led_sys option" where
  "led_main P U sleep finish s =
     (case ipc_start_all_actors P U s of
        None \<Rightarrow> None
      | Some (_, s1) \<Rightarrow>
          (let s2 = sleep 10 s1;
               s3 = sleep 100 (app_run P s2);
               s4 = sleep 8000 (button_actor_kick P s3)
           in case ipc_stop_all P U s4 of
                None \<Rightarrow> None
              | Some s5 \<Rightarrow> map_option snd (ipc_run_all P (finish s5))))"

section \<open>The application stays in the frame\<close>

lemma led_hooks_frame: "frames_core led_hooks"
proof -
  have "core_frame s (led_hooks c s)" for c and s :: "'a led_sys"
    by (cases c) (simp_all add: led_on_start_def led_on_stop_def led_on_failure_def Let_def)
  then show ?thesis by (simp add: frames_core_def)
qed

lemma publish_event_frame: "core_frame s t \<Longrightarrow> core_frame s (publish_event P e t)"
  by (cases e) (simp_all add: core_steps)

lemma publish_events_frame: "core_frame s t \<Longrightarrow> core_frame s (fold (publish_event P) es t)"
  by (induction es arbitrary: t) (simp_all add: publish_event_frame)

lemma on_tick_frame: "core_frame s (on_tick P self s)"
  by (simp add: on_tick_eq publish_events_frame core_steps)

lemma led_handler_frame: "led_handler P f = Some (n, h) \<Longrightarrow> core_frame s (h self bs m s)"
  by (auto simp: led_handler_def led_on_handler_def led_off_handler_def led_blink_handler_def
      get_led_state_handler_def led_fault_handler_def app_fault_handler_def on_click_def on_double_click_def
      on_hold_def on_tick_msg_def on_tick_frame on_fault_def Let_def core_steps
      frame_actor_fail [OF led_hooks_frame] split: if_splits)

lemma led_user_frame:
  fixes P :: "'p port_ops" and report :: "int + GetLedStateResponse_payload_t \<Rightarrow> 'p led_sys \<Rightarrow> 'p led_sys"
  assumes "\<And>r s. core_frame s (report r s)"
  shows "frames_core (led_user report P)"
proof -
  have hook: "core_frame s (led_hooks c s)" for c and s :: "'p led_sys" 
    by (rule led_hooks_frame [unfolded frames_core_def, rule_format])
  have "core_frame s (led_user report P c s)" for c and s :: "'p led_sys"
  proof (cases c)
    case (Call_handler f self m)
    then show ?thesis
      using led_handler_frame [of P f]
      by (auto simp: handle_adapter_def split: option.split)
  next
    case (Call_callback f self result payload sz m)
    then show ?thesis
      using assms by (auto simp: response_handle_adapter_def on_led_state_def)
  qed (use hook in \<open>simp_all del: led_hooks.simps\<close>)
  then show ?thesis by (simp add: frames_core_def)
qed

lemma app_run_frame: "core_frame s (app_run P s)"
  by (simp add: app_run_def case_prod_beta core_steps)

lemma button_actor_kick_frame: "core_frame s (button_actor_kick P s)"
  by (simp add: button_actor_kick_def core_steps)

section \<open>From the constructors to the end of main\<close>

lemma led_main_stops:
  assumes "frames_core U" "actor_list s xs" "lifecycle_state s = IPC_LIFECYCLE_STOPPED"
    and "\<And>ms t. core_frame t (sleep ms t)" "\<And>t. core_frame t (finish t)"
    and "\<And>t. \<exists>p. port_run_all P xs (port_st (finish t)) = Some (p, 0)"
  shows "\<exists>t. led_main P U sleep finish s = Some t \<and> same_program s t
    \<and> lifecycle_state t = IPC_LIFECYCLE_STOPPED"
proof -
  obtain rc s1 where start: "ipc_start_all_actors P U s = Some (rc, s1)" "same_program s s1"
    "lifecycle_state s1 = (if rc = 0 then IPC_LIFECYCLE_RUNNING else IPC_LIFECYCLE_STOPPING)"
    using start_all_program [OF assms(1-3)] by blast
  define s4 where "s4 = sleep 8000 (button_actor_kick P (sleep 100 (app_run P (sleep 10 s1))))"
  have frame: "core_frame s1 s4"
    unfolding s4_def using assms(4) app_run_frame button_actor_kick_frame core_frame_trans by meson
  have s4: "same_program s s4" by (rule same_program_trans [OF start(2) same_program_frame [OF frame]])
  have "actor_list s4 xs" using assms(2) same_program_list [OF s4] by simp
  from stop_all_program [OF assms(1) this] obtain s5 where stop: "ipc_stop_all P U s4 = Some s5"
    "same_program s4 s5" "lifecycle_state s5 = IPC_LIFECYCLE_STOPPING"
    using start(3) core_frame_lifecycle [OF frame] by (auto split: if_splits)
  have s6: "same_program s (finish s5)"
    using same_program_trans [OF same_program_trans [OF s4 stop(2)] same_program_frame [OF assms(5)]] .
  have life: "lifecycle_state (finish s5) = IPC_LIFECYCLE_STOPPING"
    using core_frame_lifecycle [OF assms(5)] stop(3) by simp
  obtain p where "port_run_all P xs (port_st (finish s5)) = Some (p, 0)" using assms(6) by blast
  moreover have "actor_list (finish s5) xs" using assms(2) same_program_list [OF s6] by simp
  ultimately obtain t where join: "ipc_run_all P (finish s5) = Some (0, t)" "same_program (finish s5) t"
    "lifecycle_state t = IPC_LIFECYCLE_STOPPED"
    using run_all_program life by metis
  show ?thesis
    using start(1) stop(1) join same_program_trans [OF s6 join(2)] by (simp add: led_main_def s4_def [symmetric])
qed

lemma led_routes_same:
  assumes "same_program s t" "led_routes s"
  shows "led_routes t"
proof -
  have same: "same_tables s t"
    using assms(1) by (simp add: same_program_def core_frame_def same_tables_def)
  then have "subs t = subs s" "\<And>i. find_registered i t = find_registered i s"
    using find_registered_cong by (simp_all add: same_tables_def)
  then show ?thesis using assms(2) unfolding led_routes_def by simp
qed

lemma led_declared_list:
  assumes "mset ys = mset led_decls" "declared_state c led_actors led_descs ys s"
  shows "\<exists>xs. actor_list s xs \<and> set xs = {led_actor, app_actor, button_actor}"
proof -
  have "set (fold append_new as bs) = set bs \<union> set as" for as bs :: "aptr list"
    by (induction as arbitrary: bs) (auto simp: append_new_def)
  moreover have "decl_actor ` set ys = decl_actor ` set led_decls" by (simp add: mset_eq_setD [OF assms(1)])
  moreover have "decl_actor ` set led_decls = {led_actor, app_actor, button_actor}"
    by (auto simp: led_decls_defs)
  ultimately show ?thesis
    using assms(2) by (intro exI [of _ "fold append_new (map decl_actor ys) []"])
      (simp add: declared_state_def registration_inv_def)
qed



end
