(* ===== verification/Message_Ids.thy ===== *)
theory Message_Ids
  imports Ipc_Dispatch
begin

text \<open>
  The values an ID must not have: 0, which stands for an ID not computed yet, and the ID the core
  reserves for its own timeout message. Nothing keeps the hash of a name away from either.
\<close>

lemma reserved_hashes:
  "ipc_fnv1a ''OseTpay'' = 0" "ipc_fnv1a ''VmFDthw'' = ipc_ask_timeout_msg_id"
  by (simp_all add: ipc_fnv1a_def fnv1a_step_def ipc_ask_timeout_msg_id_def)

lemma hashed_to_zero:
  assumes "d_name (descs s d) = Some n" "ipc_fnv1a n = 0" "d_id (descs s d) = 0"
  shows "eventual_id (descs s d) = 0" "d_id (descs (ipc_ensure_id e s) d) = 0"
  using assms by (auto simp: eventual_id_def ipc_ensure_id_def split: option.split)


definition ex_zero_hash :: "(unit, unit) sys" where
  "ex_zero_hash = (ex_running () ())\<lparr> descs := (\<lambda>d. IPC_CMD_DEFINE ''OseTpay'' 4) \<rparr>"


section \<open>Asks compiled out\<close>

text \<open>
  With \<^verbatim>\<open>IPC_CONFIG_ENABLE_ASK\<close> off the core has these functions in place of the ask API. The definitions
  of the API branch on the setting, which is a field of the state here; with it off they are the stubs.
\<close>

definition no_ask_with_id_raw ::
    "aptr option \<Rightarrow> dptr option \<Rightarrow> u8 list option \<Rightarrow> dptr option \<Rightarrow> fnptr option
     \<Rightarrow> u32 \<Rightarrow> ('p, 'u) sys \<Rightarrow> int \<times> u32 \<times> ('p, 'u) sys" where
  "no_ask_with_id_raw self request payload reply callback timeout_ms s = (- ENOSYS, 0, s)"

definition no_ask_raw ::
    "aptr option \<Rightarrow> dptr option \<Rightarrow> u8 list option \<Rightarrow> dptr option \<Rightarrow> fnptr option
     \<Rightarrow> u32 \<Rightarrow> ('p, 'u) sys \<Rightarrow> int \<times> ('p, 'u) sys" where
  "no_ask_raw self request payload reply callback timeout_ms s = (- ENOSYS, s)"

definition no_ask_cancel :: "aptr option \<Rightarrow> u32 \<Rightarrow> ('p, 'u) sys \<Rightarrow> int \<times> ('p, 'u) sys" where
  "no_ask_cancel self ask_id s = (- ENOSYS, s)"

definition no_reply_raw ::
    "ipc_msg option \<Rightarrow> dptr option \<Rightarrow> u8 list option \<Rightarrow> ('p, 'u) sys \<Rightarrow> int \<times> ('p, 'u) sys" where
  "no_reply_raw request reply payload s = (- ENOSYS, s)"

definition no_reply_error_raw :: "ipc_msg option \<Rightarrow> int \<Rightarrow> ('p, 'u) sys \<Rightarrow> int \<times> ('p, 'u) sys" where
  "no_reply_error_raw request result s = (- ENOSYS, s)"

definition no_ask_timeout_expired :: "aptr \<Rightarrow> u32 \<Rightarrow> ('p, 'u) sys \<Rightarrow> ('p, 'u) sys" where
  "no_ask_timeout_expired actor ask_id s = s"

lemma asks_disabled:
  assumes "\<not> IPC_CONFIG_ENABLE_ASK (conf s)"
  shows "ipc_ask_with_id_raw P self rq payload rp cb ms s = no_ask_with_id_raw self rq payload rp cb ms s"
    "ipc_ask_raw P self rq payload rp cb ms s = no_ask_raw self rq payload rp cb ms s"
    "ipc_ask_cancel self n s = no_ask_cancel self n s"
    "ipc_reply_raw P req rp payload s = no_reply_raw req rp payload s"
    "ipc_reply_error_raw P req result s = no_reply_error_raw req result s"
    "ipc_ask_timeout_expired P a n s = no_ask_timeout_expired a n s"
    "ipc_dispatch_actor_handlers U (Some a) (Some m) s = dispatch_to_handler U a m s"
  using assms
  by (simp_all add: ipc_ask_with_id_raw_def ipc_ask_raw_def ipc_ask_cancel_def ipc_reply_raw_def
      ipc_reply_error_raw_def ipc_ask_timeout_expired_def ipc_dispatch_actor_handlers_def
      no_ask_with_id_raw_def no_ask_raw_def no_ask_cancel_def no_reply_raw_def no_reply_error_raw_def
      no_ask_timeout_expired_def)

end
